(* ===== verification/Prelude.thy ===== *)
theory Prelude
  imports Main "HOL-Library.Monad_Syntax" "HOL-Library.Sublist"
begin

text \<open>
  What every component of the development shares: the type of a Go call that threads a
  world state and may panic, fixed-width integers with their wrap-around written out, the
  functions of Go's \<open>strings\<close> and \<open>strconv\<close> packages that the sources use, buffered
  channels with a non-blocking send, and the generic facts on lists and options that the
  component proofs need.
\<close>

named_theorems go_defs \<open>definitions of modelled Go functions, unfolded by branch proofs\<close>
named_theorems wrap_simps \<open>wrap-around of fixed-width integers that are in range\<close>

section \<open>Calls with effects\<close>

text \<open>
  A Go call that reads and changes some state is a function of that state. \<open>Some (r, s')\<close>
  is a call that returns the results \<open>r\<close> and leaves the state \<open>s'\<close>; \<open>None\<close> is a call that
  does not return to its caller: it panics (a nil dereference), or recurses for ever.
  A Go function with several results returns a tuple; its error result is a
  \<open>go_error option\<close>, \<open>None\<close> for nil. The context argument of the sources (deadlines and
  cancellation) is not an argument here: what a deadline can do is let a remote call fail,
  which the remote interface's result type allows.
\<close>

type_synonym ('w, 'a) go = "'w \<Rightarrow> ('a \<times> 'w) option"

text \<open>Go's integer types carry their width in their name; the model keeps their value.\<close>

type_synonym int64 = int
type_synonym int32 = int
type_synonym bytes = string

section \<open>Fixed-width integers\<close>

definition i64 :: "int \<Rightarrow> int64" where
  "i64 x = (x + 2 ^ 63) mod 2 ^ 64 - 2 ^ 63"

definition i32 :: "int \<Rightarrow> int32" where
  "i32 x = (x + 2 ^ 31) mod 2 ^ 32 - 2 ^ 31"

definition u32 :: "int \<Rightarrow> int" where
  "u32 x = x mod 2 ^ 32"

definition MaxInt64 :: int64 where
  "MaxInt64 = 2 ^ 63 - 1"

lemma i64_id [wrap_simps]: "- (2 ^ 63) \<le> x \<Longrightarrow> x < 2 ^ 63 \<Longrightarrow> i64 x = x"
  by (simp add: i64_def)

lemma i32_id [wrap_simps]: "- (2 ^ 31) \<le> x \<Longrightarrow> x < 2 ^ 31 \<Longrightarrow> i32 x = x"
  by (simp add: i32_def)

lemma u32_id [wrap_simps]: "0 \<le> x \<Longrightarrow> x < 2 ^ 32 \<Longrightarrow> u32 x = x"
  by (simp add: u32_def)

lemma i64_bounds: "- (2 ^ 63) \<le> i64 x \<and> i64 x < 2 ^ 63"
  by (simp add: i64_def)

lemma i32_bounds: "- (2 ^ 31) \<le> i32 x \<and> i32 x < 2 ^ 31"
  by (simp add: i32_def)

lemma i64_of_i32 [simp]: "i64 (i32 x) = i32 x"
proof -
  have "- (2 ^ 63) \<le> (- (2 ^ 31) :: int)" and "(2 ^ 31 :: int) \<le> 2 ^ 63" by simp_all
  with i32_bounds [of x] show ?thesis by (intro i64_id) linarith+
qed

lemma i32_of_i32 [simp]: "i32 (i32 x) = i32 x"
  using i32_bounds [of x] by (intro i32_id) linarith+

lemma i64_succ_max: "i64 (MaxInt64 + 1) = - (2 ^ 63)"
  by (simp add: i64_def MaxInt64_def)

section \<open>Strings\<close>

definition HasPrefix :: "string \<Rightarrow> string \<Rightarrow> bool" where
  "HasPrefix s p \<longleftrightarrow> take (length p) s = p"

definition HasSuffix :: "string \<Rightarrow> string \<Rightarrow> bool" where
  "HasSuffix s p \<longleftrightarrow> length p \<le> length s \<and> drop (length s - length p) s = p"

definition TrimPrefix :: "string \<Rightarrow> string \<Rightarrow> string" where
  "TrimPrefix s p = (if HasPrefix s p then drop (length p) s else s)"

definition TrimSuffix :: "string \<Rightarrow> string \<Rightarrow> string" where
  "TrimSuffix s p = (if HasSuffix s p then take (length s - length p) s else s)"

text \<open>\<open>bytes.TrimRight(b, cutset)\<close> drops every trailing byte that is in the cutset.\<close>

definition TrimRight :: "bytes \<Rightarrow> string \<Rightarrow> bytes" where
  "TrimRight b cutset = rev (dropWhile (\<lambda>c. c \<in> set cutset) (rev b))"

lemma HasPrefix_append [simp]: "HasPrefix (p @ s) p"
  by (simp add: HasPrefix_def)

lemma HasPrefix_iff: "HasPrefix s p \<longleftrightarrow> (\<exists>t. s = p @ t)"
  by (auto simp: HasPrefix_def) (metis append_take_drop_id)

lemma HasSuffix_append [simp]: "HasSuffix (s @ p) p"
  by (simp add: HasSuffix_def)

lemma HasSuffix_iff: "HasSuffix s p \<longleftrightarrow> (\<exists>t. s = t @ p)"
  by (auto simp: HasSuffix_def) (metis append_take_drop_id)

lemma HasSuffix_Nil [simp]: "HasSuffix [] [c] = False"
  by (simp add: HasSuffix_def)

lemma HasSuffix_single: "HasSuffix s [c] \<longleftrightarrow> s \<noteq> [] \<and> last s = c"
  by (cases s rule: rev_cases) (auto simp: HasSuffix_def)

lemma TrimRight_no_trail: "b = [] \<or> last b \<notin> set cs \<Longrightarrow> TrimRight b cs = b"
  by (cases b rule: rev_cases) (auto simp: TrimRight_def)

subsection \<open>Decimal numerals\<close>

fun nat_digits :: "nat \<Rightarrow> string" where
  "nat_digits n =
     (if n < 10 then [char_of (48 + n)] else nat_digits (n div 10) @ [char_of (48 + n mod 10)])"

declare nat_digits.simps [simp del]

text \<open>\<open>strconv.FormatInt(n, 10)\<close>, and the verb \<open>%d\<close> of \<open>fmt\<close>.\<close>

definition FormatInt :: "int \<Rightarrow> string" where
  "FormatInt n = (if n < 0 then CHR ''-'' # nat_digits (nat (- n)) else nat_digits (nat n))"

definition is_digit :: "char \<Rightarrow> bool" where
  "is_digit c \<longleftrightarrow> 48 \<le> (of_char c :: nat) \<and> (of_char c :: nat) \<le> 57"

definition digit_value :: "char \<Rightarrow> nat" where
  "digit_value c = of_char c - 48"

fun digits_value :: "nat \<Rightarrow> string \<Rightarrow> nat" where
  "digits_value acc [] = acc"
| "digits_value acc (c # cs) = digits_value (10 * acc + digit_value c) cs"

lemma is_digit_char_of [simp]: "d < 10 \<Longrightarrow> is_digit (char_of (48 + d :: nat))"
  by (simp add: is_digit_def)

lemma digit_value_char_of [simp]: "d < 10 \<Longrightarrow> digit_value (char_of (48 + d :: nat)) = d"
  by (simp add: digit_value_def)

lemma digits_value_snoc: "digits_value a (xs @ [c]) = 10 * digits_value a xs + digit_value c"
  by (induction xs arbitrary: a) auto

lemma nat_digits_digits: "list_all is_digit (nat_digits n)"
proof (induction n rule: nat_digits.induct)
  case (1 n)
  then show ?case by (cases "n < 10") (simp_all add: nat_digits.simps [of n])
qed

lemma nat_digits_value: "digits_value 0 (nat_digits n) = n"
proof (induction n rule: nat_digits.induct)
  case (1 n)
  then show ?case
    by (cases "n < 10") (simp_all add: nat_digits.simps [of n] digits_value_snoc)
qed

lemma nat_digits_nonempty [simp]: "nat_digits n \<noteq> []"
  by (subst nat_digits.simps) simp

section \<open>Buffered channels\<close>

text \<open>
  A buffered channel is the queue of the values it holds. Inside a \<open>select\<close> with a
  \<open>default\<close> case a send succeeds when there is room and is dropped otherwise.
\<close>

definition try_send :: "nat \<Rightarrow> 'a \<Rightarrow> 'a list \<Rightarrow> 'a list" where
  "try_send cap x c = (if length c < cap then c @ [x] else c)"

lemma length_try_send: "length c \<le> cap \<Longrightarrow> length (try_send cap x c) \<le> cap"
  by (simp add: try_send_def)

lemma try_send_prefix: "\<exists>d. try_send cap x c = c @ d"
  by (simp add: try_send_def)

section \<open>Lists and options\<close>

text \<open>Go's \<open>for len(xs) > 0 && p(xs[0]) { xs = xs[1:] }\<close> on a list that ascends in a key.\<close>

lemma dropWhile_sorted_filter:
  fixes f :: "'a \<Rightarrow> 'b :: linorder"
  assumes "sorted (map f xs)"
  shows "dropWhile (\<lambda>x. f x \<le> r) xs = filter (\<lambda>x. r < f x) xs"
  using assms
proof (induction xs)
  case (Cons x xs)
  show ?case
  proof (cases "f x \<le> r")
    case False
    with Cons.prems have "\<forall>y \<in> set xs. r < f y" by force
    with False show ?thesis by simp
  qed (use Cons in simp)
qed simp

lemma bind_Some_iff [go_defs]:
  "(Option.bind m f = Some y) \<longleftrightarrow> (\<exists>x. m = Some x \<and> f x = Some y)"
  by (rule Option.bind_eq_Some_conv)

lemma find_map_option: "find P (map f xs) = map_option f (find (P \<circ> f) xs)"
  by (induction xs) auto

lemma strict_sorted_snoc:
  "sorted_wrt (<) (xs @ [x :: int]) \<longleftrightarrow> sorted_wrt (<) xs \<and> (\<forall>y \<in> set xs. y < x)"
  by (auto simp: sorted_wrt_append)

end
