(* ===== verification/Messages.thy ===== *)
theory Messages
  imports Prelude
begin

text \<open>
  The protocol buffer messages that Kine and the DDS database exchange
  (\<open>pkg/drivers/messagestructures/kinedata.pb.go\<close>) and the client stub of the service
  (\<open>kinedata_grpc.pb.go\<close>). A message is the record of its fields, without the bookkeeping
  fields of the protobuf runtime. A stub method returns either an error and no message, or
  a message and no error, so its result is a sum.
\<close>

text \<open>
  The error values of the sources. Errors that callers compare against are constructors of
  their own; an error made from a format string keeps its text, an error of the transport
  its description, and \<open>Wrapped\<close> is the effect of \<open>errors.Wrap\<close>.
\<close>

datatype go_error =
    ErrKeyExists
  | ErrCompacted
  | ErrDdsFailed
  | ErrKeyNotFound
  | Errorf string
  | RpcError string
  | Wrapped string go_error

section \<open>Requests\<close>

record KineInsert =
  ki_Id :: int64
  ki_Name :: string
  ki_Created :: int64
  ki_Deleted :: int64
  ki_CreateRevision :: int64
  ki_PrevRevision :: int64
  ki_Lease :: int64
  ki_Value :: bytes
  ki_OldValue :: bytes

record KineDispose =
  kd_Id :: int64

record KineMassDisposeCompaction =
  kmd_Param1 :: int64
  kmd_Param2 :: int64

record KineQueryGeneric =
  kq_QueryIdentifier :: int32
  kq_Param1 :: string
  kq_Param2 :: string
  kq_Param3 :: string
  kq_Param4 :: string
  kq_Param5 :: string
  kq_Limit :: int64

record KineQueryThree =
  kq3_Param1 :: string
  kq3_Param2 :: string

section \<open>Responses\<close>

record ResponsePublish =
  rp_Success :: bool
  rp_ReturningId :: "int64 option"

record ResponseDispose =
  rd_Success :: bool

record ResponseMassDisposeCompaction =
  rmd_Success :: bool
  rmd_DeletedRows :: int64

record QueryGenericRow =
  MaxId :: int64
  CompactionPrevRevision :: int64
  Theid :: int64
  row_Name :: string
  Created :: int64
  Deleted :: int64
  row_CreateRevision :: int64
  PrevRevision :: int64
  row_Lease :: int64
  row_Value :: bytes
  OldValue :: bytes

record ResponseQueryGeneric =
  Row :: "QueryGenericRow list"

record ResponseQueryThree =
  rq3_Id :: int64
  rq3_Count :: int64

record ResponseQueryCompactRevision =
  rqc_Id :: int64

record ResponseQueryMaximumId =
  rqm_Id :: int64

section \<open>The client stub\<close>

text \<open>
  The database, and everything between Kine and it, is the world \<open>'w\<close> of the stub: a call
  can change it and can fail.
\<close>

record 'w DatabaseCommunicationClient =
  RequestPublish :: "KineInsert \<Rightarrow> 'w \<Rightarrow> (go_error + ResponsePublish) \<times> 'w"
  RequestDispose :: "KineDispose \<Rightarrow> 'w \<Rightarrow> (go_error + ResponseDispose) \<times> 'w"
  RequestMassDisposeCompaction ::
    "KineMassDisposeCompaction \<Rightarrow> 'w \<Rightarrow> (go_error + ResponseMassDisposeCompaction) \<times> 'w"
  RequestQueryGeneric :: "KineQueryGeneric \<Rightarrow> 'w \<Rightarrow> (go_error + ResponseQueryGeneric) \<times> 'w"
  RequestQueryThree :: "KineQueryThree \<Rightarrow> 'w \<Rightarrow> (go_error + ResponseQueryThree) \<times> 'w"
  RequestQueryCompactRevision :: "'w \<Rightarrow> (go_error + ResponseQueryCompactRevision) \<times> 'w"
  RequestQueryMaximumId :: "'w \<Rightarrow> (go_error + ResponseQueryMaximumId) \<times> 'w"

text \<open>
  The package variables of \<open>commsdb\<close>. \<open>InitialiseCommsConnexion\<close> builds all four stubs on
  one connection.
\<close>

record 'w commsdb =
  Client :: "'w DatabaseCommunicationClient"
  ClientPublisher :: "'w DatabaseCommunicationClient"
  ClientQuery04 :: "'w DatabaseCommunicationClient"
  ClientSmallQueries :: "'w DatabaseCommunicationClient"

definition InitialiseCommsConnexion :: "'w DatabaseCommunicationClient \<Rightarrow> 'w commsdb" where
  "InitialiseCommsConnexion conn =
     \<lparr>Client = conn, ClientPublisher = conn, ClientQuery04 = conn, ClientSmallQueries = conn\<rparr>"

lemma InitialiseCommsConnexion_simps [simp]:
  "Client (InitialiseCommsConnexion c) = c"
  "ClientPublisher (InitialiseCommsConnexion c) = c"
  "ClientQuery04 (InitialiseCommsConnexion c) = c"
  "ClientSmallQueries (InitialiseCommsConnexion c) = c"
  by (simp_all add: InitialiseCommsConnexion_def)

end
