(* ===== verification/Interfaces.thy ===== *)
theory Interfaces
  imports Messages
begin

text \<open>
  The data and the interfaces of \<open>pkg/server/types.go\<close>, and the \<open>Log\<close> interface of
  \<open>pkg/logstructured/logstructured.go\<close>. A Go interface is a record of functions over the
  state \<open>'w\<close> of whatever implements it; a component that takes an interface takes the record,
  so its theorems hold for every implementation. \<open>GetRevision\<close> of \<open>Dialect\<close> and
  \<open>Transaction\<close> is left out of the records: it returns a cursor of \<open>database/sql\<close>, and nothing calls
  it (\<open>SqlTexts\<close> has the method).
\<close>

section \<open>Keys, values and events\<close>

record KeyValue =
  Key :: string
  CreateRevision :: int64
  ModRevision :: int64
  Value :: bytes
  Lease :: int64

text \<open>The fields \<open>KV\<close> and \<open>PrevKV\<close> are pointers: \<open>None\<close> is nil.\<close>

record Event =
  Delete :: bool
  Create :: bool
  KV :: "KeyValue option"
  PrevKV :: "KeyValue option"

text \<open>The zero value of the struct, \<open>KeyValue{}\<close>.\<close>

definition KeyValue_zero :: KeyValue where
  "KeyValue_zero = \<lparr>Key = [], CreateRevision = 0, ModRevision = 0, Value = [], Lease = 0\<rparr>"

lemma KeyValue_zero_simps [simp]:
  "Key KeyValue_zero = []" "CreateRevision KeyValue_zero = 0" "ModRevision KeyValue_zero = 0"
  "Value KeyValue_zero = []" "Lease KeyValue_zero = 0"
  by (simp_all add: KeyValue_zero_def)

section \<open>Interfaces\<close>

text \<open>
  A method that returns a channel of event batches returns here the batches that the channel
  delivers until it is closed.
\<close>

record 'w Backend =
  b_Start :: "('w, go_error option) go"
  b_Get :: "string \<Rightarrow> string \<Rightarrow> int64 \<Rightarrow> int64 \<Rightarrow>
    ('w, int64 \<times> KeyValue option \<times> go_error option) go"
  b_Create :: "string \<Rightarrow> bytes \<Rightarrow> int64 \<Rightarrow> ('w, int64 \<times> go_error option) go"
  b_Delete :: "string \<Rightarrow> int64 \<Rightarrow>
    ('w, int64 \<times> KeyValue option \<times> bool \<times> go_error option) go"
  b_List :: "string \<Rightarrow> string \<Rightarrow> int64 \<Rightarrow> int64 \<Rightarrow>
    ('w, int64 \<times> KeyValue option list \<times> go_error option) go"
  b_Count :: "string \<Rightarrow> ('w, int64 \<times> int64 \<times> go_error option) go"
  b_Update :: "string \<Rightarrow> bytes \<Rightarrow> int64 \<Rightarrow> int64 \<Rightarrow>
    ('w, int64 \<times> KeyValue option \<times> bool \<times> go_error option) go"
  b_Watch :: "string \<Rightarrow> int64 \<Rightarrow> ('w, Event list list) go"
  b_DbSize :: "('w, int64 \<times> go_error option) go"

record 'w Transaction =
  t_Commit :: "('w, go_error option) go"
  t_MustCommit :: "('w, unit) go"
  t_Rollback :: "('w, go_error option) go"
  t_MustRollback :: "('w, unit) go"
  t_GetCompactRevision :: "('w, int64 \<times> go_error option) go"
  t_SetCompactRevision :: "int64 \<Rightarrow> ('w, go_error option) go"
  t_Compact :: "int64 \<Rightarrow> ('w, int64 \<times> go_error option) go"
  t_DeleteRevision :: "int64 \<Rightarrow> ('w, go_error option) go"
  t_CurrentRevision :: "('w, int64 \<times> go_error option) go"

text \<open>\<open>BeginTx\<close> returns an interface value, which can be nil.\<close>

record 'w Dialect =
  d_ListCurrent :: "string \<Rightarrow> int64 \<Rightarrow> bool \<Rightarrow>
    ('w, QueryGenericRow list \<times> go_error option) go"
  d_List :: "string \<Rightarrow> string \<Rightarrow> int64 \<Rightarrow> int64 \<Rightarrow> bool \<Rightarrow>
    ('w, QueryGenericRow list \<times> go_error option) go"
  d_Count :: "string \<Rightarrow> ('w, int64 \<times> int64 \<times> go_error option) go"
  d_CurrentRevision :: "('w, int64 \<times> go_error option) go"
  d_After :: "string \<Rightarrow> int64 \<Rightarrow> int64 \<Rightarrow> ('w, QueryGenericRow list \<times> go_error option) go"
  d_Insert :: "string \<Rightarrow> bool \<Rightarrow> bool \<Rightarrow> int64 \<Rightarrow> int64 \<Rightarrow> int64 \<Rightarrow> bytes \<Rightarrow> bytes \<Rightarrow>
    ('w, int64 \<times> go_error option) go"
  d_DeleteRevision :: "int64 \<Rightarrow> ('w, go_error option) go"
  d_GetCompactRevision :: "('w, int64 \<times> go_error option) go"
  d_SetCompactRevision :: "int64 \<Rightarrow> ('w, go_error option) go"
  d_Compact :: "int64 \<Rightarrow> ('w, int64 \<times> go_error option) go"
  d_PostCompact :: "('w, go_error option) go"
  d_Fill :: "int64 \<Rightarrow> ('w, go_error option) go"
  d_IsFill :: "string \<Rightarrow> bool"
  d_BeginTx :: "('w, 'w Transaction option \<times> go_error option) go"
  d_GetSize :: "('w, int64 \<times> go_error option) go"

record 'w Log =
  log_Start :: "('w, go_error option) go"
  log_CurrentRevision :: "('w, int64 \<times> go_error option) go"
  log_List :: "string \<Rightarrow> string \<Rightarrow> int64 \<Rightarrow> int64 \<Rightarrow> bool \<Rightarrow>
    ('w, int64 \<times> Event list \<times> go_error option) go"
  log_After :: "string \<Rightarrow> int64 \<Rightarrow> int64 \<Rightarrow> ('w, int64 \<times> Event list \<times> go_error option) go"
  log_Watch :: "string \<Rightarrow> ('w, Event list list) go"
  log_Count :: "string \<Rightarrow> ('w, int64 \<times> int64 \<times> go_error option) go"
  log_Append :: "Event \<Rightarrow> ('w, int64 \<times> go_error option) go"
  log_DbSize :: "('w, int64 \<times> go_error option) go"

end
