(* ===== verification/LogStructured.thy ===== *)
theory LogStructured
  imports Interfaces
begin

text \<open>
  The etcd semantics on top of a log of events: \<open>pkg/logstructured/logstructured.go\<close>. The
  functions take the log as a record of its operations, as \<open>LogStructured\<close> takes the
  interface \<open>Log\<close>; the operations of a \<open>Backend\<close> are put together in \<open>logstructured_backend\<close>.
  An operation with a deferred \<open>adjustRevision\<close> is its body followed by that call.
\<close>

section \<open>Reading\<close>

definition LogStructured_get ::
  "'w Log \<Rightarrow> string \<Rightarrow> string \<Rightarrow> int64 \<Rightarrow> int64 \<Rightarrow> bool \<Rightarrow>
   ('w, int64 \<times> Event option \<times> go_error option) go" where
  "LogStructured_get L key rangeEnd limit revision includeDeletes w = do {
     ((rv, events, err), w) \<leftarrow> log_List L key rangeEnd limit revision includeDeletes w;
     let err = (if err = Some ErrCompacted then None else err);
     if err \<noteq> None then Some ((0, None, err), w)
     else do {
       let rv = (if revision \<noteq> 0 then revision else rv);
       case events of
         [] \<Rightarrow> Some ((rv, None, None), w)
       | event # _ \<Rightarrow> Some ((rv, Some event, None), w)
     }
   }"

definition adjustRevision :: "'w Log \<Rightarrow> int64 \<Rightarrow> ('w, int64) go" where
  "adjustRevision L rv w =
     (if rv \<noteq> 0 then Some (rv, w)
      else do {
        ((newRev, err), w) \<leftarrow> log_CurrentRevision L w;
        Some (if err = None then newRev else rv, w)
      })"

definition LogStructured_Get ::
  "'w Log \<Rightarrow> string \<Rightarrow> string \<Rightarrow> int64 \<Rightarrow> int64 \<Rightarrow>
   ('w, int64 \<times> KeyValue option \<times> go_error option) go" where
  "LogStructured_Get L key rangeEnd limit revision w = do {
     ((rv, event, err), w) \<leftarrow> LogStructured_get L key rangeEnd limit revision False w;
     let kvRet = (case event of None \<Rightarrow> None | Some e \<Rightarrow> KV e);
     (rv, w) \<leftarrow> adjustRevision L rv w;
     Some ((rv, kvRet, err), w)
   }"

text \<open>
  With revision 0 and no event the code lists again at the current revision. When the current
  revision is 0 too it calls itself with the arguments it was given; \<open>None\<close> covers a call that
  does so for ever.
\<close>

partial_function (option) LogStructured_List ::
  "'w Log \<Rightarrow> string \<Rightarrow> string \<Rightarrow> int64 \<Rightarrow> int64 \<Rightarrow>
   ('w, int64 \<times> KeyValue option list \<times> go_error option) go" where
  "LogStructured_List L pre startKey limit revision w = do {
     ((rv, events, err), w) \<leftarrow> log_List L pre startKey limit revision False w;
     if err \<noteq> None then Some ((0, [], err), w)
     else if revision = 0 \<and> length events = 0 then do {
       ((currentRev, err), w) \<leftarrow> log_CurrentRevision L w;
       if err \<noteq> None then Some ((0, [], err), w)
       else LogStructured_List L pre startKey limit currentRev w
     }
     else Some ((if revision \<noteq> 0 then revision else rv, map KV events, None), w)
   }"

definition LogStructured_Count ::
  "'w Log \<Rightarrow> string \<Rightarrow> ('w, int64 \<times> int64 \<times> go_error option) go" where
  "LogStructured_Count L pre w = do {
     ((rv, count, err), w) \<leftarrow> log_Count L pre w;
     if err \<noteq> None then Some ((0, 0, err), w)
     else if count = 0 then do {
       ((currentRev, err), w) \<leftarrow> log_CurrentRevision L w;
       if err \<noteq> None then Some ((0, 0, err), w)
       else do {
         ((rv, rows, err), w) \<leftarrow> LogStructured_List L pre pre 1000 currentRev w;
         Some ((rv, int (length rows), err), w)
       }
     }
     else Some ((rv, count, None), w)
   }"

section \<open>Writing\<close>

definition create_event :: "string \<Rightarrow> bytes \<Rightarrow> int64 \<Rightarrow> KeyValue option \<Rightarrow> Event" where
  "create_event key val lease prev =
     \<lparr>Delete = False, Create = True,
      KV = Some \<lparr>Key = key, CreateRevision = 0, ModRevision = 0, Value = val, Lease = lease\<rparr>,
      PrevKV = prev\<rparr>"

definition LogStructured_Create_body ::
  "'w Log \<Rightarrow> string \<Rightarrow> bytes \<Rightarrow> int64 \<Rightarrow> ('w, int64 \<times> go_error option) go" where
  "LogStructured_Create_body L key val lease w = do {
     ((rv, prevEvent, err), w) \<leftarrow> LogStructured_get L key [] 1 0 True w;
     if err \<noteq> None then Some ((0, err), w)
     else case prevEvent of
       Some prev \<Rightarrow>
         (if \<not> Delete prev then Some ((0, Some ErrKeyExists), w)
          else log_Append L (create_event key val lease (KV prev)) w)
     | None \<Rightarrow>
         log_Append L (create_event key val lease (Some (KeyValue_zero\<lparr>ModRevision := rv\<rparr>))) w
   }"

definition LogStructured_Create ::
  "'w Log \<Rightarrow> string \<Rightarrow> bytes \<Rightarrow> int64 \<Rightarrow> ('w, int64 \<times> go_error option) go" where
  "LogStructured_Create L key val lease w = do {
     ((rv, err), w) \<leftarrow> LogStructured_Create_body L key val lease w;
     (rv, w) \<leftarrow> adjustRevision L rv w;
     Some ((rv, err), w)
   }"

definition delete_event :: "Event \<Rightarrow> Event" where
  "delete_event event = \<lparr>Delete = True, Create = False, KV = KV event, PrevKV = KV event\<rparr>"

text \<open>\<open>event.KV.ModRevision\<close> is read only when a revision is given: a nil \<open>KV\<close> panics then.\<close>

definition LogStructured_Delete_body ::
  "'w Log \<Rightarrow> string \<Rightarrow> int64 \<Rightarrow>
   ('w, int64 \<times> KeyValue option \<times> bool \<times> go_error option) go" where
  "LogStructured_Delete_body L key revision w = do {
     ((rv, event, err), w) \<leftarrow> LogStructured_get L key [] 1 0 True w;
     if err \<noteq> None then Some ((0, None, False, err), w)
     else case event of
       None \<Rightarrow> Some ((rv, None, True, None), w)
     | Some event \<Rightarrow>
         if Delete event then Some ((rv, KV event, True, None), w)
         else do {
           stale \<leftarrow> (if revision \<noteq> 0
                     then map_option (\<lambda>kv. ModRevision kv \<noteq> revision) (KV event)
                     else Some False);
           if stale then Some ((rv, KV event, False, None), w)
           else do {
             ((rv, err), w) \<leftarrow> log_Append L (delete_event event) w;
             if err \<noteq> None then do {
               ((latestRev, latestEvent, latestErr), w) \<leftarrow> LogStructured_get L key [] 1 0 True w;
               case latestEvent of
                 Some latest \<Rightarrow>
                   (if latestErr \<noteq> None then Some ((rv, KV event, False, None), w)
                    else Some ((latestRev, KV latest, False, None), w))
               | None \<Rightarrow> Some ((rv, KV event, False, None), w)
             }
             else Some ((rv, KV event, True, None), w)
           }
         }
   }"

definition LogStructured_Delete ::
  "'w Log \<Rightarrow> string \<Rightarrow> int64 \<Rightarrow>
   ('w, int64 \<times> KeyValue option \<times> bool \<times> go_error option) go" where
  "LogStructured_Delete L key revision w = do {
     ((rv, kvRet, deletedRet, err), w) \<leftarrow> LogStructured_Delete_body L key revision w;
     (rv, w) \<leftarrow> adjustRevision L rv w;
     Some ((rv, kvRet, deletedRet, err), w)
   }"

definition update_event :: "string \<Rightarrow> bytes \<Rightarrow> int64 \<Rightarrow> KeyValue \<Rightarrow> Event" where
  "update_event key val lease prev =
     \<lparr>Delete = False, Create = False,
      KV = Some \<lparr>Key = key, CreateRevision = CreateRevision prev, ModRevision = 0,
                 Value = val, Lease = lease\<rparr>,
      PrevKV = Some prev\<rparr>"

definition LogStructured_Update_body ::
  "'w Log \<Rightarrow> string \<Rightarrow> bytes \<Rightarrow> int64 \<Rightarrow> int64 \<Rightarrow>
   ('w, int64 \<times> KeyValue option \<times> bool \<times> go_error option) go" where
  "LogStructured_Update_body L key val revision lease w = do {
     ((rv, event, err), w) \<leftarrow> LogStructured_get L key [] 1 0 False w;
     if err \<noteq> None then Some ((0, None, False, err), w)
     else case event of
       None \<Rightarrow> Some ((0, None, False, None), w)
     | Some event \<Rightarrow> do {
         prev \<leftarrow> KV event;
         if ModRevision prev \<noteq> revision then Some ((rv, KV event, False, None), w)
         else do {
           ((rv, err), w) \<leftarrow> log_Append L (update_event key val lease prev) w;
           if err \<noteq> None then do {
             ((rv, event, err), w) \<leftarrow> LogStructured_get L key [] 1 0 False w;
             case event of
               None \<Rightarrow> Some ((rv, None, False, err), w)
             | Some event \<Rightarrow> Some ((rv, KV event, False, err), w)
           }
           else Some ((rv,
             map_option (\<lambda>kv. kv\<lparr>ModRevision := rv\<rparr>) (KV (update_event key val lease prev)),
             True, None), w)
         }
       }
   }"

definition LogStructured_Update ::
  "'w Log \<Rightarrow> string \<Rightarrow> bytes \<Rightarrow> int64 \<Rightarrow> int64 \<Rightarrow>
   ('w, int64 \<times> KeyValue option \<times> bool \<times> go_error option) go" where
  "LogStructured_Update L key val revision lease w = do {
     ((rv, kvRet, updateRet, err), w) \<leftarrow> LogStructured_Update_body L key val revision lease w;
     (rv, w) \<leftarrow> adjustRevision L rv w;
     Some ((rv, kvRet, updateRet, err), w)
   }"

section \<open>Start, leases, watches\<close>

definition health_value :: bytes where
  "health_value = [CHR ''{'', CHR 0x22] @ ''health'' @ [CHR 0x22, CHR '':'', CHR 0x22] @ ''true'' @
     [CHR 0x22, CHR ''}'']"

text \<open>An error of the creation of the health key is logged or ignored, never returned.\<close>

definition LogStructured_Start :: "'w Log \<Rightarrow> ('w, go_error option) go" where
  "LogStructured_Start L w = do {
     (err, w) \<leftarrow> log_Start L w;
     if err \<noteq> None then Some (err, w)
     else do {
       (_, w) \<leftarrow> LogStructured_Create L ''/registry/health'' health_value 0 w;
       Some (None, w)
     }
   }"

text \<open>The leased events of a batch: \<open>event.KV.Lease > 0\<close>.\<close>

fun leased :: "Event list \<Rightarrow> Event list option" where
  "leased [] = Some []"
| "leased (event # events) = do {
     kv \<leftarrow> KV event;
     rest \<leftarrow> leased events;
     Some (if Lease kv > 0 then event # rest else rest)
   }"

text \<open>
  The first goroutine of \<open>ttlEvents\<close> reads the log in pages of 1000 rows at the revision of the
  first page; the result is the leased events that it sends. The second goroutine does the same
  for the batches of a watch.
\<close>

partial_function (option) ttl_pages ::
  "'w Log \<Rightarrow> int64 \<Rightarrow> Event list \<Rightarrow> go_error option \<Rightarrow> ('w, Event list) go" where
  "ttl_pages L rv events err w =
     (if events = [] then Some ([], w)
      else if err \<noteq> None then Some ([], w)
      else do {
        sent \<leftarrow> leased events;
        kv \<leftarrow> KV (last events);
        ((_, events, err), w) \<leftarrow> log_List L ''/'' (Key kv) 1000 rv False w;
        (rest, w) \<leftarrow> ttl_pages L rv events err w;
        Some (sent @ rest, w)
      })"

definition ttlEvents_list :: "'w Log \<Rightarrow> ('w, Event list) go" where
  "ttlEvents_list L w = do {
     ((rv, events, err), w) \<leftarrow> log_List L ''/'' [] 1000 0 False w;
     ttl_pages L rv events err w
   }"

fun ttlEvents_watch :: "Event list list \<Rightarrow> Event list option" where
  "ttlEvents_watch [] = Some []"
| "ttlEvents_watch (batch # batches) = do {
     sent \<leftarrow> leased batch;
     rest \<leftarrow> ttlEvents_watch batches;
     Some (sent @ rest)
   }"

text \<open>What \<open>ttl\<close> does with an event once its lease has run out.\<close>

definition ttl_expire :: "'w Log \<Rightarrow> Event \<Rightarrow> ('w, unit) go" where
  "ttl_expire L event w = do {
     kv \<leftarrow> KV event;
     (_, w) \<leftarrow> LogStructured_Delete L (Key kv) (ModRevision kv) w;
     Some ((), w)
   }"

text \<open>\<open>logstructured.filter\<close>: the leading events that the first answer has covered are dropped.\<close>

fun logstructured_filter :: "Event list \<Rightarrow> int64 \<Rightarrow> Event list option" where
  "logstructured_filter [] rv = Some []"
| "logstructured_filter (event # events) rv = do {
     kv \<leftarrow> KV event;
     if ModRevision kv \<le> rv then logstructured_filter events rv else Some (event # events)
   }"

fun filter_batches :: "Event list list \<Rightarrow> int64 \<Rightarrow> Event list list option" where
  "filter_batches [] rv = Some []"
| "filter_batches (i # batches) rv = do {
     events \<leftarrow> logstructured_filter i rv;
     rest \<leftarrow> filter_batches batches rv;
     Some (events # rest)
   }"

text \<open>
  The channel of the log is opened before the first answer is read; \<open>readChan\<close> is what it
  delivers until it is closed. The result is what \<open>Watch\<close> sends on its own channel.
\<close>

definition LogStructured_Watch :: "'w Log \<Rightarrow> string \<Rightarrow> int64 \<Rightarrow> ('w, Event list list) go" where
  "LogStructured_Watch L pre revision w = do {
     (readChan, w) \<leftarrow> log_Watch L pre w;
     let revision = (if revision > 0 then i64 (revision - 1) else revision);
     ((rv, kvs, err), w) \<leftarrow> log_After L pre revision 0 w;
     let lastRevision = (if length kvs > 0 then rv else revision);
     rest \<leftarrow> filter_batches readChan lastRevision;
     Some ((if length kvs > 0 then kvs # rest else rest), w)
   }"

definition LogStructured_DbSize :: "'w Log \<Rightarrow> ('w, int64 \<times> go_error option) go" where
  "LogStructured_DbSize L w = log_DbSize L w"

definition logstructured_backend :: "'w Log \<Rightarrow> 'w Backend" where
  "logstructured_backend L =
     \<lparr>b_Start = LogStructured_Start L, b_Get = LogStructured_Get L,
      b_Create = LogStructured_Create L, b_Delete = LogStructured_Delete L,
      b_List = LogStructured_List L, b_Count = LogStructured_Count L,
      b_Update = LogStructured_Update L, b_Watch = LogStructured_Watch L,
      b_DbSize = LogStructured_DbSize L\<rparr>"

lemma logstructured_backend_simps [simp]:
  "b_Start (logstructured_backend L) = LogStructured_Start L"
  "b_Get (logstructured_backend L) = LogStructured_Get L"
  "b_Create (logstructured_backend L) = LogStructured_Create L"
  "b_Delete (logstructured_backend L) = LogStructured_Delete L"
  "b_List (logstructured_backend L) = LogStructured_List L"
  "b_Count (logstructured_backend L) = LogStructured_Count L"
  "b_Update (logstructured_backend L) = LogStructured_Update L"
  "b_Watch (logstructured_backend L) = LogStructured_Watch L"
  "b_DbSize (logstructured_backend L) = LogStructured_DbSize L"
  by (simp_all add: logstructured_backend_def)


section \<open>Facts about listing\<close>

text \<open>
  A listing at a revision is one call of the log; a listing at revision 0 that finds nothing is
  repeated at the current revision.
\<close>

lemma List_at_revision:
  assumes "revision \<noteq> 0" "log_List L pre key limit revision False w = Some ((rv, events, err), w1)"
  shows "LogStructured_List L pre key limit revision w =
    Some ((if err \<noteq> None then (0, [], err) else (revision, map KV events, None)), w1)"
  using assms by (subst LogStructured_List.simps) auto

lemma List_now:
  assumes "log_List L pre key limit 0 False w = Some ((rv, events, None), w1)" "events \<noteq> []"
  shows "LogStructured_List L pre key limit 0 w = Some ((rv, map KV events, None), w1)"
  using assms by (subst LogStructured_List.simps) auto

lemma List_again:
  assumes "log_List L pre key limit 0 False w = Some ((rv, [], None), w1)"
    and "log_CurrentRevision L w1 = Some ((currentRev, None), w2)"
  shows "LogStructured_List L pre key limit 0 w = LogStructured_List L pre key limit currentRev w2"
  using assms by (subst LogStructured_List.simps) auto

text \<open>
  States that the loop does not leave: listing finds nothing and the current revision is 0. No
  call from such a state returns.
\<close>

lemma List_diverges:
  assumes stuck: "stuck w"
    and list: "\<And>w. stuck w \<Longrightarrow> \<exists>rv w'. log_List L pre key limit 0 False w = Some ((rv, [], None), w') \<and> stuck w'"
    and cur: "\<And>w. stuck w \<Longrightarrow> \<exists>w'. log_CurrentRevision L w = Some ((0, None), w') \<and> stuck w'"
  shows "LogStructured_List L pre key limit 0 w = None"
proof -
  have never: "LogStructured_List L' pre' key' limit' rv w = Some y \<Longrightarrow>
      (L', pre', key', limit', rv) = (L, pre, key, limit, 0) \<longrightarrow> \<not> stuck w"
    for L' pre' key' limit' rv w y
  proof (erule LogStructured_List.raw_induct [rotated], intro impI notI)
    fix again L' pre' key' limit' rv w y
    assume IH: "\<And>L' pre' key' limit' rv w y. again L' pre' key' limit' rv w = Some y \<Longrightarrow>
        (L', pre', key', limit', rv) = (L, pre, key, limit, 0) \<longrightarrow> \<not> stuck w"
      and body: "(do {
         ((r, events, err), w) \<leftarrow> log_List L' pre' key' limit' rv False w;
         if err \<noteq> None then Some ((0, [], err), w)
         else if rv = 0 \<and> length events = 0 then do {
           ((currentRev, err), w) \<leftarrow> log_CurrentRevision L' w;
           if err \<noteq> None then Some ((0, [], err), w)
           else again L' pre' key' limit' currentRev w
         }
         else Some ((if rv \<noteq> 0 then rv else r, map KV events, None), w)
       }) = Some y"
      and eq: "(L', pre', key', limit', rv) = (L, pre, key, limit, 0)" and w: "stuck w"
    obtain r w1 where l: "log_List L pre key limit 0 False w = Some ((r, [], None), w1)" and w1: "stuck w1"
      using list [OF w] by blast
    obtain w2 where c: "log_CurrentRevision L w1 = Some ((0, None), w2)" and w2: "stuck w2"
      using cur [OF w1] by blast
    from body eq l c have "again L pre key limit 0 w2 = Some y" by simp
    from IH [OF this] w2 show False by simp
  qed
  show ?thesis
  proof (rule ccontr)
    assume "LogStructured_List L pre key limit 0 w \<noteq> None"
    then show False using never stuck by blast
  qed
qed

section \<open>Facts about watches\<close>

lemma logstructured_filter_drop:
  "\<forall>e \<in> set events. KV e \<noteq> None \<Longrightarrow>
     logstructured_filter events rv = Some (dropWhile (\<lambda>e. ModRevision (the (KV e)) \<le> rv) events)"
  by (induction events) auto

lemma filter_batches_concat:
  assumes "\<forall>e \<in> set (concat batches). KV e \<noteq> None"
    and "sorted (map (\<lambda>e. ModRevision (the (KV e))) (concat batches))"
  shows "\<exists>out. filter_batches batches rv = Some out \<and> length out = length batches \<and>
     concat out = filter (\<lambda>e. rv < ModRevision (the (KV e))) (concat batches)"
  using assms
proof (induction batches)
  case (Cons i batches)
  then obtain out where out: "filter_batches batches rv = Some out" "length out = length batches"
      "concat out = filter (\<lambda>e. rv < ModRevision (the (KV e))) (concat batches)"
    by (auto simp: sorted_append)
  have "logstructured_filter i rv = Some (filter (\<lambda>e. rv < ModRevision (the (KV e))) i)"
    using Cons.prems
    by (simp add: logstructured_filter_drop sorted_append
        dropWhile_sorted_filter [where f = "\<lambda>e. ModRevision (the (KV e))"])
  with out show ?case by simp
qed simp

lemma leased_filter:
  "\<forall>e \<in> set events. KV e \<noteq> None \<Longrightarrow>
     leased events = Some (filter (\<lambda>e. 0 < Lease (the (KV e))) events)"
  by (induction events) auto


lemma ttlEvents_watch_filter:
  "\<forall>e \<in> set (concat batches). KV e \<noteq> None \<Longrightarrow>
     ttlEvents_watch batches = Some (filter (\<lambda>e. 0 < Lease (the (KV e))) (concat batches))"
  by (induction batches) (auto simp: leased_filter)

section \<open>Properties\<close>

text \<open>
  A watch from a revision first delivers the events that the log holds after it, in one batch,
  and then of every batch of the log's channel the events that this batch has not covered: those
  above the revision of the first answer, or above the start when the first answer is empty.
\<close>

lemma watch_events:
  assumes watch: "log_Watch L pre w = Some (feed, w1)"
    and aft: "log_After L pre (if 0 < revision then i64 (revision - 1) else revision) 0 w1 =
      Some ((rv, kvs, err), w2)"
    and feed: "\<forall>e \<in> set (concat feed). KV e \<noteq> None"
      "sorted (map (\<lambda>e. ModRevision (the (KV e))) (concat feed))"
  shows "\<exists>out. LogStructured_Watch L pre revision w = Some (out, w2) \<and>
     concat out = kvs @ filter (\<lambda>e.
       (if kvs \<noteq> [] then rv else if 0 < revision then i64 (revision - 1) else revision)
         < ModRevision (the (KV e))) (concat feed)"
proof -
  let ?rv = "if kvs \<noteq> [] then rv else if 0 < revision then i64 (revision - 1) else revision"
  obtain out where "filter_batches feed ?rv = Some out"
    "concat out = filter (\<lambda>e. ?rv < ModRevision (the (KV e))) (concat feed)"
    using filter_batches_concat [OF feed] by blast
  then show ?thesis
    using watch aft
    by (intro exI [of _ "if kvs \<noteq> [] then kvs # out else out"])
       (auto simp: LogStructured_Watch_def Let_def split: if_splits)
qed

text \<open>An event that updates a key, and a log that holds one and delivers two.\<close>

definition plain_event :: "string \<Rightarrow> int64 \<Rightarrow> int64 \<Rightarrow> Event" where
  "plain_event key rv lease =
     \<lparr>Delete = False, Create = False,
      KV = Some \<lparr>Key = key, CreateRevision = 1, ModRevision = rv, Value = ''v'', Lease = lease\<rparr>,
      PrevKV = None\<rparr>"

definition fixed_log :: "Event list \<Rightarrow> Event list list \<Rightarrow> int64 \<Rightarrow> unit Log" where
  "fixed_log events feed current =
     \<lparr>log_Start = (\<lambda>w. Some (None, w)), log_CurrentRevision = (\<lambda>w. Some ((current, None), w)),
      log_List = (\<lambda>pre start limit rv del w. Some ((current, events, None), w)),
      log_After = (\<lambda>pre rv limit w. Some ((current, events, None), w)),
      log_Watch = (\<lambda>pre w. Some (feed, w)), log_Count = (\<lambda>pre w. Some ((current, int (length events), None), w)),
      log_Append = (\<lambda>e w. Some ((current + 1, None), w)), log_DbSize = (\<lambda>w. Some ((0, None), w))\<rparr>"

text \<open>
  C27: when the current revision is 0 as well, a listing that finds nothing calls itself again and
  again: it does not return, as long as the log does not change.
\<close>

theorem list_empty_log_diverges:
  assumes "\<And>w. stuck w \<Longrightarrow> \<exists>rv w'. log_List L pre key limit 0 False w = Some ((rv, [], None), w') \<and> stuck w'"
    and "\<And>w. stuck w \<Longrightarrow> \<exists>w'. log_CurrentRevision L w = Some ((0, None), w') \<and> stuck w'"
    and "stuck w"
  shows "LogStructured_List L pre key limit 0 w = None"
  using assms by (intro List_diverges [of stuck])

theorem list_empty_log_diverges_witness:
  "LogStructured_List (fixed_log [] [] 0) ''/a/'' ''/a/'' 10 0 () = None"
  by (rule list_empty_log_diverges [where stuck = "\<lambda>_. True"]) (simp_all add: fixed_log_def)

end
