(* ===== verification/KeyLog.thy ===== *)
theory KeyLog
  imports LogStructured
begin

text \<open>
  The contract between \<open>LogStructured\<close> and the log under it, for the operations on one key: what
  a log promises about listing a key, appending an event and its current revision. The
  operations of \<open>logstructured.go\<close> are proved inside the contract, once for every log that
  keeps it; the contract of a \<open>Backend\<close> follows from it.
\<close>

section \<open>Vocabulary\<close>

text \<open>A call that may move the bookkeeping of the log but leaves its content.\<close>

definition undisturbed ::
  "('w \<Rightarrow> bool) \<Rightarrow> ('w \<Rightarrow> string \<Rightarrow> Event list) \<Rightarrow> ('w \<Rightarrow> int64) \<Rightarrow> ('w \<Rightarrow> bool) \<Rightarrow> 'w \<Rightarrow> 'w \<Rightarrow> bool" where
  "undisturbed good versions cur room w w' \<longleftrightarrow>
     good w' \<and> versions w' = versions w \<and> cur w' = cur w \<and> room w' = room w"

lemma undisturbed_trans:
  "undisturbed good versions cur room w w1 \<Longrightarrow> undisturbed good versions cur room w1 w2 \<Longrightarrow>
     undisturbed good versions cur room w w2"
  by (simp add: undisturbed_def)

text \<open>The event of a row, as the log reads it back: the row's identifier is its revision.\<close>

definition the_kv :: "KeyValue option \<Rightarrow> KeyValue" where
  "the_kv kv = (case kv of None \<Rightarrow> KeyValue_zero | Some kv \<Rightarrow> kv)"

lemma the_kv_simps [simp]: "the_kv None = KeyValue_zero" "the_kv (Some kv) = kv"
  by (simp_all add: the_kv_def)

definition stored :: "int64 \<Rightarrow> Event \<Rightarrow> Event" where
  "stored rv e =
     \<lparr>Delete = Delete e, Create = Create e,
      KV = Some ((the_kv (KV e))\<lparr>CreateRevision :=
             (if Create e then rv else CreateRevision (the_kv (KV e))), ModRevision := rv\<rparr>),
      PrevKV =
        (if Create e then None
         else Some (KeyValue_zero\<lparr>ModRevision := ModRevision (the_kv (PrevKV e)),
                                  Value := Value (the_kv (PrevKV e))\<rparr>))\<rparr>"

text \<open>The revisions and the lease of an event fit the 32-bit columns of a row.\<close>

definition fits32 :: "int \<Rightarrow> bool" where
  "fits32 x \<longleftrightarrow> - (2 ^ 31) \<le> x \<and> x < 2 ^ 31"

definition storable :: "Event \<Rightarrow> bool" where
  "storable e \<longleftrightarrow>
     (case KV e of None \<Rightarrow> False
      | Some kv \<Rightarrow> fits32 (CreateRevision kv) \<and> fits32 (Lease kv)) \<and>
     fits32 (ModRevision (the_kv (PrevKV e)))"

text \<open>The answer of a listing of one key, whatever its limit.\<close>

definition latest :: "Event list \<Rightarrow> Event list" where
  "latest es = (if es = [] then [] else [last es])"

section \<open>The contract\<close>

locale key_log =
  fixes L :: "'w Log"
    and good :: "'w \<Rightarrow> bool"
    and versions :: "'w \<Rightarrow> string \<Rightarrow> Event list"
    and cur :: "'w \<Rightarrow> int64"
    and room :: "'w \<Rightarrow> bool"
    and key_ok :: "string \<Rightarrow> bool"
  assumes list_key:
    "good w \<Longrightarrow> key_ok k \<Longrightarrow> del \<or> (\<forall>e \<in> set (versions w k). \<not> Delete e) \<Longrightarrow>
       \<exists>w'. log_List L k [] limit 0 del w =
              Some ((if versions w k = [] then 0 else cur w, latest (versions w k), None), w') \<and>
            undisturbed good versions cur room w w'"
    and append:
    "good w \<Longrightarrow> room w \<Longrightarrow> KV e = Some kv \<Longrightarrow> key_ok (Key kv) \<Longrightarrow> storable e \<Longrightarrow>
       \<exists>w'. log_Append L e w = Some ((cur w + 1, None), w') \<and> good w' \<and> cur w' = cur w + 1 \<and>
            versions w' =
              (versions w)(Key kv := versions w (Key kv) @ [stored (cur w + 1) e])"
    and current:
    "good w \<Longrightarrow> \<exists>w'. log_CurrentRevision L w = Some ((cur w, None), w') \<and>
       undisturbed good versions cur room w w'"
    and cur_nonneg: "good w \<Longrightarrow> 0 \<le> cur w"
    and cur_fits: "good w \<Longrightarrow> fits32 (cur w)"
    and version_kv:
    "good w \<Longrightarrow> e \<in> set (versions w k) \<Longrightarrow>
       \<exists>kv. KV e = Some kv \<and> Key kv = k \<and> 0 < ModRevision kv \<and> ModRevision kv \<le> cur w \<and>
            fits32 (CreateRevision kv) \<and> fits32 (ModRevision kv) \<and> fits32 (Lease kv)"
begin

abbreviation same :: "'w \<Rightarrow> 'w \<Rightarrow> bool" where
  "same \<equiv> undisturbed good versions cur room"

lemma get_all:
  assumes "good w" "key_ok k"
  shows "\<exists>w'. LogStructured_get L k [] 1 0 True w =
     Some ((if versions w k = [] then 0 else cur w,
            if versions w k = [] then None else Some (last (versions w k)), None), w') \<and> same w w'"
  using list_key [OF assms, of True 1]
  by (auto simp: LogStructured_get_def latest_def)

lemma get_live:
  assumes "good w" "key_ok k" "\<forall>e \<in> set (versions w k). \<not> Delete e"
  shows "\<exists>w'. LogStructured_get L k [] limit 0 False w =
     Some ((if versions w k = [] then 0 else cur w,
            if versions w k = [] then None else Some (last (versions w k)), None), w') \<and> same w w'"
  using list_key [OF assms(1,2), of False limit] assms(3)
  by (auto simp: LogStructured_get_def latest_def)

lemma adjust: "same w w1 \<Longrightarrow> rv = 0 \<or> rv = cur w \<Longrightarrow>
    \<exists>w2. adjustRevision L rv w1 = Some (cur w, w2) \<and> same w w2"
  using current [of w1] by (auto simp: adjustRevision_def undisturbed_def)

text \<open>\<open>Create\<close>: a key that is absent or deleted gets a new first version.\<close>

definition created :: "'w \<Rightarrow> string \<Rightarrow> bytes \<Rightarrow> int64 \<Rightarrow> Event" where
  "created w k val lease =
     stored (cur w + 1) (create_event k val lease
       (Some (if versions w k = [] then KeyValue_zero else the_kv (KV (last (versions w k))))))"

lemma Create_ok:
  assumes w: "good w" "room w" "key_ok k" "fits32 lease"
    and gone: "versions w k = [] \<or> Delete (last (versions w k))"
  shows "\<exists>w'. LogStructured_Create L k val lease w = Some ((cur w + 1, None), w') \<and> good w' \<and>
     cur w' = cur w + 1 \<and>
     versions w' = (versions w)(k := versions w k @ [created w k val lease])"
proof -
  obtain w1 where g: "LogStructured_get L k [] 1 0 True w =
       Some ((if versions w k = [] then 0 else cur w,
              if versions w k = [] then None else Some (last (versions w k)), None), w1)"
    and s: "same w w1" using get_all w by blast
  let ?prev = "if versions w k = [] then KeyValue_zero else the_kv (KV (last (versions w k)))"
  let ?e = "create_event k val lease (Some ?prev)"
  have kv: "KV ?e = Some \<lparr>Key = k, CreateRevision = 0, ModRevision = 0, Value = val, Lease = lease\<rparr>"
    by (simp add: create_event_def)
  have prev: "fits32 (ModRevision ?prev)"
    using version_kv [OF w(1), of "last (versions w k)" k] by (auto simp: fits32_def)
  then have st: "storable ?e" using w by (simp add: storable_def create_event_def fits32_def)
  have w1: "good w1" "room w1" "versions w1 = versions w" "cur w1 = cur w"
    using s w by (auto simp: undisturbed_def)
  obtain w2 where a: "log_Append L ?e w1 = Some ((cur w + 1, None), w2)" "good w2"
      "cur w2 = cur w + 1" "versions w2 = (versions w)(k := versions w k @ [stored (cur w + 1) ?e])"
    using append [OF w1(1,2) kv _ st] w w1 by auto
  have "LogStructured_Create_body L k val lease w = log_Append L ?e w1"
  proof (cases "versions w k = []")
    case True
    with g show ?thesis
      by (simp add: LogStructured_Create_body_def KeyValue_zero_def)
  next
    case False
    then obtain kv where "KV (last (versions w k)) = Some kv"
      using version_kv [OF w(1), of "last (versions w k)" k] by auto
    with False g gone show ?thesis by (simp add: LogStructured_Create_body_def)
  qed
  moreover have "cur w + 1 \<noteq> 0" using cur_nonneg [OF w(1)] by simp
  ultimately show ?thesis
    using a by (simp add: LogStructured_Create_def adjustRevision_def created_def)
qed

text \<open>A live key is refused, and nothing is written.\<close>

lemma Create_exists:
  assumes w: "good w" "key_ok k" and live: "versions w k \<noteq> []" "\<not> Delete (last (versions w k))"
  shows "\<exists>w'. LogStructured_Create L k val lease w = Some ((cur w, Some ErrKeyExists), w') \<and>
     same w w'"
proof -
  obtain w1 where g: "LogStructured_get L k [] 1 0 True w =
       Some ((cur w, Some (last (versions w k)), None), w1)" and s: "same w w1"
    using get_all [OF w] live by auto
  obtain w2 where "adjustRevision L 0 w1 = Some (cur w, w2)" "same w w2"
    using adjust [OF s, of 0] by (auto split: if_splits)
  with g live s show ?thesis
    by (auto simp: LogStructured_Create_def LogStructured_Create_body_def)
qed

text \<open>\<open>Get\<close>: the newest version of a key that was never deleted.\<close>

lemma Get_live:
  assumes w: "good w" "key_ok k" "\<forall>e \<in> set (versions w k). \<not> Delete e"
  shows "\<exists>w'. LogStructured_Get L k [] limit 0 w =
     Some ((cur w, if versions w k = [] then None else KV (last (versions w k)), None), w') \<and> same w w'"
proof -
  obtain w1 where g: "LogStructured_get L k [] limit 0 False w =
     Some ((if versions w k = [] then 0 else cur w,
            if versions w k = [] then None else Some (last (versions w k)), None), w1)"
    and s: "same w w1" using get_live [OF w] by blast
  have "(if versions w k = [] then 0 else cur w) = 0 \<or> (if versions w k = [] then 0 else cur w) = cur w"
    by simp
  from adjust [OF s this] obtain w2 where
    "adjustRevision L (if versions w k = [] then 0 else cur w) w1 = Some (cur w, w2)" "same w w2"
    by blast
  with g s show ?thesis
    by (auto simp: LogStructured_Get_def)
qed

text \<open>\<open>Delete\<close> of a live key at its revision, or at any revision, writes a deletion.\<close>

lemma Delete_ok:
  assumes w: "good w" "room w" "key_ok k"
    and live: "versions w k \<noteq> []" "\<not> Delete (last (versions w k))"
    and rev: "rv = 0 \<or> rv = ModRevision (the_kv (KV (last (versions w k))))"
  shows "\<exists>w'. LogStructured_Delete L k rv w =
       Some ((cur w + 1, KV (last (versions w k)), True, None), w') \<and> good w' \<and>
     cur w' = cur w + 1 \<and>
     versions w' = (versions w)(k := versions w k @
       [stored (cur w + 1) (delete_event (last (versions w k)))])"
proof -
  let ?l = "last (versions w k)"
  obtain w1 where g: "LogStructured_get L k [] 1 0 True w = Some ((cur w, Some ?l, None), w1)"
    and s: "same w w1" using get_all [OF w(1,3)] live by auto
  obtain kv where kv: "KV ?l = Some kv" "Key kv = k" "fits32 (CreateRevision kv)"
      "fits32 (ModRevision kv)" "fits32 (Lease kv)"
    using version_kv [OF w(1), of ?l k] live by auto
  have st: "storable (delete_event ?l)" "KV (delete_event ?l) = Some kv"
    using kv by (simp_all add: storable_def delete_event_def)
  have w1: "good w1" "room w1" "versions w1 = versions w" "cur w1 = cur w"
    using s w by (auto simp: undisturbed_def)
  obtain w2 where a: "log_Append L (delete_event ?l) w1 = Some ((cur w + 1, None), w2)" "good w2"
      "cur w2 = cur w + 1"
      "versions w2 = (versions w)(k := versions w k @ [stored (cur w + 1) (delete_event ?l)])"
    using append [OF w1(1,2) st(2) _ st(1)] kv w w1 by auto
  have "cur w + 1 \<noteq> 0" using cur_nonneg [OF w(1)] by simp
  then show ?thesis
    using g a live rev kv
    by (auto simp: LogStructured_Delete_def LogStructured_Delete_body_def adjustRevision_def)
qed

text \<open>A stale revision deletes nothing and answers with the current version.\<close>

lemma Delete_stale:
  assumes w: "good w" "key_ok k"
    and live: "versions w k \<noteq> []" "\<not> Delete (last (versions w k))"
    and rev: "rv \<noteq> 0" "rv \<noteq> ModRevision (the_kv (KV (last (versions w k))))"
  shows "\<exists>w'. LogStructured_Delete L k rv w =
     Some ((cur w, KV (last (versions w k)), False, None), w') \<and> same w w'"
proof -
  let ?l = "last (versions w k)"
  obtain w1 where g: "LogStructured_get L k [] 1 0 True w = Some ((cur w, Some ?l, None), w1)"
    and s: "same w w1" using get_all [OF w] live by auto
  obtain kv where kv: "KV ?l = Some kv" using version_kv [OF w(1), of ?l k] live by auto
  obtain w2 where "adjustRevision L (cur w) w1 = Some (cur w, w2)" "same w w2"
    using adjust [OF s, of "cur w"] by (auto split: if_splits)
  with g live rev kv s show ?thesis
    by (auto simp: LogStructured_Delete_def LogStructured_Delete_body_def)
qed

text \<open>A key that is absent or deleted counts as deleted already.\<close>

lemma Delete_gone:
  assumes w: "good w" "key_ok k" and gone: "versions w k = [] \<or> Delete (last (versions w k))"
  shows "\<exists>w'. LogStructured_Delete L k rv w =
     Some ((cur w, if versions w k = [] then None else KV (last (versions w k)), True, None), w') \<and>
     same w w'"
proof -
  let ?r = "if versions w k = [] then 0 else cur w"
  obtain w1 where g: "LogStructured_get L k [] 1 0 True w =
       Some ((?r, if versions w k = [] then None else Some (last (versions w k)), None), w1)"
    and s: "same w w1" using get_all [OF w] by blast
  have "?r = 0 \<or> ?r = cur w" by simp
  from adjust [OF s this] obtain w2 where "adjustRevision L ?r w1 = Some (cur w, w2)" "same w w2"
    by blast
  with g gone s show ?thesis
    by (auto simp: LogStructured_Delete_def LogStructured_Delete_body_def)
qed

text \<open>\<open>Update\<close> of a key at its revision keeps the create revision; nothing is written otherwise.\<close>

lemma Update_ok:
  assumes w: "good w" "room w" "key_ok k" "\<forall>e \<in> set (versions w k). \<not> Delete e" "fits32 lease"
    and live: "versions w k \<noteq> []" and prev: "KV (last (versions w k)) = Some prev"
    and rev: "rv = ModRevision prev"
  shows "\<exists>w'. LogStructured_Update L k val rv lease w =
       Some ((cur w + 1,
              Some \<lparr>Key = k, CreateRevision = CreateRevision prev, ModRevision = cur w + 1,
                    Value = val, Lease = lease\<rparr>, True, None), w') \<and> good w' \<and>
     cur w' = cur w + 1 \<and>
     versions w' = (versions w)(k := versions w k @
       [stored (cur w + 1) (update_event k val lease prev)])"
proof -
  let ?l = "last (versions w k)" and ?e = "update_event k val lease prev"
  obtain w1 where g: "LogStructured_get L k [] 1 0 False w = Some ((cur w, Some ?l, None), w1)"
    and s: "same w w1" using get_live [OF w(1,3,4)] live by auto
  have fits: "fits32 (CreateRevision prev)" "fits32 (ModRevision prev)"
    using version_kv [OF w(1), of ?l k] live prev by auto
  have kv: "KV ?e = Some \<lparr>Key = k, CreateRevision = CreateRevision prev, ModRevision = 0,
      Value = val, Lease = lease\<rparr>" by (simp add: update_event_def)
  have st: "storable ?e" using fits w by (simp add: storable_def update_event_def)
  have w1: "good w1" "room w1" "versions w1 = versions w" "cur w1 = cur w"
    using s w by (auto simp: undisturbed_def)
  obtain w2 where a: "log_Append L ?e w1 = Some ((cur w + 1, None), w2)" "good w2"
      "cur w2 = cur w + 1" "versions w2 = (versions w)(k := versions w k @ [stored (cur w + 1) ?e])"
    using append [OF w1(1,2) kv _ st] w w1 by auto
  have "cur w + 1 \<noteq> 0" using cur_nonneg [OF w(1)] by simp
  then show ?thesis
    using g a prev rev kv
    by (auto simp: LogStructured_Update_def LogStructured_Update_body_def adjustRevision_def)
qed

lemma Update_stale:
  assumes w: "good w" "key_ok k" "\<forall>e \<in> set (versions w k). \<not> Delete e"
    and live: "versions w k \<noteq> []" and rev: "rv \<noteq> ModRevision (the_kv (KV (last (versions w k))))"
  shows "\<exists>w'. LogStructured_Update L k val rv lease w =
     Some ((cur w, KV (last (versions w k)), False, None), w') \<and> same w w'"
proof -
  let ?l = "last (versions w k)"
  obtain w1 where g: "LogStructured_get L k [] 1 0 False w = Some ((cur w, Some ?l, None), w1)"
    and s: "same w w1" using get_live [OF w] live by auto
  obtain kv where kv: "KV ?l = Some kv" using version_kv [OF w(1), of ?l k] live by auto
  obtain w2 where "adjustRevision L (cur w) w1 = Some (cur w, w2)" "same w w2"
    using adjust [OF s, of "cur w"] by (auto split: if_splits)
  with g live rev kv s show ?thesis
    by (auto simp: LogStructured_Update_def LogStructured_Update_body_def)
qed

lemma Update_absent:
  assumes w: "good w" "key_ok k" and gone: "versions w k = []"
  shows "\<exists>w'. LogStructured_Update L k val rv lease w = Some ((cur w, None, False, None), w') \<and>
     same w w'"
proof -
  obtain w1 where g: "LogStructured_get L k [] 1 0 False w = Some ((0, None, None), w1)"
    and s: "same w w1" using get_live [OF w] gone by auto
  obtain w2 where "adjustRevision L 0 w1 = Some (cur w, w2)" "same w w2"
    using adjust [OF s, of 0] by (auto split: if_splits)
  with g s show ?thesis
    by (auto simp: LogStructured_Update_def LogStructured_Update_body_def)
qed

end

end
