(* ===== verification/Etcd.thy ===== *)
theory Etcd
  imports Interfaces
begin

text \<open>
  The messages of the etcd API that Kine's server reads and answers. They are data only: the
  fields that the code under \<open>pkg/server\<close> uses, of the messages of \<open>etcdserverpb\<close> and
  \<open>mvccpb\<close>. A oneof field is a datatype with a constructor for the unset case, and a getter of
  a oneof member returns nil (\<open>None\<close>, 0) when another member is set.
\<close>

section \<open>Requests\<close>

record RangeRequest =
  rr_Key :: bytes
  RangeEnd :: bytes
  rr_Limit :: int64
  Revision :: int64
  SortOrder :: int32
  SortTarget :: int32
  Serializable :: bool
  KeysOnly :: bool
  CountOnly :: bool
  MinModRevision :: int64
  MaxModRevision :: int64
  MinCreateRevision :: int64
  MaxCreateRevision :: int64

record PutRequest =
  put_Key :: bytes
  put_Value :: bytes
  put_Lease :: int64
  PrevKvFlag :: bool
  IgnoreValue :: bool
  IgnoreLease :: bool

record DeleteRangeRequest =
  dr_Key :: bytes
  dr_RangeEnd :: bytes

datatype CompareResult = EQUAL | GREATER | LESS | NOT_EQUAL
datatype CompareTarget = VERSION | CREATE | MOD | VALUE | LEASE

datatype TargetUnion =
    Target_Version int
  | Target_CreateRevision int
  | Target_ModRevision int
  | Target_Value bytes
  | Target_Lease int
  | Target_unset

record Compare =
  Result :: CompareResult
  Target :: CompareTarget
  cmp_Key :: bytes
  TargetUnion :: TargetUnion

definition GetModRevision :: "Compare \<Rightarrow> int64" where
  "GetModRevision c = (case TargetUnion c of Target_ModRevision r \<Rightarrow> r | _ \<Rightarrow> 0)"

text \<open>A nested transaction is a member of the oneof too; nothing reads what it holds.\<close>

datatype RequestOp =
    Request_Range RangeRequest
  | Request_Put PutRequest
  | Request_DeleteRange DeleteRangeRequest
  | Request_Txn
  | Request_unset

record TxnRequest =
  txn_Compare :: "Compare list"
  txn_Success :: "RequestOp list"
  txn_Failure :: "RequestOp list"

fun GetRequestRange :: "RequestOp \<Rightarrow> RangeRequest option" where
  "GetRequestRange (Request_Range r) = Some r"
| "GetRequestRange _ = None"

fun GetRequestPut :: "RequestOp \<Rightarrow> PutRequest option" where
  "GetRequestPut (Request_Put r) = Some r"
| "GetRequestPut _ = None"

fun GetRequestDeleteRange :: "RequestOp \<Rightarrow> DeleteRangeRequest option" where
  "GetRequestDeleteRange (Request_DeleteRange r) = Some r"
| "GetRequestDeleteRange _ = None"

lemma GetRequest_disjoint:
  "GetRequestPut o1 \<noteq> None \<Longrightarrow> GetRequestRange o1 = None \<and> GetRequestDeleteRange o1 = None"
  "GetRequestRange o1 \<noteq> None \<Longrightarrow> GetRequestPut o1 = None \<and> GetRequestDeleteRange o1 = None"
  "GetRequestDeleteRange o1 \<noteq> None \<Longrightarrow> GetRequestPut o1 = None \<and> GetRequestRange o1 = None"
  by (cases o1; simp)+

section \<open>Responses\<close>

record ResponseHeader =
  hdr_Revision :: int64

text \<open>\<open>mvccpb.KeyValue\<close>\<close>

record mvcc_KeyValue =
  mv_Key :: bytes
  mv_CreateRevision :: int64
  mv_ModRevision :: int64
  mv_Version :: int64
  mv_Value :: bytes
  mv_Lease :: int64

definition mvcc_zero :: mvcc_KeyValue where
  "mvcc_zero = \<lparr>mv_Key = [], mv_CreateRevision = 0, mv_ModRevision = 0, mv_Version = 0,
                mv_Value = [], mv_Lease = 0\<rparr>"

record PbRangeResponse =
  pr_Header :: ResponseHeader
  pr_Kvs :: "mvcc_KeyValue list"
  pr_More :: bool
  pr_Count :: int64

record PutResponse =
  put_Header :: ResponseHeader

record DeleteRangeResponse =
  del_Header :: ResponseHeader
  PrevKvs :: "mvcc_KeyValue list"

datatype ResponseOp =
    ResponseRange PbRangeResponse
  | ResponsePut PutResponse
  | ResponseDeleteRange DeleteRangeResponse

record TxnResponse =
  txn_Header :: ResponseHeader
  Succeeded :: bool
  Responses :: "ResponseOp list"

datatype EventType = PUT | DELETE

record mvcc_Event =
  ev_Type :: EventType
  ev_Kv :: "mvcc_KeyValue option"
  ev_PrevKv :: "mvcc_KeyValue option"

end
