(* ===== verification/Server.thy ===== *)
theory Server
  imports Etcd
begin

text \<open>
  The etcd server: \<open>pkg/server\<close>. \<open>LimitedServer\<close> maps the few request shapes that Kubernetes
  sends to operations of a \<open>Backend\<close>; \<open>KVServerBridge\<close> is the gRPC service on top of it. The
  functions take the backend as a record of its operations. The result of a handler that returns
  a response or an error is a sum.
\<close>

section \<open>Shared helpers (limited.go, kv.go)\<close>

definition txnHeader :: "int64 \<Rightarrow> ResponseHeader" where
  "txnHeader rv = \<lparr>hdr_Revision = rv\<rparr>"

definition unsupported :: "string \<Rightarrow> go_error" where
  "unsupported field = Errorf (field @ '' is unsupported'')"

definition toKV :: "KeyValue option \<Rightarrow> mvcc_KeyValue option" where
  "toKV kv = (case kv of
     None \<Rightarrow> None
   | Some kv \<Rightarrow> Some \<lparr>mv_Key = Key kv, mv_CreateRevision = CreateRevision kv,
       mv_ModRevision = ModRevision kv, mv_Version = 0, mv_Value = Value kv, mv_Lease = Lease kv\<rparr>)"

text \<open>The variadic \<open>toKVs(kvs...)\<close>: nil when the first pointer is nil, else the non-nil ones.\<close>

definition toKVs :: "KeyValue option list \<Rightarrow> mvcc_KeyValue list" where
  "toKVs kvs = (if length kvs = 0 \<or> hd kvs = None then [] else List.map_filter toKV kvs)"

record RangeResponse =
  Header :: ResponseHeader
  Kvs :: "KeyValue option list"
  More :: bool
  Count :: int64

section \<open>Range (get.go, list.go)\<close>

definition limited_get ::
  "'w Backend \<Rightarrow> RangeRequest \<Rightarrow> ('w, go_error + RangeResponse) go" where
  "limited_get b r w =
     (if rr_Limit r \<noteq> 0 \<and> length (RangeEnd r) \<noteq> 0
      then Some (Inl (Errorf (''invalid combination of rangeEnd and limit, limit should be 0 got ''
             @ FormatInt (rr_Limit r))), w)
      else do {
        ((rv, kv, err), w) \<leftarrow> b_Get b (rr_Key r) (RangeEnd r) (rr_Limit r) (Revision r) w;
        case err of
          Some e \<Rightarrow> Some (Inl e, w)
        | None \<Rightarrow>
            Some (Inr \<lparr>Header = txnHeader rv, Kvs = (case kv of None \<Rightarrow> [] | Some x \<Rightarrow> [Some x]),
                        More = False, Count = 0\<rparr>, w)
      })"

text \<open>A byte less one, modulo 256.\<close>

definition byte_pred :: "char \<Rightarrow> char" where
  "byte_pred c = char_of ((of_char c + 255) mod 256 :: nat)"

text \<open>The prefix that a range end stands for: its last byte less one, with a slash at the end.\<close>

definition list_prefix :: "bytes \<Rightarrow> string" where
  "list_prefix rangeEnd =
     (let pre = butlast rangeEnd @ [byte_pred (last rangeEnd)]
      in if HasSuffix pre ''/'' then pre else pre @ ''/'')"

definition limited_list ::
  "'w Backend \<Rightarrow> RangeRequest \<Rightarrow> ('w, go_error + RangeResponse) go" where
  "limited_list b r w =
     (if length (RangeEnd r) = 0 then Some (Inl (Errorf ''invalid range end length of 0''), w)
      else do {
        let pre = list_prefix (RangeEnd r);
        let start = TrimRight (rr_Key r) [CHR 0x00];
        if CountOnly r then do {
          ((rv, count, err), w) \<leftarrow> b_Count b pre w;
          case err of
            Some e \<Rightarrow> Some (Inl e, w)
          | None \<Rightarrow> Some (Inr \<lparr>Header = txnHeader rv, Kvs = [], More = False, Count = count\<rparr>, w)
        }
        else do {
          let limit = (if rr_Limit r > 0 then i64 (rr_Limit r + 1) else rr_Limit r);
          ((rv, kvs, err), w) \<leftarrow> b_List b pre start limit (Revision r) w;
          case err of
            Some e \<Rightarrow> Some (Inl e, w)
          | None \<Rightarrow>
              (if limit > 0 \<and> int (length kvs) > rr_Limit r
               then Some (Inr \<lparr>Header = txnHeader rv, Kvs = take (nat (limit - 1)) kvs,
                               More = True, Count = int (length kvs)\<rparr>, w)
               else Some (Inr \<lparr>Header = txnHeader rv, Kvs = kvs,
                               More = False, Count = int (length kvs)\<rparr>, w))
        }
      })"

definition limited_Range ::
  "'w Backend \<Rightarrow> RangeRequest \<Rightarrow> ('w, go_error + RangeResponse) go" where
  "limited_Range b r w =
     (if length (RangeEnd r) = 0 then limited_get b r w else limited_list b r w)"

section \<open>Recognising transactions (create.go, delete.go, update.go, compact.go)\<close>

definition isCreate :: "TxnRequest \<Rightarrow> PutRequest option" where
  "isCreate txn =
     (case (txn_Compare txn, txn_Success txn, txn_Failure txn) of
        ([c], [o1], []) \<Rightarrow>
          (if Target c = MOD \<and> Result c = EQUAL \<and> GetModRevision c = 0 then GetRequestPut o1
           else None)
      | _ \<Rightarrow> None)"

definition isDelete :: "TxnRequest \<Rightarrow> (int64 \<times> string) option" where
  "isDelete txn =
     (case (txn_Compare txn, txn_Success txn, txn_Failure txn) of
        ([], [o1, o2], []) \<Rightarrow>
          (case (GetRequestRange o1, GetRequestDeleteRange o2) of
             (Some _, Some rng) \<Rightarrow> Some (0, dr_Key rng)
           | _ \<Rightarrow> None)
      | ([c], [o1], [f1]) \<Rightarrow>
          (if Target c = MOD \<and> Result c = EQUAL \<and> GetRequestRange f1 \<noteq> None
           then map_option (\<lambda>d. (GetModRevision c, dr_Key d)) (GetRequestDeleteRange o1)
           else None)
      | _ \<Rightarrow> None)"

definition isUpdate :: "TxnRequest \<Rightarrow> (int64 \<times> string \<times> bytes \<times> int64) option" where
  "isUpdate txn =
     (case (txn_Compare txn, txn_Success txn, txn_Failure txn) of
        ([c], [o1], [f1]) \<Rightarrow>
          (if Target c = MOD \<and> Result c = EQUAL \<and> GetRequestRange f1 \<noteq> None
           then map_option (\<lambda>p. (GetModRevision c, cmp_Key c, put_Value p, put_Lease p))
                  (GetRequestPut o1)
           else None)
      | _ \<Rightarrow> None)"

definition isCompact :: "TxnRequest \<Rightarrow> bool" where
  "isCompact txn =
     (case (txn_Compare txn, txn_Success txn, txn_Failure txn) of
        ([c], [o1], [f1]) \<Rightarrow>
          Target c = VERSION \<and> Result c = EQUAL \<and> GetRequestPut o1 \<noteq> None \<and>
          GetRequestRange f1 \<noteq> None \<and> cmp_Key c = ''compact_rev_key''
      | _ \<Rightarrow> False)"

section \<open>Running transactions\<close>

definition put_responses :: "int64 \<Rightarrow> ResponseOp list" where
  "put_responses rv = [ResponsePut \<lparr>put_Header = txnHeader rv\<rparr>]"

definition range_responses :: "int64 \<Rightarrow> KeyValue option \<Rightarrow> ResponseOp list" where
  "range_responses rv kv =
     [ResponseRange \<lparr>pr_Header = txnHeader rv, pr_Kvs = toKVs [kv], pr_More = False, pr_Count = 0\<rparr>]"

definition limited_create ::
  "'w Backend \<Rightarrow> PutRequest \<Rightarrow> ('w, go_error + TxnResponse) go" where
  "limited_create b put w =
     (if IgnoreLease put then Some (Inl (unsupported ''ignoreLease''), w)
      else if IgnoreValue put then Some (Inl (unsupported ''ignoreValue''), w)
      else if PrevKvFlag put then Some (Inl (unsupported ''prevKv''), w)
      else do {
        ((rv, err), w) \<leftarrow> b_Create b (put_Key put) (put_Value put) (put_Lease put) w;
        case err of
          Some e \<Rightarrow>
            (if e = ErrKeyExists
             then Some (Inr \<lparr>txn_Header = txnHeader rv, Succeeded = False, Responses = []\<rparr>, w)
             else Some (Inl e, w))
        | None \<Rightarrow>
            Some (Inr \<lparr>txn_Header = txnHeader rv, Succeeded = True, Responses = put_responses rv\<rparr>, w)
      })"

definition limited_delete ::
  "'w Backend \<Rightarrow> string \<Rightarrow> int64 \<Rightarrow> ('w, go_error + TxnResponse) go" where
  "limited_delete b key revision w = do {
     ((rv, kv, ok, err), w) \<leftarrow> b_Delete b key revision w;
     case err of
       Some e \<Rightarrow> Some (Inl e, w)
     | None \<Rightarrow>
         (if \<not> ok
          then Some (Inr \<lparr>txn_Header = txnHeader rv, Succeeded = False,
                          Responses = range_responses rv kv\<rparr>, w)
          else Some (Inr \<lparr>txn_Header = txnHeader rv, Succeeded = True,
                          Responses = [ResponseDeleteRange
                            \<lparr>del_Header = txnHeader rv, PrevKvs = toKVs [kv]\<rparr>]\<rparr>, w))
   }"

definition limited_update ::
  "'w Backend \<Rightarrow> int64 \<Rightarrow> string \<Rightarrow> bytes \<Rightarrow> int64 \<Rightarrow> ('w, go_error + TxnResponse) go" where
  "limited_update b revision key val lease w = do {
     ((rv, kv, ok, err), w) \<leftarrow>
       (if revision = 0 then do {
          ((rv, err), w) \<leftarrow> b_Create b key val lease w;
          Some ((rv, None, True, err), w)
        }
        else b_Update b key val revision lease w);
     case err of
       Some e \<Rightarrow> Some (Inl e, w)
     | None \<Rightarrow>
         Some (Inr \<lparr>txn_Header = txnHeader rv, Succeeded = ok,
                    Responses = (if ok then put_responses rv else range_responses rv kv)\<rparr>, w)
   }"

definition limited_compact :: "('w, go_error + TxnResponse) go" where
  "limited_compact w =
     Some (Inr \<lparr>txn_Header = \<lparr>hdr_Revision = 0\<rparr>, Succeeded = False,
                Responses = [ResponseRange \<lparr>pr_Header = \<lparr>hdr_Revision = 0\<rparr>, pr_Kvs = [mvcc_zero],
                                            pr_More = False, pr_Count = 1\<rparr>]\<rparr>, w)"

text \<open>The text of the last error also prints the request, which is left out.\<close>

definition limited_Txn ::
  "'w Backend \<Rightarrow> TxnRequest \<Rightarrow> ('w, go_error + TxnResponse) go" where
  "limited_Txn b txn w =
     (case isCreate txn of
        Some put \<Rightarrow> limited_create b put w
      | None \<Rightarrow>
          (case isDelete txn of
             Some (rv, key) \<Rightarrow> limited_delete b key rv w
           | None \<Rightarrow>
               (case isUpdate txn of
                  Some (rv, key, val, lease) \<Rightarrow> limited_update b rv key val lease w
                | None \<Rightarrow>
                    (if isCompact txn then limited_compact w
                     else Some (Inl (Errorf ''unsupported transaction''), w)))))"

definition dbSize :: "'w Backend \<Rightarrow> ('w, int64 \<times> go_error option) go" where
  "dbSize b w = b_DbSize b w"


section \<open>Facts\<close>

lemma byte_pred_succ: "of_char c < (255 :: nat) \<Longrightarrow> byte_pred (char_of (of_char c + 1 :: nat)) = c"
  by (simp add: byte_pred_def of_char_of)

lemma char_of_slash [simp]: "char_of (47 :: nat) = CHR ''/''" "char_of (48 :: nat) = CHR ''0''"
  using char_of_char [of "CHR ''/''", where 'a = nat] char_of_char [of "CHR ''0''", where 'a = nat]
  by simp_all

lemma isCreate_shape:
  "isCreate txn = Some put \<Longrightarrow> \<exists>c o1. txn_Compare txn = [c] \<and> txn_Success txn = [o1] \<and>
     txn_Failure txn = [] \<and> Target c = MOD \<and> GetRequestPut o1 = Some put"
  by (auto simp: isCreate_def split: list.splits if_splits)

lemma isUpdate_shape:
  "isUpdate txn = Some u \<Longrightarrow> \<exists>c o1 f1 p. txn_Compare txn = [c] \<and> txn_Success txn = [o1] \<and>
     txn_Failure txn = [f1] \<and> Target c = MOD \<and> GetRequestPut o1 = Some p"
  by (auto simp: isUpdate_def split: list.splits if_splits)

lemma isCompact_shape:
  "isCompact txn \<Longrightarrow> \<exists>c o1 f1. txn_Compare txn = [c] \<and> txn_Success txn = [o1] \<and>
     txn_Failure txn = [f1] \<and> Target c = VERSION \<and> GetRequestPut o1 \<noteq> None"
  by (auto simp: isCompact_def split: list.splits)

lemma isDelete_shape:
  "isDelete txn = Some d \<Longrightarrow>
     (\<exists>o1 o2. txn_Compare txn = [] \<and> txn_Success txn = [o1, o2]) \<or>
     (\<exists>c o1 f1. txn_Compare txn = [c] \<and> txn_Success txn = [o1] \<and> txn_Failure txn = [f1] \<and>
        Target c = MOD \<and> GetRequestDeleteRange o1 \<noteq> None)"
  by (auto simp: isDelete_def split: list.splits if_splits option.splits)

section \<open>Properties\<close>

text \<open>
  A transaction has one meaning at most: no request is recognised as two of a creation, a
  deletion, an update and a compaction, so the order of the tests in \<open>Txn\<close> does not matter.
\<close>

lemma txn_kinds_disjoint:
  "length (filter id [isCreate txn \<noteq> None, isDelete txn \<noteq> None, isUpdate txn \<noteq> None, isCompact txn]) \<le> 1"
proof -
  have "\<not> (isCreate txn \<noteq> None \<and> isDelete txn \<noteq> None)" "\<not> (isCreate txn \<noteq> None \<and> isUpdate txn \<noteq> None)"
    "\<not> (isCreate txn \<noteq> None \<and> isCompact txn)" "\<not> (isDelete txn \<noteq> None \<and> isUpdate txn \<noteq> None)"
    "\<not> (isDelete txn \<noteq> None \<and> isCompact txn)" "\<not> (isUpdate txn \<noteq> None \<and> isCompact txn)"
    using GetRequest_disjoint(3)
    by (auto dest!: isCreate_shape isDelete_shape isUpdate_shape isCompact_shape)
  then show ?thesis by auto
qed

text \<open>
  A listing with a positive limit asks the backend for one row more; the answer holds the rows
  up to the limit and says that there are more exactly when the extra row came.
\<close>

lemma list_limit:
  assumes "RangeEnd r \<noteq> []" "\<not> CountOnly r" "0 < rr_Limit r" "rr_Limit r < MaxInt64"
    and "b_List b (list_prefix (RangeEnd r)) (TrimRight (rr_Key r) [CHR 0x00]) (rr_Limit r + 1) (Revision r) w =
      Some ((rv, kvs, None), w')"
  shows "\<exists>resp. limited_Range b r w = Some (Inr resp, w') \<and> Header resp = txnHeader rv \<and>
     Kvs resp = take (nat (rr_Limit r)) kvs \<and> (More resp \<longleftrightarrow> nat (rr_Limit r) < length kvs)"
proof -
  have "i64 (rr_Limit r + 1) = rr_Limit r + 1"
    using assms(3,4) by (intro i64_id) (auto simp: MaxInt64_def)
  then show ?thesis
    using assms by (auto simp: limited_Range_def limited_list_def Let_def)
qed

text \<open>The request of a listing of a directory, as a client sends it.\<close>

definition list_request :: "bytes \<Rightarrow> bytes \<Rightarrow> int64 \<Rightarrow> RangeRequest" where
  "list_request key rangeEnd limit =
     \<lparr>rr_Key = key, RangeEnd = rangeEnd, rr_Limit = limit, Revision = 0, SortOrder = 0, SortTarget = 0,
      Serializable = False, KeysOnly = False, CountOnly = False, MinModRevision = 0, MaxModRevision = 0,
      MinCreateRevision = 0, MaxCreateRevision = 0\<rparr>"

text \<open>A backend that lists three keys, up to the limit it is given.\<close>

definition three_keys :: "KeyValue option list" where
  "three_keys = map (\<lambda>k. Some (KeyValue_zero\<lparr>Key := k\<rparr>)) [''/a/1'', ''/a/2'', ''/a/3'']"

definition three_backend :: "string list Backend" where
  "three_backend =
     \<lparr>b_Start = (\<lambda>w. Some (None, w)), b_Get = (\<lambda>k e l r w. Some ((9, hd three_keys, None), k # w)),
      b_Create = (\<lambda>k v l w. Some ((10, None), k # w)), b_Delete = (\<lambda>k r w. Some ((10, None, True, None), k # w)),
      b_List = (\<lambda>p s l r w. Some ((9, take (nat l) three_keys, None), p # w)),
      b_Count = (\<lambda>p w. Some ((9, 3, None), p # w)), b_Update = (\<lambda>k v r l w. Some ((10, None, True, None), k # w)),
      b_Watch = (\<lambda>p r w. Some ([], p # w)), b_DbSize = (\<lambda>w. Some ((0, None), w))\<rparr>"

text \<open>
  The range end that a client computes for a prefix is the prefix with its last byte increased;
  from it the server gets back the prefix, with a slash at its end.
\<close>

lemma list_prefix_of_range_end:
  assumes "of_char c < (255 :: nat)"
  shows "list_prefix (p @ [char_of (of_char c + 1 :: nat)]) =
     (if c = CHR ''/'' then p @ [c] else p @ [c, CHR ''/''])"
  using byte_pred_succ [OF assms] by (simp add: list_prefix_def HasSuffix_single)

end
