(* ===== verification/Bridge.thy ===== *)
theory Bridge
  imports Server
begin

text \<open>
  The gRPC services that \<open>KVServerBridge\<close> registers (\<open>kv.go\<close>, \<open>lease.go\<close>, \<open>cluster.go\<close>,
  \<open>maintenance.go\<close>), without their log messages.
\<close>

section \<open>The KV service (kv.go)\<close>

text \<open>The checks at the head of \<open>Range\<close>, in the order of the code: the first field it refuses.\<close>

definition range_unsupported :: "RangeRequest \<Rightarrow> string option" where
  "range_unsupported r =
     (if KeysOnly r then Some ''keysOnly''
      else if MaxCreateRevision r \<noteq> 0 then Some ''maxCreateRevision''
      else if SortOrder r \<noteq> 0 then Some ''sortOrder''
      else if SortTarget r \<noteq> 0 then Some ''sortTarget''
      else if Serializable r then Some ''serializable''
      else if MinModRevision r \<noteq> 0 then Some ''minModRevision''
      else if MinCreateRevision r \<noteq> 0 then Some ''minCreateRevision''
      else if MaxCreateRevision r \<noteq> 0 then Some ''maxCreateRevision''
      else if MaxModRevision r \<noteq> 0 then Some ''maxModRevision''
      else None)"

definition bridge_Range ::
  "'w Backend \<Rightarrow> RangeRequest \<Rightarrow> ('w, go_error + PbRangeResponse) go" where
  "bridge_Range b r w =
     (case range_unsupported r of
        Some field \<Rightarrow> Some (Inl (unsupported field), w)
      | None \<Rightarrow> do {
          (resp, w) \<leftarrow> limited_Range b r w;
          case resp of
            Inl e \<Rightarrow> Some (Inl e, w)
          | Inr resp \<Rightarrow>
              Some (Inr \<lparr>pr_Header = Header resp, pr_Kvs = toKVs (Kvs resp),
                         pr_More = More resp, pr_Count = Count resp\<rparr>, w)
        })"

definition bridge_Put :: "PutRequest \<Rightarrow> ('w, go_error + PutResponse) go" where
  "bridge_Put r w = Some (Inl (Errorf ''put is not supported''), w)"

definition bridge_DeleteRange :: "DeleteRangeRequest \<Rightarrow> ('w, go_error + DeleteRangeResponse) go" where
  "bridge_DeleteRange r w = Some (Inl (Errorf ''delete is not supported''), w)"

definition bridge_Txn ::
  "'w Backend \<Rightarrow> TxnRequest \<Rightarrow> ('w, go_error + TxnResponse) go" where
  "bridge_Txn b r w = limited_Txn b r w"

text \<open>A compaction request is answered with its own revision and does nothing.\<close>

definition bridge_Compact :: "int64 \<Rightarrow> ('w, go_error + ResponseHeader) go" where
  "bridge_Compact revision w = Some (Inr \<lparr>hdr_Revision = revision\<rparr>, w)"

section \<open>Leases (lease.go)\<close>

record LeaseGrantResponse =
  lg_Header :: ResponseHeader
  lg_ID :: int64
  lg_TTL :: int64

text \<open>A lease is its time to live: the identifier that a key stores is the number of seconds.\<close>

definition LeaseGrant :: "int64 \<Rightarrow> LeaseGrantResponse" where
  "LeaseGrant ttl = \<lparr>lg_Header = \<lparr>hdr_Revision = 0\<rparr>, lg_ID = ttl, lg_TTL = ttl\<rparr>"

datatype unsupported_call =
    LeaseRevoke | LeaseKeepAlive | LeaseTimeToLive | LeaseLeases
  | MemberAdd | MemberRemove | MemberUpdate | MemberPromote
  | Alarm | Defragment | Hash | HashKV | Snapshot | MoveLeader | Downgrade

text \<open>The error text of each method that is not supported.\<close>

fun unsupported_text :: "unsupported_call \<Rightarrow> string" where
  "unsupported_text LeaseRevoke = ''lease revoke is not supported''"
| "unsupported_text LeaseKeepAlive = ''lease keep alive is not supported''"
| "unsupported_text LeaseTimeToLive = ''lease time to live is not supported''"
| "unsupported_text LeaseLeases = ''lease leases is not supported''"
| "unsupported_text MemberAdd = ''member add is not supported''"
| "unsupported_text MemberRemove = ''member remove is not supported''"
| "unsupported_text MemberUpdate = ''member update is not supported''"
| "unsupported_text MemberPromote = ''member promote is not supported''"
| "unsupported_text Alarm = ''alarm is not supported''"
| "unsupported_text Defragment = ''defragment is not supported''"
| "unsupported_text Hash = ''hash is not supported''"
| "unsupported_text HashKV = ''hash kv is not supported''"
| "unsupported_text Snapshot = ''snapshot is not supported''"
| "unsupported_text MoveLeader = ''move leader is not supported''"
| "unsupported_text Downgrade = ''downgrade is not supported''"

section \<open>Members (cluster.go)\<close>

fun ReplaceAll1 :: "string \<Rightarrow> char \<Rightarrow> char \<Rightarrow> string" where
  "ReplaceAll1 [] old new = []"
| "ReplaceAll1 (c # s) old new = (if c = old then new else c) # ReplaceAll1 s old new"

text \<open>
  \<open>authList\<close> is the authority metadata of the incoming context: \<open>None\<close> when the context carries
  no metadata.
\<close>

definition authorityURL :: "string list option \<Rightarrow> string \<Rightarrow> string" where
  "authorityURL authList scheme =
     (case authList of
        Some (authority # _) \<Rightarrow>
          (if HasPrefix authority ''#initially=[''
           then ReplaceAll1 (TrimSuffix (TrimPrefix authority ''#initially=['') '']'') (CHR '';'') (CHR '','')
           else scheme @ ''://'' @ authority)
      | _ \<Rightarrow> scheme @ ''://'' @ ''127.0.0.1:2379'')"

record Member =
  mem_Name :: string
  ClientURLs :: "string list"
  PeerURLs :: "string list"

definition MemberList :: "string list option \<Rightarrow> string \<Rightarrow> Member list" where
  "MemberList authList scheme =
     (let listenURL = authorityURL authList scheme
      in [\<lparr>mem_Name = ''kine'', ClientURLs = [listenURL], PeerURLs = [listenURL]\<rparr>])"

section \<open>Maintenance (maintenance.go)\<close>

record StatusResponse =
  st_Header :: ResponseHeader
  st_DbSize :: int64

definition Status :: "'w Backend \<Rightarrow> ('w, go_error + StatusResponse) go" where
  "Status b w = do {
     ((size, err), w) \<leftarrow> dbSize b w;
     case err of
       Some e \<Rightarrow> Some (Inl e, w)
     | None \<Rightarrow> Some (Inr \<lparr>st_Header = \<lparr>hdr_Revision = 0\<rparr>, st_DbSize = size\<rparr>, w)
   }"


text \<open>The transaction that creates a key.\<close>

definition create_txn :: "string \<Rightarrow> bytes \<Rightarrow> int64 \<Rightarrow> TxnRequest" where
  "create_txn key val lease =
     \<lparr>txn_Compare = [\<lparr>Result = EQUAL, Target = MOD, cmp_Key = key, TargetUnion = Target_ModRevision 0\<rparr>],
      txn_Success = [Request_Put \<lparr>put_Key = key, put_Value = val, put_Lease = lease, PrevKvFlag = False,
                                  IgnoreValue = False, IgnoreLease = False\<rparr>],
      txn_Failure = []\<rparr>"

lemma isCreate_create_txn [simp]:
  "isCreate (create_txn key val lease) =
     Some \<lparr>put_Key = key, put_Value = val, put_Lease = lease, PrevKvFlag = False,
           IgnoreValue = False, IgnoreLease = False\<rparr>"
  by (simp add: isCreate_def create_txn_def GetModRevision_def)


section \<open>Properties\<close>

text \<open>
  A range request that uses a field the server does not support is refused, with an error that
  names the field, and the backend is not called.
\<close>

lemma range_refused:
  assumes "KeysOnly r \<or> Serializable r \<or> SortOrder r \<noteq> 0 \<or> SortTarget r \<noteq> 0 \<or>
    MinModRevision r \<noteq> 0 \<or> MaxModRevision r \<noteq> 0 \<or> MinCreateRevision r \<noteq> 0 \<or> MaxCreateRevision r \<noteq> 0"
  shows "\<exists>field \<in> set [''keysOnly'', ''maxCreateRevision'', ''sortOrder'', ''sortTarget'', ''serializable'',
      ''minModRevision'', ''minCreateRevision'', ''maxModRevision''].
    bridge_Range b r w = Some (Inl (Errorf (field @ '' is unsupported'')), w)"
  using assms by (auto simp: bridge_Range_def range_unsupported_def unsupported_def)

end
