(* ===== verification/KeyStore.thy ===== *)
theory KeyStore
  imports KeyLog Bridge
begin

text \<open>
  The contract between the server and its backend for the operations on one key, the etcd
  transactions proved inside it, and the proof that \<open>LogStructured\<close> on a log that keeps
  \<open>key_log\<close> is such a backend.
\<close>

locale key_store =
  fixes b :: "'w Backend"
    and good :: "'w \<Rightarrow> bool"
    and versions :: "'w \<Rightarrow> string \<Rightarrow> Event list"
    and cur :: "'w \<Rightarrow> int64"
    and room :: "'w \<Rightarrow> bool"
    and key_ok :: "string \<Rightarrow> bool"
  assumes Get:
    "good w \<Longrightarrow> key_ok k \<Longrightarrow> \<forall>e \<in> set (versions w k). \<not> Delete e \<Longrightarrow>
       \<exists>w'. b_Get b k [] limit 0 w =
          Some ((cur w, if versions w k = [] then None else KV (last (versions w k)), None), w') \<and>
          undisturbed good versions cur room w w'"
    and Create_new:
    "good w \<Longrightarrow> room w \<Longrightarrow> key_ok k \<Longrightarrow> fits32 lease \<Longrightarrow>
       versions w k = [] \<or> Delete (last (versions w k)) \<Longrightarrow>
       \<exists>w' e. b_Create b k val lease w = Some ((cur w + 1, None), w') \<and> good w' \<and>
          cur w' = cur w + 1 \<and> versions w' = (versions w)(k := versions w k @ [e]) \<and>
          \<not> Delete e \<and> KV e = Some \<lparr>Key = k, CreateRevision = cur w + 1, ModRevision = cur w + 1,
                                 Value = val, Lease = lease\<rparr>"
    and Create_exists:
    "good w \<Longrightarrow> key_ok k \<Longrightarrow> versions w k \<noteq> [] \<Longrightarrow> \<not> Delete (last (versions w k)) \<Longrightarrow>
       \<exists>w'. b_Create b k val lease w = Some ((cur w, Some ErrKeyExists), w') \<and>
          undisturbed good versions cur room w w'"
    and Delete_ok:
    "good w \<Longrightarrow> room w \<Longrightarrow> key_ok k \<Longrightarrow> versions w k \<noteq> [] \<Longrightarrow> \<not> Delete (last (versions w k)) \<Longrightarrow>
       rv = 0 \<or> rv = ModRevision (the_kv (KV (last (versions w k)))) \<Longrightarrow>
       \<exists>w' e. b_Delete b k rv w = Some ((cur w + 1, KV (last (versions w k)), True, None), w') \<and>
          good w' \<and> cur w' = cur w + 1 \<and> versions w' = (versions w)(k := versions w k @ [e]) \<and>
          Delete e"
    and Delete_stale:
    "good w \<Longrightarrow> key_ok k \<Longrightarrow> versions w k \<noteq> [] \<Longrightarrow> \<not> Delete (last (versions w k)) \<Longrightarrow>
       rv \<noteq> 0 \<Longrightarrow> rv \<noteq> ModRevision (the_kv (KV (last (versions w k)))) \<Longrightarrow>
       \<exists>w'. b_Delete b k rv w = Some ((cur w, KV (last (versions w k)), False, None), w') \<and>
          undisturbed good versions cur room w w'"
    and Update_ok:
    "good w \<Longrightarrow> room w \<Longrightarrow> key_ok k \<Longrightarrow> \<forall>e \<in> set (versions w k). \<not> Delete e \<Longrightarrow> fits32 lease \<Longrightarrow>
       versions w k \<noteq> [] \<Longrightarrow> KV (last (versions w k)) = Some prev \<Longrightarrow> rv = ModRevision prev \<Longrightarrow>
       \<exists>w' e kv. kv = \<lparr>Key = k, CreateRevision = CreateRevision prev, ModRevision = cur w + 1,
                      Value = val, Lease = lease\<rparr> \<and>
          b_Update b k val rv lease w = Some ((cur w + 1, Some kv, True, None), w') \<and> good w' \<and>
          cur w' = cur w + 1 \<and> versions w' = (versions w)(k := versions w k @ [e]) \<and>
          \<not> Delete e \<and> KV e = Some kv"
    and Update_stale:
    "good w \<Longrightarrow> key_ok k \<Longrightarrow> \<forall>e \<in> set (versions w k). \<not> Delete e \<Longrightarrow> versions w k \<noteq> [] \<Longrightarrow>
       rv \<noteq> ModRevision (the_kv (KV (last (versions w k)))) \<Longrightarrow>
       \<exists>w'. b_Update b k val rv lease w = Some ((cur w, KV (last (versions w k)), False, None), w') \<and>
          undisturbed good versions cur room w w'"
    and version_some: "good w \<Longrightarrow> e \<in> set (versions w k) \<Longrightarrow>
       \<exists>kv. KV e = Some kv \<and> Key kv = k \<and> 0 < ModRevision kv"
begin

abbreviation same :: "'w \<Rightarrow> 'w \<Rightarrow> bool" where
  "same \<equiv> undisturbed good versions cur room"

text \<open>The transaction that Kubernetes sends to create a key.\<close>

lemma txn_create_new:
  assumes "isCreate txn = Some put" "\<not> IgnoreLease put" "\<not> IgnoreValue put" "\<not> PrevKvFlag put"
    and "good w" "room w" "key_ok (put_Key put)" "fits32 (put_Lease put)"
    and "versions w (put_Key put) = [] \<or> Delete (last (versions w (put_Key put)))"
  shows "\<exists>w' e. bridge_Txn b txn w =
       Some (Inr \<lparr>txn_Header = txnHeader (cur w + 1), Succeeded = True,
                  Responses = put_responses (cur w + 1)\<rparr>, w') \<and>
     good w' \<and> cur w' = cur w + 1 \<and>
     versions w' = (versions w)(put_Key put := versions w (put_Key put) @ [e]) \<and> \<not> Delete e \<and>
     KV e = Some \<lparr>Key = put_Key put, CreateRevision = cur w + 1, ModRevision = cur w + 1,
                  Value = put_Value put, Lease = put_Lease put\<rparr>"
  using Create_new [OF assms(5-9), of "put_Value put"] assms(1-4)
  by (fastforce simp: bridge_Txn_def limited_Txn_def limited_create_def)

lemma txn_create_exists:
  assumes "isCreate txn = Some put" "\<not> IgnoreLease put" "\<not> IgnoreValue put" "\<not> PrevKvFlag put"
    and "good w" "key_ok (put_Key put)"
    and "versions w (put_Key put) \<noteq> []" "\<not> Delete (last (versions w (put_Key put)))"
  shows "\<exists>w'. bridge_Txn b txn w =
       Some (Inr \<lparr>txn_Header = txnHeader (cur w), Succeeded = False, Responses = []\<rparr>, w') \<and> same w w'"
  using Create_exists [OF assms(5-8), of "put_Value put" "put_Lease put"] assms(1-4)
  by (auto simp: bridge_Txn_def limited_Txn_def limited_create_def)

text \<open>Its transaction for an update at a known revision: the compare-and-swap.\<close>

lemma txn_update_ok:
  assumes "isCreate txn = None" "isDelete txn = None" "isUpdate txn = Some (rv, k, val, lease)"
    and "good w" "room w" "key_ok k" "\<forall>e \<in> set (versions w k). \<not> Delete e" "fits32 lease"
    and "versions w k \<noteq> []" "KV (last (versions w k)) = Some prev" "rv = ModRevision prev"
  shows "\<exists>w' e. bridge_Txn b txn w =
       Some (Inr \<lparr>txn_Header = txnHeader (cur w + 1), Succeeded = True,
                  Responses = put_responses (cur w + 1)\<rparr>, w') \<and>
     good w' \<and> cur w' = cur w + 1 \<and> versions w' = (versions w)(k := versions w k @ [e]) \<and>
     \<not> Delete e \<and>
     KV e = Some \<lparr>Key = k, CreateRevision = CreateRevision prev, ModRevision = cur w + 1,
                  Value = val, Lease = lease\<rparr>"
proof -
  have "rv \<noteq> 0"
    using version_some [OF assms(4), of "last (versions w k)" k] assms(9-11) by auto
  then show ?thesis
    using Update_ok [OF assms(4-11), of val] assms(1-3)
    by (fastforce simp: bridge_Txn_def limited_Txn_def limited_update_def)
qed

lemma txn_update_stale:
  assumes "isCreate txn = None" "isDelete txn = None" "isUpdate txn = Some (rv, k, val, lease)"
    and "rv \<noteq> 0" "good w" "key_ok k" "\<forall>e \<in> set (versions w k). \<not> Delete e"
    and "versions w k \<noteq> []" "rv \<noteq> ModRevision (the_kv (KV (last (versions w k))))"
  shows "\<exists>w'. bridge_Txn b txn w =
       Some (Inr \<lparr>txn_Header = txnHeader (cur w), Succeeded = False,
                  Responses = range_responses (cur w) (KV (last (versions w k)))\<rparr>, w') \<and> same w w'"
  using Update_stale [OF assms(5-9), of val lease] assms(1-4)
  by (auto simp: bridge_Txn_def limited_Txn_def limited_update_def)

text \<open>Its transaction for a deletion.\<close>

lemma txn_delete_ok:
  assumes "isCreate txn = None" "isDelete txn = Some (rv, k)"
    and "good w" "room w" "key_ok k" "versions w k \<noteq> []" "\<not> Delete (last (versions w k))"
    and "rv = 0 \<or> rv = ModRevision (the_kv (KV (last (versions w k))))"
  shows "\<exists>w' e. bridge_Txn b txn w =
       Some (Inr \<lparr>txn_Header = txnHeader (cur w + 1), Succeeded = True,
                  Responses = [ResponseDeleteRange \<lparr>del_Header = txnHeader (cur w + 1),
                    PrevKvs = toKVs [KV (last (versions w k))]\<rparr>]\<rparr>, w') \<and>
     good w' \<and> cur w' = cur w + 1 \<and> versions w' = (versions w)(k := versions w k @ [e]) \<and> Delete e"
  using Delete_ok [OF assms(3-8)] assms(1,2)
  by (fastforce simp: bridge_Txn_def limited_Txn_def limited_delete_def)

lemma txn_delete_stale:
  assumes "isCreate txn = None" "isDelete txn = Some (rv, k)"
    and "good w" "key_ok k" "versions w k \<noteq> []" "\<not> Delete (last (versions w k))"
    and "rv \<noteq> 0" "rv \<noteq> ModRevision (the_kv (KV (last (versions w k))))"
  shows "\<exists>w'. bridge_Txn b txn w =
       Some (Inr \<lparr>txn_Header = txnHeader (cur w), Succeeded = False,
                  Responses = range_responses (cur w) (KV (last (versions w k)))\<rparr>, w') \<and> same w w'"
  using Delete_stale [OF assms(3-8)] assms(1,2)
  by (auto simp: bridge_Txn_def limited_Txn_def limited_delete_def)

text \<open>A range request for one key.\<close>

lemma range_get:
  assumes "range_unsupported r = None" "RangeEnd r = []" "Revision r = 0"
    and "good w" "key_ok (rr_Key r)" "\<forall>e \<in> set (versions w (rr_Key r)). \<not> Delete e"
  shows "\<exists>w'. bridge_Range b r w =
       Some (Inr \<lparr>pr_Header = txnHeader (cur w),
                  pr_Kvs = (if versions w (rr_Key r) = [] then []
                            else toKVs [KV (last (versions w (rr_Key r)))]),
                  pr_More = False, pr_Count = 0\<rparr>, w') \<and> same w w'"
proof -
  obtain w' where "b_Get b (rr_Key r) [] (rr_Limit r) 0 w = Some ((cur w,
      if versions w (rr_Key r) = [] then None else KV (last (versions w (rr_Key r))), None), w')"
    "same w w'" using Get [OF assms(4-6)] by blast
  then show ?thesis
    using assms(1-3)
    by (cases "versions w (rr_Key r) = []"; cases "KV (last (versions w (rr_Key r)))")
       (auto simp: bridge_Range_def limited_Range_def limited_get_def toKVs_def)
qed

end

section \<open>LogStructured is such a backend\<close>

sublocale key_log \<subseteq> store: key_store "logstructured_backend L" good versions cur room key_ok
proof
  fix w k val lease rv prev
  assume w: "good w"
  show "room w \<Longrightarrow> key_ok k \<Longrightarrow> fits32 lease \<Longrightarrow>
       versions w k = [] \<or> Delete (last (versions w k)) \<Longrightarrow>
       \<exists>w' e. b_Create (logstructured_backend L) k val lease w = Some ((cur w + 1, None), w') \<and>
          good w' \<and> cur w' = cur w + 1 \<and> versions w' = (versions w)(k := versions w k @ [e]) \<and>
          \<not> Delete e \<and> KV e = Some \<lparr>Key = k, CreateRevision = cur w + 1, ModRevision = cur w + 1,
                                 Value = val, Lease = lease\<rparr>"
    using Create_ok [OF w, of k lease val]
    by (force simp: created_def stored_def create_event_def)
  show "room w \<Longrightarrow> key_ok k \<Longrightarrow> versions w k \<noteq> [] \<Longrightarrow> \<not> Delete (last (versions w k)) \<Longrightarrow>
       rv = 0 \<or> rv = ModRevision (the_kv (KV (last (versions w k)))) \<Longrightarrow>
       \<exists>w' e. b_Delete (logstructured_backend L) k rv w =
            Some ((cur w + 1, KV (last (versions w k)), True, None), w') \<and>
          good w' \<and> cur w' = cur w + 1 \<and> versions w' = (versions w)(k := versions w k @ [e]) \<and>
          Delete e"
    using Delete_ok [OF w, of k rv] by (force simp: stored_def delete_event_def)
  show "room w \<Longrightarrow> key_ok k \<Longrightarrow> \<forall>e \<in> set (versions w k). \<not> Delete e \<Longrightarrow> fits32 lease \<Longrightarrow>
       versions w k \<noteq> [] \<Longrightarrow> KV (last (versions w k)) = Some prev \<Longrightarrow> rv = ModRevision prev \<Longrightarrow>
       \<exists>w' e kv. kv = \<lparr>Key = k, CreateRevision = CreateRevision prev, ModRevision = cur w + 1,
                      Value = val, Lease = lease\<rparr> \<and>
          b_Update (logstructured_backend L) k val rv lease w =
            Some ((cur w + 1, Some kv, True, None), w') \<and> good w' \<and>
          cur w' = cur w + 1 \<and> versions w' = (versions w)(k := versions w k @ [e]) \<and>
          \<not> Delete e \<and> KV e = Some kv"
    using Update_ok [OF w, of k lease prev rv val] by (force simp: stored_def update_event_def)
qed (use Get_live Create_exists Delete_stale Update_stale version_kv in \<open>auto, blast+\<close>)

end
