(* ===== verification/Client.thy ===== *)
theory Client
  imports Bridge
begin

text \<open>
  The client wrapper (\<open>pkg/client/client.go\<close>) and the requests it sends. The etcd client package
  under it is a record of its two calls; the requests are those its options and comparisons stand
  for.
\<close>

section \<open>Requests\<close>

definition get_request :: "bytes \<Rightarrow> RangeRequest" where
  "get_request key = list_request key [] 0"

lemma get_request_simps [simp]:
  "range_unsupported (get_request k) = None" "RangeEnd (get_request k) = []"
  "Revision (get_request k) = 0" "rr_Key (get_request k) = k" "rr_Limit (get_request k) = 0"
  by (simp_all add: get_request_def list_request_def range_unsupported_def)

definition update_txn :: "string \<Rightarrow> int64 \<Rightarrow> bytes \<Rightarrow> int64 \<Rightarrow> TxnRequest" where
  "update_txn key rv val lease =
     \<lparr>txn_Compare = [\<lparr>Result = EQUAL, Target = MOD, cmp_Key = key, TargetUnion = Target_ModRevision rv\<rparr>],
      txn_Success = [Request_Put \<lparr>put_Key = key, put_Value = val, put_Lease = lease, PrevKvFlag = False,
                                  IgnoreValue = False, IgnoreLease = False\<rparr>],
      txn_Failure = [Request_Range (get_request key)]\<rparr>"

definition delete_txn :: "string \<Rightarrow> int64 \<Rightarrow> TxnRequest" where
  "delete_txn key rv =
     \<lparr>txn_Compare = [\<lparr>Result = EQUAL, Target = MOD, cmp_Key = key, TargetUnion = Target_ModRevision rv\<rparr>],
      txn_Success = [Request_DeleteRange \<lparr>dr_Key = key, dr_RangeEnd = []\<rparr>],
      txn_Failure = [Request_Range (get_request key)]\<rparr>"

lemma txn_recognised [simp]:
  "isCreate (update_txn k rv val lease) = None" "isDelete (update_txn k rv val lease) = None"
  "isUpdate (update_txn k rv val lease) = Some (rv, k, val, lease)"
  "isCreate (delete_txn k rv) = None" "isDelete (delete_txn k rv) = Some (rv, k)"
  by (simp_all add: isCreate_def isDelete_def isUpdate_def update_txn_def delete_txn_def GetModRevision_def)

text \<open>The range end of \<open>WithPrefix\<close>: the prefix with its last byte increased, if that is possible.\<close>

definition prefix_end :: "bytes \<Rightarrow> bytes" where
  "prefix_end p =
     (let kept = rev (dropWhile (\<lambda>c. c = CHR 0xFF) (rev p))
      in if kept = [] then [CHR 0x00]
         else butlast kept @ [char_of (of_char (last kept) + 1 :: nat)])"

section \<open>The client\<close>

record 'w etcd_client =
  ec_Range :: "RangeRequest \<Rightarrow> ('w, go_error + PbRangeResponse) go"
  ec_Txn :: "TxnRequest \<Rightarrow> ('w, go_error + TxnResponse) go"

record client_Value =
  cv_Key :: bytes
  cv_Data :: bytes
  cv_Modified :: int64

definition value_of :: "mvcc_KeyValue \<Rightarrow> client_Value" where
  "value_of kv = \<lparr>cv_Key = mv_Key kv, cv_Data = mv_Value kv, cv_Modified = mv_ModRevision kv\<rparr>"

definition ErrNotFound :: go_error where
  "ErrNotFound = Errorf ''etcdwrapper: key not found''"

definition client_List ::
  "'w etcd_client \<Rightarrow> bytes \<Rightarrow> int64 \<Rightarrow> ('w, go_error + client_Value list) go" where
  "client_List c key rv w = do {
     let from_key = (if key = [] then [CHR 0x00] else key);
     (resp, w) \<leftarrow> ec_Range c ((list_request from_key (prefix_end key) 0)\<lparr>Revision := rv\<rparr>) w;
     case resp of
       Inl e \<Rightarrow> Some (Inl e, w)
     | Inr resp \<Rightarrow> Some (Inr (map value_of (pr_Kvs resp)), w)
   }"

definition client_Get :: "'w etcd_client \<Rightarrow> bytes \<Rightarrow> ('w, go_error + client_Value) go" where
  "client_Get c key w = do {
     (resp, w) \<leftarrow> ec_Range c (get_request key) w;
     case resp of
       Inl e \<Rightarrow> Some (Inl e, w)
     | Inr resp \<Rightarrow>
         (case pr_Kvs resp of
            [kv] \<Rightarrow> Some (Inr (value_of kv), w)
          | _ \<Rightarrow> Some (Inl ErrNotFound, w))
   }"

text \<open>The error of a transaction: that of the call, or a text when it did not succeed.\<close>

definition txn_error ::
  "'w etcd_client \<Rightarrow> TxnRequest \<Rightarrow> string \<Rightarrow> ('w, go_error option) go" where
  "txn_error c txn failure w = do {
     (resp, w) \<leftarrow> ec_Txn c txn w;
     case resp of
       Inl e \<Rightarrow> Some (Some e, w)
     | Inr resp \<Rightarrow> Some (if \<not> Succeeded resp then Some (Errorf failure) else None, w)
   }"

definition client_Create :: "'w etcd_client \<Rightarrow> bytes \<Rightarrow> bytes \<Rightarrow> ('w, go_error option) go" where
  "client_Create c key val w = txn_error c (create_txn key val 0) ''key exists'' w"

definition client_Update :: "'w etcd_client \<Rightarrow> bytes \<Rightarrow> int64 \<Rightarrow> bytes \<Rightarrow> ('w, go_error option) go" where
  "client_Update c key rv val w =
     txn_error c (update_txn key rv val 0) (''revision '' @ FormatInt rv @ '' doesnt match'') w"

definition client_Delete :: "'w etcd_client \<Rightarrow> bytes \<Rightarrow> int64 \<Rightarrow> ('w, go_error option) go" where
  "client_Delete c key rv w =
     txn_error c (delete_txn key rv) (''revision '' @ FormatInt rv @ '' doesnt match'') w"

definition client_Put :: "'w etcd_client \<Rightarrow> bytes \<Rightarrow> bytes \<Rightarrow> ('w, go_error option) go" where
  "client_Put c key val w = do {
     (res, w) \<leftarrow> client_Get c key w;
     case res of
       Inl e \<Rightarrow> Some (Some e, w)
     | Inr v \<Rightarrow>
         (if cv_Modified v = 0 then client_Create c key val w
          else client_Update c key (cv_Modified v) val w)
   }"

text \<open>A client that is connected to the server on a backend.\<close>

definition client_of :: "'w Backend \<Rightarrow> 'w etcd_client" where
  "client_of b = \<lparr>ec_Range = bridge_Range b, ec_Txn = bridge_Txn b\<rparr>"

lemma client_of_simps [simp]:
  "ec_Range (client_of b) = bridge_Range b" "ec_Txn (client_of b) = bridge_Txn b"
  by (simp_all add: client_of_def)

text \<open>The server finds the prefix of a listing again.\<close>

lemma list_prefix_prefix_end: "list_prefix (prefix_end (p @ ''/'')) = p @ ''/''"
  using byte_pred_succ [of "CHR ''/''"]
  by (simp add: prefix_end_def list_prefix_def HasSuffix_single)

end
