(* ===== verification/Dds.thy ===== *)
theory Dds
  imports Messages "HOL-Library.AList" "HOL-Library.List_Lexorder" "HOL-Library.Char_ord"
    "HOL-Library.Product_Lexorder" "HOL-Library.Multiset"
begin

text \<open>
  The DDS database that answers Kine's remote calls (\<open>DdsDatabase/src\<close>, C++): the messages of
  its topic, the queries of \<open>Database.cpp\<close> with their filters, and the service of
  \<open>Controller.hpp\<close>. The middleware is a parameter: what a write or a dispose does to the samples
  that a read returns. This is one node; \<open>Cluster\<close> has several and the republishing of messages whose
  writer died. Not modelled: the mass dispose, which the source leaves unfinished.
\<close>

section \<open>Messages and rows (DatabaseMsg.idl, QueryStructure.h)\<close>

text \<open>The IDL type \<open>long\<close> is a signed 32-bit integer.\<close>

record Msg =
  msg_id :: int32
  msg_name :: string
  msg_created :: int32
  msg_deleted :: int32
  msg_create_revision :: int32
  msg_prev_revision :: int32
  msg_lease :: int32
  msg_value :: bytes
  msg_old_value :: bytes

datatype structure_generic =
  structure_generic (sg_max_id: int32) (sg_compaction_prev_revision: int32) (sg_theid: int32)
    (sg_name: string) (sg_created: int32) (sg_deleted: int32) (sg_create_revision: int32)
    (sg_prev_revision: int32) (sg_lease: int32) (sg_value: bytes) (sg_old_value: bytes)

text \<open>The operator \<open><\<close> of the struct compares the tuples of its fields.\<close>

definition sg_tie :: "structure_generic \<Rightarrow>
    int \<times> int \<times> int \<times> string \<times> int \<times> int \<times> int \<times> int \<times> int \<times> bytes \<times> bytes" where
  "sg_tie l = (sg_max_id l, sg_compaction_prev_revision l, sg_theid l, sg_name l, sg_created l,
     sg_deleted l, sg_create_revision l, sg_prev_revision l, sg_lease l, sg_value l, sg_old_value l)"

lemma sg_tie_inject [simp]: "sg_tie l = sg_tie r \<longleftrightarrow> l = r"
  by (cases l; cases r) (simp add: sg_tie_def)

instantiation structure_generic :: linorder
begin

definition less_eq_structure_generic :: "structure_generic \<Rightarrow> structure_generic \<Rightarrow> bool" where
  "l \<le> r \<longleftrightarrow> sg_tie l \<le> sg_tie r"

definition less_structure_generic :: "structure_generic \<Rightarrow> structure_generic \<Rightarrow> bool" where
  "l < r \<longleftrightarrow> sg_tie l < sg_tie r"

instance
proof
  fix x y z :: structure_generic
  show "(x < y) = (x \<le> y \<and> \<not> y \<le> x)"
    by (simp add: less_eq_structure_generic_def less_structure_generic_def less_le_not_le)
  show "x \<le> x" by (simp add: less_eq_structure_generic_def)
  show "x \<le> y \<Longrightarrow> y \<le> z \<Longrightarrow> x \<le> z"
    unfolding less_eq_structure_generic_def by (rule order_trans)
  show "x \<le> y \<Longrightarrow> y \<le> x \<Longrightarrow> x = y"
    by (metis less_eq_structure_generic_def order_antisym sg_tie_inject)
  show "x \<le> y \<or> y \<le> x"
    unfolding less_eq_structure_generic_def by (rule linear)
qed

end

definition generic_of :: "int32 \<Rightarrow> int32 \<Rightarrow> Msg \<Rightarrow> structure_generic" where
  "generic_of max_id cpr m =
     structure_generic max_id cpr (msg_id m) (msg_name m) (msg_created m) (msg_deleted m)
       (msg_create_revision m) (msg_prev_revision m) (msg_lease m) (msg_value m) (msg_old_value m)"

text \<open>The message that the searches return when they find nothing.\<close>

definition empty_msg :: Msg where
  "empty_msg = \<lparr>msg_id = 0, msg_name = ''empty'', msg_created = 0, msg_deleted = 0,
     msg_create_revision = 0, msg_prev_revision = 0, msg_lease = 0, msg_value = [],
     msg_old_value = []\<rparr>"

section \<open>State and middleware\<close>

text \<open>
  \<open>reader\<close> holds the alive samples of the main topic in the order in which a read returns them,
  \<open>reader_maxid\<close> those of the topic of the greatest identifier. \<open>matched\<close> and
  \<open>matched_maxid\<close> count the readers that the writers have found.
\<close>

record database =
  reader :: "Msg list"
  reader_maxid :: "int list"
  matched :: int
  matched_maxid :: int

record dds =
  dds_write :: "Msg \<Rightarrow> Msg list \<Rightarrow> Msg list"
  dds_dispose :: "int32 \<Rightarrow> Msg list \<Rightarrow> Msg list"
  dds_write_maxid :: "int \<Rightarrow> int list \<Rightarrow> int list"

text \<open>
  What the code relies on: a topic with a key keeps one sample for each key, the last one that
  was written; disposing an instance removes it; nothing is said about the order of the samples.
\<close>

definition dds_keyed :: "dds \<Rightarrow> bool" where
  "dds_keyed D \<longleftrightarrow>
     (\<forall>m c. distinct (map msg_id c) \<longrightarrow>
        distinct (map msg_id (dds_write D m c)) \<and>
        set (dds_write D m c) = insert m {x \<in> set c. msg_id x \<noteq> msg_id m}) \<and>
     (\<forall>i c. distinct (map msg_id c) \<longrightarrow>
        distinct (map msg_id (dds_dispose D i c)) \<and>
        set (dds_dispose D i c) = {x \<in> set c. msg_id x \<noteq> i}) \<and>
     (\<forall>n c. distinct c \<longrightarrow>
        distinct (dds_write_maxid D n c) \<and> set (dds_write_maxid D n c) = insert n (set c))"

definition maximum_messages :: nat where
  "maximum_messages = 10000"

section \<open>Conversions and filters\<close>

text \<open>
  \<open>std::stoi\<close>: leading white space, a sign, digits; an exception (\<open>None\<close>) when there is no digit
  or the value is not a 32-bit integer.
\<close>

definition is_space :: "char \<Rightarrow> bool" where
  "is_space c \<longleftrightarrow> c \<in> set [CHR '' '', CHR 0x09, CHR 0x0A, CHR 0x0B, CHR 0x0C, CHR 0x0D]"

definition stoi :: "string \<Rightarrow> int option" where
  "stoi s0 =
     (let s1 = dropWhile is_space s0;
          neg = (s1 \<noteq> [] \<and> hd s1 = CHR ''-'');
          s2 = (if s1 \<noteq> [] \<and> (hd s1 = CHR ''-'' \<or> hd s1 = CHR ''+'') then tl s1 else s1);
          ds = takeWhile is_digit s2;
          v = (if neg then - int (digits_value 0 ds) else int (digits_value 0 ds))
      in if ds = [] then None
         else if - (2 ^ 31) \<le> v \<and> v < 2 ^ 31 then Some v else None)"

definition utils_has_percentage :: "string \<Rightarrow> bool" where
  "utils_has_percentage s = (CHR ''%'' \<in> set s)"

definition utils_remove_percentage :: "string \<Rightarrow> string" where
  "utils_remove_percentage s = filter (\<lambda>c. c \<noteq> CHR ''%'') s"

text \<open>\<open>name().find(p) != std::string::npos\<close>: \<open>p\<close> occurs somewhere in the name.\<close>

fun str_contains :: "string \<Rightarrow> string \<Rightarrow> bool" where
  "str_contains [] p = (p = [])"
| "str_contains (c # s) p = (HasPrefix (c # s) p \<or> str_contains s p)"

text \<open>
  The name condition that every filter begins with: the name itself, or with a percent sign in
  the parameter a substring of the name.
\<close>

definition name_matches :: "string \<Rightarrow> Msg \<Rightarrow> bool" where
  "name_matches param m =
     (if utils_has_percentage param then str_contains (msg_name m) (utils_remove_percentage param)
      else msg_name m = param)"

text \<open>
  A conjunction of filter conditions is evaluated from the left, so a number is parsed only for
  a message that has passed the conditions before it.
\<close>

definition and_then :: "bool \<Rightarrow> bool option \<Rightarrow> bool option" where
  "and_then a b = (if a then b else Some False)"

definition filter_query01 :: "string \<Rightarrow> string \<Rightarrow> Msg \<Rightarrow> bool option" where
  "filter_query01 p0 p1 m =
     and_then (name_matches p0 m) (map_option (\<lambda>n. msg_id m > n) (stoi p1))"

definition filter_query04 :: "string \<Rightarrow> Msg \<Rightarrow> bool option" where
  "filter_query04 p0 m = Some (name_matches p0 m)"

definition filter_query09_subquery01 :: "string \<Rightarrow> string \<Rightarrow> Msg \<Rightarrow> bool option" where
  "filter_query09_subquery01 p2 p3 m =
     and_then (msg_name m = p2) (map_option (\<lambda>n. msg_id m \<le> n) (stoi p3))"

definition filter_query09_subquery02 :: "string \<Rightarrow> string \<Rightarrow> string \<Rightarrow> Msg \<Rightarrow> bool option" where
  "filter_query09_subquery02 p0 p1 p5 m =
     and_then (name_matches p0 m)
       (case stoi p1 of
          None \<Rightarrow> None
        | Some n \<Rightarrow> and_then (msg_id m \<le> n) (map_option (\<lambda>t. msg_id m > t) (stoi p5)))"

definition filter_query11 :: "string \<Rightarrow> string \<Rightarrow> Msg \<Rightarrow> bool option" where
  "filter_query11 p0 p1 m =
     and_then (name_matches p0 m) (map_option (\<lambda>n. msg_id m \<le> n) (stoi p1))"

text \<open>
  A read with a condition: at most \<open>maximum_messages\<close> samples that satisfy it, \<open>None\<close> when the
  condition throws.
\<close>

definition dds_read :: "(Msg \<Rightarrow> bool option) \<Rightarrow> Msg list \<Rightarrow> Msg list option" where
  "dds_read cond c =
     (if \<exists>m \<in> set c. cond m = None then None
      else Some (take maximum_messages (filter (\<lambda>m. cond m = Some True) c)))"


definition filter_query_compaction :: "Msg \<Rightarrow> bool option" where
  "filter_query_compaction m = Some (msg_name m = ''compact_rev_key'')"

definition filter_query_find_message_by_id :: "int \<Rightarrow> Msg \<Rightarrow> bool option" where
  "filter_query_find_message_by_id i m = Some (msg_id m = i)"

section \<open>Queries\<close>

text \<open>The greatest identifier of the samples that were read, and whether there was one above 0.\<close>

fun max_scan :: "int \<Rightarrow> int list \<Rightarrow> int" where
  "max_scan r [] = r"
| "max_scan r (m # ms) = max_scan (if m > r then m else r) ms"

definition query_maxid :: "database \<Rightarrow> int \<times> bool" where
  "query_maxid db =
     (let r = max_scan 0 (take maximum_messages (reader_maxid db)) in (r, r > 0))"

text \<open>
  The samples of the topic are taken, which removes them. The identifier that is written has 32
  bits. The flag of the result is false on every path.
\<close>

definition query_maxid_and_replace :: "dds \<Rightarrow> database \<Rightarrow> (int \<times> bool) \<times> database" where
  "query_maxid_and_replace D db =
     (let r = max_scan 0 (take maximum_messages (reader_maxid db));
          db1 = db\<lparr>reader_maxid := drop maximum_messages (reader_maxid db)\<rparr>
      in if matched_maxid db > 0
         then ((r + 1, False),
               db1\<lparr>reader_maxid := dds_write_maxid D (u32 (r + 1)) (reader_maxid db1)\<rparr>)
         else ((r, False), db1))"

definition query_compaction :: "database \<Rightarrow> Msg" where
  "query_compaction db =
     (case dds_read filter_query_compaction (reader db) of
        Some (m # _) \<Rightarrow> m | _ \<Rightarrow> empty_msg)"

definition query_find_message_by_id :: "int \<Rightarrow> database \<Rightarrow> Msg" where
  "query_find_message_by_id i db =
     (case dds_read (filter_query_find_message_by_id i) (reader db) of
        Some (m # _) \<Rightarrow> m | _ \<Rightarrow> empty_msg)"

definition query_find_common_values :: "database \<Rightarrow> int \<times> int" where
  "query_find_common_values db = (fst (query_maxid db), msg_prev_revision (query_compaction db))"

text \<open>
  The grouping by name. \<open>result_map\<close> maps a name to a row and to the flag that says whether the
  row belongs to the result; the flag is that of the first message of the name. The map is an
  association list here: the sort that follows makes the order of its entries irrelevant.
\<close>

type_synonym result_map = "(string \<times> structure_generic \<times> bool) list"

definition group_step ::
  "int32 \<Rightarrow> int32 \<Rightarrow> string \<Rightarrow> Msg \<Rightarrow> result_map \<Rightarrow> result_map" where
  "group_step max_id cpr t_f m result_map =
     (let tmp = generic_of max_id cpr m;
          valid = (if t_f = ''f'' then msg_deleted m = 0 else True)
      in case map_of result_map (msg_name m) of
           None \<Rightarrow> result_map @ [(msg_name m, tmp, valid)]
         | Some (old, valid_old) \<Rightarrow>
             (if msg_id m > sg_theid old
              then AList.update (msg_name m) (tmp, valid_old) result_map
              else result_map))"

definition query_common_subquery ::
  "Msg list \<Rightarrow> int \<Rightarrow> int \<Rightarrow> string \<Rightarrow> structure_generic list" where
  "query_common_subquery msgs max_id cpr t_f =
     (let result_map = fold (group_step (i32 max_id) (i32 cpr) t_f) msgs []
      in sort (map (\<lambda>(_, row, _). row) (filter (\<lambda>(_, _, valid). valid) result_map)))"

definition apply_limit :: "int32 \<Rightarrow> 'a list \<Rightarrow> 'a list" where
  "apply_limit limit result =
     (if limit > 0 \<and> int (length result) > limit then take (nat limit) result else result)"

definition query_01 :: "int32 \<Rightarrow> string \<Rightarrow> string \<Rightarrow> database \<Rightarrow> structure_generic list option" where
  "query_01 limit p0 p1 db = do {
     let (max_id, cpr) = query_find_common_values db;
     msgs \<leftarrow> dds_read (filter_query01 p0 p1) (reader db);
     Some (apply_limit limit (sort (map (generic_of (i32 max_id) (i32 cpr)) msgs)))
   }"

definition query_04 :: "int32 \<Rightarrow> string \<Rightarrow> string \<Rightarrow> database \<Rightarrow> structure_generic list option" where
  "query_04 limit p0 p1 db = do {
     let (max_id, cpr) = query_find_common_values db;
     msgs \<leftarrow> dds_read (filter_query04 p0) (reader db);
     Some (apply_limit limit (query_common_subquery msgs max_id cpr p1))
   }"

definition query_09 ::
  "int32 \<Rightarrow> string \<Rightarrow> string \<Rightarrow> string \<Rightarrow> string \<Rightarrow> string \<Rightarrow> database \<Rightarrow>
   structure_generic list option" where
  "query_09 limit p0 p1 p2 p3 p4 db = do {
     let (max_id, cpr) = query_find_common_values db;
     start \<leftarrow> dds_read (filter_query09_subquery01 p2 p3) (reader db);
     let theid = max_scan 0 (map msg_id start);
     msgs \<leftarrow> dds_read (filter_query09_subquery02 p0 p1 (FormatInt theid)) (reader db);
     Some (apply_limit limit (query_common_subquery msgs max_id cpr p4))
   }"

definition query_11 ::
  "int32 \<Rightarrow> string \<Rightarrow> string \<Rightarrow> string \<Rightarrow> database \<Rightarrow> structure_generic list option" where
  "query_11 limit p0 p1 p2 db = do {
     let (max_id, cpr) = query_find_common_values db;
     msgs \<leftarrow> dds_read (filter_query11 p0 p1) (reader db);
     Some (apply_limit limit (query_common_subquery msgs max_id cpr p2))
   }"

definition query_03 :: "string \<Rightarrow> string \<Rightarrow> database \<Rightarrow> (int32 \<times> int32) option" where
  "query_03 p0 p1 db = do {
     rows \<leftarrow> query_04 (int maximum_messages) p0 p1 db;
     Some (i32 (fst (query_maxid db)), i32 (int (length rows)))
   }"

section \<open>Writing\<close>

text \<open>
  \<open>core_publish\<close> and \<open>core_publish_returningid\<close> build a message from 64-bit fields; a write to
  the middleware does not throw here, so the paths that catch an exception are not taken.
\<close>

definition msg_of :: "int \<Rightarrow> KineInsert \<Rightarrow> Msg" where
  "msg_of i k =
     \<lparr>msg_id = i32 i, msg_name = ki_Name k, msg_created = i32 (ki_Created k),
      msg_deleted = i32 (ki_Deleted k), msg_create_revision = i32 (ki_CreateRevision k),
      msg_prev_revision = i32 (ki_PrevRevision k), msg_lease = i32 (ki_Lease k),
      msg_value = ki_Value k, msg_old_value = ki_OldValue k\<rparr>"

definition core_publish :: "dds \<Rightarrow> int \<Rightarrow> KineInsert \<Rightarrow> database \<Rightarrow> (int \<times> bool) \<times> database" where
  "core_publish D i k db =
     (if matched db > 0 then ((0, True), db\<lparr>reader := dds_write D (msg_of i k) (reader db)\<rparr>)
      else ((0, False), db))"

definition core_publish_returningid ::
  "dds \<Rightarrow> KineInsert \<Rightarrow> database \<Rightarrow> (int \<times> bool) \<times> database" where
  "core_publish_returningid D k db =
     (case query_maxid_and_replace D db of
        (result, db1) \<Rightarrow>
          (result, db1\<lparr>reader := dds_write D (msg_of (fst result) k) (reader db1)\<rparr>))"

definition expose_publish :: "dds \<Rightarrow> KineInsert \<Rightarrow> database \<Rightarrow> (int \<times> bool) \<times> database" where
  "expose_publish D k db =
     (let i = i32 (ki_Id k)
      in if i < 0 then core_publish_returningid D k db else core_publish D i k db)"

definition core_dispose :: "dds \<Rightarrow> Msg \<Rightarrow> database \<Rightarrow> bool \<times> database" where
  "core_dispose D m db = (True, db\<lparr>reader := dds_dispose D (msg_id m) (reader db)\<rparr>)"

definition expose_dispose :: "dds \<Rightarrow> int \<Rightarrow> database \<Rightarrow> bool \<times> database" where
  "expose_dispose D i db =
     (if msg_name (query_find_message_by_id i db) = ''empty'' then (False, db)
      else core_dispose D (query_find_message_by_id i db) db)"

definition expose_querygeneric ::
  "int32 \<Rightarrow> int32 \<Rightarrow> string \<Rightarrow> string \<Rightarrow> string \<Rightarrow> string \<Rightarrow> string \<Rightarrow> database \<Rightarrow>
   structure_generic list option" where
  "expose_querygeneric query_identifier limit p1 p2 p3 p4 p5 db =
     (if query_identifier = 1 then query_01 limit p1 p2 db
      else if query_identifier = 4 then query_04 limit p1 p2 db
      else if query_identifier = 9 then query_09 limit p1 p2 p3 p4 p5 db
      else if query_identifier = 11 then query_11 limit p1 p2 p3 db
      else Some [])"

section \<open>The service (Controller.hpp)\<close>

definition row_of :: "structure_generic \<Rightarrow> QueryGenericRow" where
  "row_of g =
     \<lparr>MaxId = sg_max_id g, CompactionPrevRevision = sg_compaction_prev_revision g,
      Theid = sg_theid g, row_Name = sg_name g, Created = sg_created g, Deleted = sg_deleted g,
      row_CreateRevision = sg_create_revision g, PrevRevision = sg_prev_revision g,
      row_Lease = sg_lease g, row_Value = sg_value g, OldValue = sg_old_value g\<rparr>"

text \<open>An exception of a filter leaves the handler, and the caller gets an error status.\<close>

definition handler_error :: go_error where
  "handler_error = RpcError ''Unexpected error in RPC handling''"

text \<open>
  The stub of a service that is reachable: no call fails in transit. The mass dispose of the
  source disposes nothing; it reports success when its first query reads no message.
\<close>

definition mass_dispose_filter :: "int \<Rightarrow> Msg \<Rightarrow> bool option" where
  "mass_dispose_filter p1 m =
     Some (msg_name m \<noteq> ''compact_rev_key'' \<and> msg_prev_revision m \<noteq> 0 \<and> msg_id m \<le> p1)"

definition dds_client :: "dds \<Rightarrow> database DatabaseCommunicationClient" where
  "dds_client D =
     \<lparr>RequestPublish = (\<lambda>k db. case expose_publish D k db of
        ((rid, ok), db1) \<Rightarrow> (Inr \<lparr>rp_Success = ok, rp_ReturningId = Some (i64 rid)\<rparr>, db1)),
      RequestDispose = (\<lambda>k db. case expose_dispose D (i32 (kd_Id k)) db of
        (ok, db1) \<Rightarrow> (Inr \<lparr>rd_Success = ok\<rparr>, db1)),
      RequestMassDisposeCompaction = (\<lambda>k db.
        (Inr \<lparr>rmd_Success = (dds_read (mass_dispose_filter (i32 (kmd_Param1 k))) (reader db) = Some []),
              rmd_DeletedRows = 0\<rparr>, db)),
      RequestQueryGeneric = (\<lambda>k db.
        case expose_querygeneric (kq_QueryIdentifier k) (i32 (kq_Limit k)) (kq_Param1 k)
               (kq_Param2 k) (kq_Param3 k) (kq_Param4 k) (kq_Param5 k) db of
          None \<Rightarrow> (Inl handler_error, db)
        | Some rows \<Rightarrow> (Inr \<lparr>Row = map row_of rows\<rparr>, db)),
      RequestQueryThree = (\<lambda>k db.
        case query_03 (kq3_Param1 k) (kq3_Param2 k) db of
          None \<Rightarrow> (Inl handler_error, db)
        | Some (i, n) \<Rightarrow> (Inr \<lparr>rq3_Id = i, rq3_Count = n\<rparr>, db)),
      RequestQueryCompactRevision = (\<lambda>db.
        (Inr \<lparr>rqc_Id = msg_id (query_compaction db)\<rparr>, db)),
      RequestQueryMaximumId = (\<lambda>db. (Inr \<lparr>rqm_Id = fst (query_maxid db)\<rparr>, db))\<rparr>"


section \<open>Facts about conversions and filters\<close>

lemma takeWhile_all: "list_all P xs \<Longrightarrow> takeWhile P xs = xs"
  by (induction xs) auto

lemma digit_not_space: "is_digit c \<Longrightarrow> \<not> is_space c"
  by (auto simp: is_digit_def is_space_def)

lemma digit_not_sign: "is_digit c \<Longrightarrow> c \<noteq> CHR ''-'' \<and> c \<noteq> CHR ''+''"
  by (auto simp: is_digit_def)

text \<open>A number survives the journey as a decimal text exactly when it has 32 bits.\<close>

lemma stoi_FormatInt:
  "stoi (FormatInt n) = (if - (2 ^ 31) \<le> n \<and> n < 2 ^ 31 then Some n else None)"
proof -
  let ?d = "\<lambda>k. nat_digits k"
  have hd: "is_digit (hd (?d k))" for k
    using nat_digits_digits [of k] nat_digits_nonempty [of k] by (cases "?d k") auto
  have keep: "dropWhile is_space (?d k) = ?d k" for k
    using digit_not_space [OF hd [of k]] nat_digits_nonempty [of k] by (cases "?d k") auto
  have tw: "takeWhile is_digit (?d k) = ?d k" for k
    by (rule takeWhile_all) (rule nat_digits_digits)
  have sp: "\<not> is_space CHR ''-''" by (simp add: is_space_def)
  show ?thesis
    using digit_not_sign [OF hd [of "nat n"]] sp
    by (auto simp: stoi_def FormatInt_def Let_def keep tw nat_digits_value nat_le_iff nat_less_iff)
qed

lemma stoi_FormatInt_range [simp]:
  "- (2 ^ 31) \<le> n \<Longrightarrow> n < 2 ^ 31 \<Longrightarrow> stoi (FormatInt n) = Some n"
  by (simp add: stoi_FormatInt)

lemma no_percentage [simp]:
  "CHR ''%'' \<notin> set s \<Longrightarrow> name_matches s m \<longleftrightarrow> msg_name m = s"
  by (simp add: name_matches_def utils_has_percentage_def)

lemma remove_percentage_snoc:
  "CHR ''%'' \<notin> set s \<Longrightarrow> utils_remove_percentage (s @ ''%'') = s"
  by (auto simp: utils_remove_percentage_def intro: filter_True)

lemma str_contains_iff: "str_contains s p \<longleftrightarrow> (\<exists>a b. s = a @ p @ b)"
proof (induction s)
  case (Cons c s)
  show ?case
  proof
    assume "str_contains (c # s) p"
    then consider "HasPrefix (c # s) p" | "str_contains s p" by auto
    then show "\<exists>a b. c # s = a @ p @ b"
    proof cases
      case 1
      then obtain t where "c # s = p @ t" by (auto simp: HasPrefix_iff)
      then have "c # s = [] @ p @ t" by simp
      then show ?thesis by blast
    next
      case 2
      with Cons obtain a b where "s = a @ p @ b" by blast
      then have "c # s = (c # a) @ p @ b" by simp
      then show ?thesis by blast
    qed
  next
    assume "\<exists>a b. c # s = a @ p @ b"
    then obtain a b where ab: "c # s = a @ p @ b" by blast
    show "str_contains (c # s) p"
    proof (cases a)
      case Nil
      with ab have "HasPrefix (c # s) p" by (simp add: HasPrefix_iff)
      then show ?thesis by simp
    next
      case (Cons x a')
      with ab have "s = a' @ p @ b" by simp
      with Cons.IH show ?thesis by auto
    qed
  qed
qed auto

text \<open>A prefix pattern matches every name that contains the prefix, at its start or not.\<close>

lemma name_matches_prefix:
  "CHR ''%'' \<notin> set p \<Longrightarrow> name_matches (p @ ''%'') m \<longleftrightarrow> (\<exists>a b. msg_name m = a @ p @ b)"
  using remove_percentage_snoc [of p]
  by (simp add: name_matches_def utils_has_percentage_def str_contains_iff)

lemma dds_read_total:
  assumes "\<And>m. m \<in> set c \<Longrightarrow> cond m = Some (P m)"
  shows "dds_read cond c = Some (take maximum_messages (filter P c))"
  using assms by (auto simp: dds_read_def cong: filter_cong)

section \<open>Facts about the queries\<close>

lemma max_scan_Max: "max_scan r ms = Max (insert r (set ms))"
proof (induction ms arbitrary: r)
  case (Cons m ms)
  have "Max (insert r (set (m # ms))) = Max (insert (max r m) (set ms))"
    by (cases "ms = []") (simp_all add: max.assoc)
  with Cons show ?case by (simp add: max_def not_less)
qed simp

text \<open>The message of the greatest identifier, the first of them if several have it.\<close>

fun newest :: "Msg \<Rightarrow> Msg list \<Rightarrow> Msg" where
  "newest b [] = b"
| "newest b (m # ms) = newest (if msg_id m > msg_id b then m else b) ms"

lemma newest_append: "newest b (xs @ ys) = newest (newest b xs) ys"
  by (induction xs arbitrary: b) auto

lemma newest_in: "newest b ms \<in> set (b # ms)"
  by (induction ms arbitrary: b) (auto split: if_splits)

lemma newest_max: "m \<in> set (b # ms) \<Longrightarrow> msg_id m \<le> msg_id (newest b ms)"
proof (induction ms arbitrary: b m)
  case (Cons x ms)
  let ?b = "if msg_id x > msg_id b then x else b"
  have "msg_id ?b \<le> msg_id (newest ?b ms)" by (rule Cons.IH) simp
  then have "msg_id b \<le> msg_id (newest ?b ms)" "msg_id x \<le> msg_id (newest ?b ms)"
    by (auto split: if_splits)
  with Cons.prems Cons.IH [of m ?b] show ?case by auto
qed simp

definition group_map :: "int32 \<Rightarrow> int32 \<Rightarrow> string \<Rightarrow> Msg list \<Rightarrow> result_map" where
  "group_map max_id cpr t_f msgs = fold (group_step max_id cpr t_f) msgs []"

lemma group_map_snoc:
  "group_map a b t (ms @ [m]) = group_step a b t m (group_map a b t ms)"
  by (simp add: group_map_def)

lemma sg_generic_of [simp]:
  "sg_theid (generic_of a b m) = msg_id m" "sg_name (generic_of a b m) = msg_name m"
  "sg_deleted (generic_of a b m) = msg_deleted m"
  by (simp_all add: generic_of_def)

text \<open>
  The entry of a name: the row of its newest message, with the flag of the first message of that
  name that was read.
\<close>

lemma group_lookup:
  "map_of (group_map a b t ms) n =
     (case filter (\<lambda>m. msg_name m = n) ms of
        [] \<Rightarrow> None
      | r # rs \<Rightarrow> Some (generic_of a b (newest r rs), t = ''f'' \<longrightarrow> msg_deleted r = 0))"
proof (induction ms rule: rev_induct)
  case (snoc x ms)
  show ?case
  proof (cases "filter (\<lambda>m. msg_name m = msg_name x) ms")
    case Nil
    with snoc show ?thesis
    proof (cases "msg_name x = n")
      case True
      with Nil snoc show ?thesis
        by (simp add: group_map_snoc group_step_def Let_def map_add_def)
    next
      case False
      with snoc show ?thesis
        by (auto simp: group_map_snoc group_step_def Let_def map_add_def update_conv'
            split: option.split)
    qed
  next
    case (Cons r rs)
    then show ?thesis
    proof (cases "msg_name x = n")
      case True
      with Cons snoc show ?thesis
        by (simp add: group_map_snoc group_step_def Let_def update_conv' newest_append)
    next
      case False
      with snoc show ?thesis
        by (auto simp: group_map_snoc group_step_def Let_def map_add_def update_conv'
            split: option.split)
    qed
  qed
qed (simp add: group_map_def)

lemma group_map_distinct: "distinct (map fst (group_map a b t ms))"
proof (induction ms rule: rev_induct)
  case (snoc x ms)
  then show ?case
    by (auto simp: group_map_snoc group_step_def Let_def map_of_eq_None_iff distinct_update
        split: option.split)
qed (simp add: group_map_def)


lemma query_common_subquery_group_map:
  "query_common_subquery ms max_id cpr t =
     sort (map (\<lambda>(_, row, _). row)
       (filter (\<lambda>(_, _, valid). valid) (group_map (i32 max_id) (i32 cpr) t ms)))"
  by (simp add: query_common_subquery_def group_map_def)

lemma set_query_common_subquery:
  "g \<in> set (query_common_subquery ms max_id cpr t) \<longleftrightarrow>
     (\<exists>n. map_of (group_map (i32 max_id) (i32 cpr) t ms) n = Some (g, True))"
  using group_map_distinct [of "i32 max_id" "i32 cpr" t ms]
  by (auto simp: query_common_subquery_group_map image_iff)

lemma query_common_subquery_iff:
  "g \<in> set (query_common_subquery ms max_id cpr t) \<longleftrightarrow>
     (\<exists>r rs. filter (\<lambda>m. msg_name m = sg_name g) ms = r # rs \<and>
        (t = ''f'' \<longrightarrow> msg_deleted r = 0) \<and>
        g = generic_of (i32 max_id) (i32 cpr) (newest r rs))"
  (is "?L \<longleftrightarrow> ?R")
proof
  assume ?L
  then obtain n where "map_of (group_map (i32 max_id) (i32 cpr) t ms) n = Some (g, True)"
    by (auto simp: set_query_common_subquery)
  then obtain r rs where f: "filter (\<lambda>m. msg_name m = n) ms = r # rs"
    and g: "g = generic_of (i32 max_id) (i32 cpr) (newest r rs)" "t = ''f'' \<longrightarrow> msg_deleted r = 0"
    by (auto simp: group_lookup split: list.splits)
  have "newest r rs \<in> set (filter (\<lambda>m. msg_name m = n) ms)" using newest_in f by simp
  then have "sg_name g = n" using g by simp
  with f g show ?R by blast
next
  assume ?R
  then obtain r rs where "filter (\<lambda>m. msg_name m = sg_name g) ms = r # rs"
    "t = ''f'' \<longrightarrow> msg_deleted r = 0" "g = generic_of (i32 max_id) (i32 cpr) (newest r rs)" by blast
  then have "map_of (group_map (i32 max_id) (i32 cpr) t ms) (sg_name g) = Some (g, True)"
    by (simp add: group_lookup)
  then show ?L by (auto simp: set_query_common_subquery)
qed

text \<open>A query for one name answers with one row at most.\<close>

lemma group_map_single:
  assumes "\<forall>m \<in> set ms. msg_name m = k"
  shows "group_map a b t ms =
    (case ms of
       [] \<Rightarrow> []
     | r # rs \<Rightarrow> [(k, generic_of a b (newest r rs), t = ''f'' \<longrightarrow> msg_deleted r = 0)])"
  using assms
proof (induction ms rule: rev_induct)
  case (snoc x ms)
  then show ?case
    unfolding group_map_snoc by (cases ms) (simp_all add: group_step_def Let_def newest_append)
qed (simp add: group_map_def)

lemma query_common_subquery_single:
  assumes "\<forall>m \<in> set ms. msg_name m = k"
  shows "query_common_subquery ms max_id cpr t =
    (case ms of
       [] \<Rightarrow> []
     | r # rs \<Rightarrow>
         (if t = ''f'' \<longrightarrow> msg_deleted r = 0
          then [generic_of (i32 max_id) (i32 cpr) (newest r rs)] else []))"
  by (simp add: query_common_subquery_group_map group_map_single [OF assms] split: list.split)

text \<open>
  What the SQL text that these queries replace means: of every name the row of the greatest
  identifier, unless it is a deletion and deletions are not wanted, by ascending identifier.
\<close>

definition current_rows :: "bool \<Rightarrow> Msg list \<Rightarrow> Msg list" where
  "current_rows include_deleted ms =
     sort_key msg_id
       (filter (\<lambda>m. (\<forall>x \<in> set ms. msg_name x = msg_name m \<longrightarrow> msg_id x \<le> msg_id m) \<and>
          (include_deleted \<or> msg_deleted m = 0)) ms)"

lemma generic_of_le:
  assumes "distinct (map msg_id ms)" "x \<in> set ms" "y \<in> set ms"
  shows "generic_of a b x \<le> generic_of a b y \<longleftrightarrow> msg_id x \<le> msg_id y"
proof (cases "msg_id x = msg_id y")
  case True
  with assms have "x = y" by (auto simp: distinct_map dest: inj_onD)
  then show ?thesis by simp
next
  case False
  then show ?thesis by (auto simp: less_eq_structure_generic_def sg_tie_def generic_of_def)
qed

lemma sorted_generic_of:
  assumes "distinct (map msg_id ms)" "set xs \<subseteq> set ms" "sorted (map msg_id xs)"
  shows "sorted (map (generic_of a b) xs)"
  using assms(2,3)
  by (induction xs) (auto simp: generic_of_le [OF assms(1)])


lemma newest_greatest:
  assumes "distinct (map msg_id ms)" "filter (\<lambda>m. msg_name m = n) ms = r # rs"
  shows "newest r rs = m \<longleftrightarrow>
    m \<in> set ms \<and> msg_name m = n \<and> (\<forall>x \<in> set ms. msg_name x = n \<longrightarrow> msg_id x \<le> msg_id m)"
proof -
  have set: "x \<in> set (r # rs) \<longleftrightarrow> x \<in> set ms \<and> msg_name x = n" for x
    using assms(2) by (metis (mono_tags, lifting) mem_Collect_eq set_filter)
  have inj: "x = y" if "x \<in> set ms" "y \<in> set ms" "msg_id x = msg_id y" for x y
    using that assms(1) by (auto simp: distinct_map dest: inj_onD)
  have N: "newest r rs \<in> set ms" "msg_name (newest r rs) = n"
    using newest_in [of r rs] set by blast+
  have M: "msg_id x \<le> msg_id (newest r rs)" if "x \<in> set ms" "msg_name x = n" for x
    using that newest_max [of x r rs] set by blast
  show ?thesis using N M inj by (metis order_antisym)
qed

lemma group_map_name:
  "(k, row, v) \<in> set (group_map a b t ms) \<Longrightarrow> sg_name row = k"
proof -
  assume "(k, row, v) \<in> set (group_map a b t ms)"
  then have "map_of (group_map a b t ms) k = Some (row, v)"
    by (rule map_of_is_SomeI [OF group_map_distinct])
  then obtain r rs where "filter (\<lambda>m. msg_name m = k) ms = r # rs" "row = generic_of a b (newest r rs)"
    by (auto simp: group_lookup split: list.splits)
  then show ?thesis using newest_in [of r rs] by (metis (mono_tags, lifting) mem_Collect_eq set_filter sg_generic_of(2))
qed

lemma distinct_query_common_subquery: "distinct (query_common_subquery ms max_id cpr t)"
proof -
  let ?G = "filter (\<lambda>(_, _, valid). valid) (group_map (i32 max_id) (i32 cpr) t ms)"
  have "map sg_name (map (\<lambda>(_, row, _). row) ?G) = map fst ?G"
    by (auto dest: group_map_name)
  then have "distinct (map sg_name (map (\<lambda>(_, row, _). row) ?G))"
    by (simp only: distinct_map_filter [OF group_map_distinct])
  then have "distinct (map (\<lambda>(_, row, _). row) ?G)"
    by (rule distinct_map [THEN iffD1, THEN conjunct1])
  then show ?thesis by (simp add: query_common_subquery_group_map)
qed

text \<open>The query agrees with the SQL text when deletions are wanted, or when none is read.\<close>

lemma query_common_subquery_current:
  assumes d: "distinct (map msg_id ms)" and t: "t \<noteq> ''f'' \<or> (\<forall>m \<in> set ms. msg_deleted m = 0)"
  shows "query_common_subquery ms max_id cpr t =
    map (generic_of (i32 max_id) (i32 cpr)) (current_rows (t \<noteq> ''f'') ms)"
proof (rule sorted_distinct_set_unique)
  let ?g = "generic_of (i32 max_id) (i32 cpr)"
  let ?P = "\<lambda>m. \<forall>x \<in> set ms. msg_name x = msg_name m \<longrightarrow> msg_id x \<le> msg_id m"
  have cur: "m \<in> set (current_rows (t \<noteq> ''f'') ms) \<longleftrightarrow> m \<in> set ms \<and> ?P m" for m
    using t by (auto simp: current_rows_def)
  show "sorted (query_common_subquery ms max_id cpr t)"
    by (simp add: query_common_subquery_def Let_def)
  show "sorted (map ?g (current_rows (t \<noteq> ''f'') ms))"
    by (rule sorted_generic_of [OF d]) (auto simp: current_rows_def)
  show "set (query_common_subquery ms max_id cpr t) = set (map ?g (current_rows (t \<noteq> ''f'') ms))"
  proof (intro equalityI subsetI)
    fix g assume "g \<in> set (query_common_subquery ms max_id cpr t)"
    then obtain r rs where f: "filter (\<lambda>m. msg_name m = sg_name g) ms = r # rs"
      and g: "g = ?g (newest r rs)" by (auto simp: query_common_subquery_iff)
    have "newest r rs \<in> set ms \<and> ?P (newest r rs)"
      using newest_greatest [OF d f, of "newest r rs"] by auto
    then show "g \<in> set (map ?g (current_rows (t \<noteq> ''f'') ms))" using g cur by auto
  next
    fix g assume "g \<in> set (map ?g (current_rows (t \<noteq> ''f'') ms))"
    then obtain m where m: "m \<in> set ms" "?P m" and g: "g = ?g m" using cur by auto
    then obtain r rs where f: "filter (\<lambda>x. msg_name x = msg_name m) ms = r # rs"
      by (cases "filter (\<lambda>x. msg_name x = msg_name m) ms") (auto simp: filter_empty_conv)
    then have "r \<in> set ms" by (metis (mono_tags, lifting) filter_eq_ConsD in_set_conv_decomp)
    then show "g \<in> set (query_common_subquery ms max_id cpr t)"
      using newest_greatest [OF d f, of m] m t f by (auto simp: query_common_subquery_iff g)
  qed
  show "distinct (query_common_subquery ms max_id cpr t)" by (rule distinct_query_common_subquery)
  have "distinct (map msg_id (current_rows (t \<noteq> ''f'') ms))"
    using d by (auto simp: current_rows_def distinct_map inj_on_def)
  then have "distinct (map sg_theid (map ?g (current_rows (t \<noteq> ''f'') ms)))" by (simp add: comp_def)
  then show "distinct (map ?g (current_rows (t \<noteq> ''f'') ms))" by (rule distinct_map [THEN iffD1, THEN conjunct1])
qed


section \<open>Invariant\<close>

text \<open>
  The invariant of a database whose rows have all been inserted with a fresh identifier, and
  which is small enough that a read returns every sample.
\<close>

definition max_id_of :: "database \<Rightarrow> int" where
  "max_id_of db = fst (query_maxid db)"

definition dds_ok :: "database \<Rightarrow> bool" where
  "dds_ok db \<longleftrightarrow>
     distinct (map msg_id (reader db)) \<and>
     (\<forall>m \<in> set (reader db). 0 < msg_id m \<and> msg_id m \<le> max_id_of db) \<and>
     length (reader db) \<le> maximum_messages \<and>
     length (reader_maxid db) \<le> maximum_messages \<and> distinct (reader_maxid db) \<and>
     max_id_of db < 2 ^ 31 \<and> matched db > 0 \<and> matched_maxid db > 0"

text \<open>One more row fits.\<close>

definition dds_room :: "database \<Rightarrow> bool" where
  "dds_room db \<longleftrightarrow> length (reader db) < maximum_messages \<and> max_id_of db + 1 < 2 ^ 31"

lemma max_id_of_nonneg: "0 \<le> max_id_of db"
  by (simp add: max_id_of_def query_maxid_def Let_def max_scan_Max)

lemma max_id_of_eq:
  "length (reader_maxid db) \<le> maximum_messages \<Longrightarrow>
     max_id_of db = max_scan 0 (reader_maxid db)"
  by (simp add: max_id_of_def query_maxid_def Let_def)

lemma dds_ok_read:
  assumes "dds_ok db" "\<And>m. cond m = Some (P m)"
  shows "dds_read cond (reader db) = Some (filter P (reader db))"
proof -
  have "length (filter P (reader db)) \<le> maximum_messages"
    using assms(1) length_filter_le [of P "reader db"] unfolding dds_ok_def by (meson le_trans)
  then show ?thesis using dds_read_total [of "reader db" cond P] assms(2) by simp
qed

lemma length_distinct_set:
  assumes "distinct (map f xs)" "set xs \<subseteq> insert m (set ys)"
  shows "length xs \<le> Suc (length ys)"
proof -
  have "length xs = card (set xs)"
    using assms(1) by (simp add: distinct_map distinct_card)
  also have "\<dots> \<le> card (set (m # ys))" using assms(2) by (intro card_mono) auto
  also have "\<dots> \<le> length (m # ys)" by (rule card_length)
  finally show ?thesis by simp
qed

text \<open>Inserting a row: it gets the next identifier, and every other row stays.\<close>

lemma publish_fresh:
  assumes D: "dds_keyed D" and ok: "dds_ok db" "dds_room db" and k: "ki_Id k = -1"
  obtains db' where "expose_publish D k db = ((max_id_of db + 1, False), db')"
    and "dds_ok db'" and "max_id_of db' = max_id_of db + 1"
    and "set (reader db') = insert (msg_of (max_id_of db + 1) k) (set (reader db))"
proof -
  let ?M = "max_id_of db + 1"
  let ?m = "msg_of ?M k"
  let ?db' = "db\<lparr>reader_maxid := dds_write_maxid D ?M [], reader := dds_write D ?m (reader db)\<rparr>"
  have M: "0 \<le> max_id_of db" "?M < 2 ^ 31"
    using max_id_of_nonneg ok by (auto simp: dds_room_def)
  have id: "msg_id ?m = ?M" using M by (simp add: msg_of_def wrap_simps)
  have pub: "expose_publish D k db = ((?M, False), ?db')"
    using ok M k max_id_of_eq [of db]
    by (simp add: expose_publish_def core_publish_returningid_def query_maxid_and_replace_def
        dds_ok_def Let_def wrap_simps)
  have w: "dds_write_maxid D ?M [] = [?M]"
  proof -
    have "distinct (dds_write_maxid D ?M [])" "set (dds_write_maxid D ?M []) = {?M}"
      using D by (auto simp: dds_keyed_def)
    then show ?thesis
      by (cases "dds_write_maxid D ?M []") (auto simp: subset_singleton_iff)
  qed
  have maxid: "max_id_of ?db' = ?M"
    using M by (simp add: max_id_of_eq w maximum_messages_def)
  have keep: "{x \<in> set (reader db). msg_id x \<noteq> msg_id ?m} = set (reader db)"
    using ok id by (auto simp: dds_ok_def)
  have rd: "distinct (map msg_id (reader ?db'))" "set (reader ?db') = insert ?m (set (reader db))"
    using D ok keep by (auto simp: dds_keyed_def dds_ok_def)
  moreover have "length (reader ?db') \<le> maximum_messages"
    using length_distinct_set [OF rd(1), of ?m "reader db"] rd(2) ok by (auto simp: dds_room_def)
  moreover have "\<forall>m \<in> set (reader ?db'). 0 < msg_id m \<and> msg_id m \<le> max_id_of ?db'"
    using rd(2) ok id M unfolding maxid by (auto simp: dds_ok_def)
  ultimately have "dds_ok ?db'"
    using ok M maxid w by (simp add: dds_ok_def maximum_messages_def)
  with that pub maxid rd show thesis by blast
qed


text \<open>The number of groups is the number of names.\<close>

lemma length_query_common_subquery:
  assumes "t \<noteq> ''f''"
  shows "length (query_common_subquery ms max_id cpr t) = card (msg_name ` set ms)"
proof -
  let ?G = "group_map (i32 max_id) (i32 cpr) t ms"
  have "valid" if "(k, row, valid) \<in> set ?G" for k row valid
    using map_of_is_SomeI [OF group_map_distinct that] assms
    by (auto simp: group_lookup split: list.splits)
  then have "filter (\<lambda>(_, _, valid). valid) ?G = ?G" by (intro filter_True) auto
  then have "length (query_common_subquery ms max_id cpr t) = length ?G"
    by (simp add: query_common_subquery_group_map)
  also have "\<dots> = card (fst ` set ?G)"
    using distinct_card [OF group_map_distinct [of "i32 max_id" "i32 cpr" t ms]] by simp
  also have "fst ` set ?G = msg_name ` set ms"
  proof -
    have "k \<in> fst ` set ?G \<longleftrightarrow> k \<in> msg_name ` set ms" for k
    proof -
      have "k \<in> fst ` set ?G \<longleftrightarrow> map_of ?G k \<noteq> None" by (simp add: map_of_eq_None_iff)
      also have "\<dots> \<longleftrightarrow> filter (\<lambda>m. msg_name m = k) ms \<noteq> []"
        by (simp add: group_lookup split: list.split)
      also have "\<dots> \<longleftrightarrow> k \<in> msg_name ` set ms" by (auto simp: filter_empty_conv)
      finally show ?thesis .
    qed
    then show ?thesis by blast
  qed
  finally show ?thesis .
qed

lemma query_01_ascending:
  assumes d: "distinct (map msg_id (reader db))" and q: "query_01 limit p0 p1 db = Some gs"
  shows "sorted_wrt (<) (map sg_theid gs)"
    and "g \<in> set gs \<Longrightarrow> \<exists>n m. stoi p1 = Some n \<and> n < sg_theid g \<and> m \<in> set (reader db) \<and> sg_theid g = msg_id m"
proof -
  let ?g = "generic_of (i32 (fst (query_find_common_values db))) (i32 (snd (query_find_common_values db)))"
  let ?ms = "take maximum_messages (filter (\<lambda>m. filter_query01 p0 p1 m = Some True) (reader db))"
  have gs: "gs = apply_limit limit (sort (map ?g ?ms))"
    using q by (auto simp: query_01_def dds_read_def bind_Some_iff split: prod.splits if_splits)
  have dm: "distinct (map msg_id ?ms)"
    using d by (simp add: take_map [symmetric] distinct_map_filter)
  have "sort (map ?g ?ms) = map ?g (sort_key msg_id ?ms)"
  proof (rule properties_for_sort)
    show "sorted (map ?g (sort_key msg_id ?ms))" by (rule sorted_generic_of [OF dm]) auto
  qed simp
  moreover have "sorted_wrt (<) (map msg_id (sort_key msg_id ?ms))"
    using dm by (simp add: strict_sorted_iff distinct_map)
  ultimately have "sorted_wrt (<) (map sg_theid (sort (map ?g ?ms)))" by (simp add: comp_def)
  then show "sorted_wrt (<) (map sg_theid gs)"
    unfolding gs apply_limit_def by (simp add: take_map [symmetric] sorted_wrt_take)
  assume "g \<in> set gs"
  then have "g \<in> set (map ?g ?ms)"
    unfolding gs apply_limit_def by (auto split: if_splits dest: in_set_takeD)
  then show "\<exists>n m. stoi p1 = Some n \<and> n < sg_theid g \<and> m \<in> set (reader db) \<and> sg_theid g = msg_id m"
    by (fastforce simp: filter_query01_def and_then_def dest!: in_set_takeD split: if_splits)
qed

lemma query_01_rows:
  assumes ok: "dds_ok db" and n: "- (2 ^ 31) \<le> n" "n < 2 ^ 31"
  shows "query_01 limit p (FormatInt n) db = Some (apply_limit limit
    (map (generic_of (max_id_of db) (i32 (msg_prev_revision (query_compaction db))))
      (sort_key msg_id (filter (\<lambda>m. name_matches p m \<and> n < msg_id m) (reader db)))))"
proof -
  let ?P = "\<lambda>m. name_matches p m \<and> n < msg_id m"
  let ?g = "generic_of (max_id_of db) (i32 (msg_prev_revision (query_compaction db)))"
  have d: "distinct (map msg_id (reader db))" using ok by (simp add: dds_ok_def)
  have rd: "dds_read (filter_query01 p (FormatInt n)) (reader db) = Some (filter ?P (reader db))"
    using n by (intro dds_ok_read [OF ok]) (simp add: filter_query01_def and_then_def)
  have max: "i32 (max_id_of db) = max_id_of db"
    using ok max_id_of_nonneg [of db] by (simp add: dds_ok_def wrap_simps)
  have st: "sorted (map ?g (sort_key msg_id (filter ?P (reader db))))"
    by (rule sorted_generic_of [OF d]) auto
  have ms: "mset (map ?g (sort_key msg_id (filter ?P (reader db)))) =
      mset (map ?g (filter ?P (reader db)))" by simp
  have "sort (map ?g (filter ?P (reader db))) = map ?g (sort_key msg_id (filter ?P (reader db)))"
    using ms st by (rule properties_for_sort)
  then show ?thesis
    using rd max by (simp add: query_01_def query_find_common_values_def max_id_of_def [symmetric])
qed

section \<open>A middleware\<close>

text \<open>A middleware that returns the samples in the order of their first write.\<close>

definition in_order :: dds where
  "in_order =
     \<lparr>dds_write = (\<lambda>m c.
        if msg_id m \<in> set (map msg_id c)
        then map (\<lambda>x. if msg_id x = msg_id m then m else x) c else c @ [m]),
      dds_dispose = (\<lambda>i c. filter (\<lambda>x. msg_id x \<noteq> i) c),
      dds_write_maxid = (\<lambda>n c. if n \<in> set c then c else c @ [n])\<rparr>"

lemma in_order_keyed: "dds_keyed in_order"
proof -
  have ids: "map msg_id (map (\<lambda>x. if msg_id x = msg_id m then m else x) c) = map msg_id c" for m c
    by simp
  have "distinct (map msg_id (dds_write in_order m c)) \<and>
      set (dds_write in_order m c) = insert m {x \<in> set c. msg_id x \<noteq> msg_id m}"
    if "distinct (map msg_id c)" for m c
    using that ids [of m c] by (auto simp: in_order_def image_iff simp del: map_map)
  moreover have "distinct (map msg_id (dds_dispose in_order i c)) \<and>
      set (dds_dispose in_order i c) = {x \<in> set c. msg_id x \<noteq> i}"
    if "distinct (map msg_id c)" for i c
    using that by (simp add: in_order_def distinct_map_filter)
  moreover have "distinct (dds_write_maxid in_order n c) \<and>
      set (dds_write_maxid in_order n c) = insert n (set c)" if "distinct c" for n c
    using that by (auto simp: in_order_def)
  ultimately show ?thesis by (simp add: dds_keyed_def)
qed

section \<open>Properties\<close>


text \<open>A row of a name with its identifier, and a database that holds some rows.\<close>

definition row_msg :: "int \<Rightarrow> string \<Rightarrow> int \<Rightarrow> Msg" where
  "row_msg i name del =
     \<lparr>msg_id = i, msg_name = name, msg_created = 1 - del, msg_deleted = del, msg_create_revision = 0,
      msg_prev_revision = 0, msg_lease = 0, msg_value = ''v'', msg_old_value = []\<rparr>"

lemma row_msg_simps [simp]:
  "msg_id (row_msg i n d) = i" "msg_name (row_msg i n d) = n" "msg_deleted (row_msg i n d) = d"
  "msg_created (row_msg i n d) = 1 - d" "msg_create_revision (row_msg i n d) = 0"
  "msg_prev_revision (row_msg i n d) = 0" "msg_lease (row_msg i n d) = 0"
  "msg_value (row_msg i n d) = ''v''" "msg_old_value (row_msg i n d) = []"
  by (simp_all add: row_msg_def)

definition database_of :: "Msg list \<Rightarrow> int \<Rightarrow> database" where
  "database_of rows n = \<lparr>reader = rows, reader_maxid = [n], matched = 1, matched_maxid = 1\<rparr>"

lemma database_of_simps [simp]:
  "reader (database_of rows n) = rows" "reader_maxid (database_of rows n) = [n]"
  "matched (database_of rows n) = 1" "matched_maxid (database_of rows n) = 1"
  by (simp_all add: database_of_def)

lemma max_id_database_of [simp]: "0 \<le> n \<Longrightarrow> max_id_of (database_of rows n) = n"
  by (simp add: max_id_of_eq maximum_messages_def)


text \<open>
  C12: query 1, which the poller and every watch start from, returns every row of the pattern after
  the revision, by ascending identifier and cut at the limit; the revision travels as a decimal
  text.
\<close>

theorem rows_after_revision:
  assumes "dds_ok db" "- (2 ^ 31) \<le> n" "n < 2 ^ 31"
  shows "query_01 limit p (FormatInt n) db = Some (apply_limit limit
    (map (generic_of (max_id_of db) (i32 (msg_prev_revision (query_compaction db))))
      (sort_key msg_id (filter (\<lambda>m. name_matches p m \<and> n < msg_id m) (reader db)))))"
  using assms by (rule query_01_rows)

theorem rows_after_revision_witness:
  "query_01 0 ''%'' (FormatInt 1) (database_of [row_msg 3 ''/a'' 1, row_msg 1 ''/a'' 0, row_msg 2 ''/b'' 0] 3) =
     Some [generic_of 3 0 (row_msg 2 ''/b'' 0), generic_of 3 0 (row_msg 3 ''/a'' 1)]"
proof -
  let ?db = "database_of [row_msg 3 ''/a'' 1, row_msg 1 ''/a'' 0, row_msg 2 ''/b'' 0] 3"
  have "dds_ok ?db" by (simp add: dds_ok_def maximum_messages_def)
  moreover have "query_compaction ?db = empty_msg"
    by (simp add: query_compaction_def dds_read_def filter_query_compaction_def)
  moreover have "name_matches ''%'' m" for m
    using name_matches_prefix [of "[]" m] by auto
  ultimately show ?thesis
    using rows_after_revision [of ?db 1 0 "''%''"]
    by (simp add: apply_limit_def empty_msg_def wrap_simps)
qed

text \<open>
  With a percent sign at its end a pattern selects the rows whose name contains the text before
  it, at any place: listing a directory also lists keys that hold its name further inside.
\<close>

lemma directory_is_substring:
  assumes "dds_ok db" "CHR ''%'' \<notin> set p" "t \<noteq> ''f''" "limit \<le> 0"
  shows "query_04 limit (p @ ''%'') t db = Some
    (map (generic_of (max_id_of db) (i32 (msg_prev_revision (query_compaction db))))
      (current_rows True (filter (\<lambda>m. \<exists>a b. msg_name m = a @ p @ b) (reader db))))"
proof -
  let ?ms = "filter (\<lambda>m. \<exists>a b. msg_name m = a @ p @ b) (reader db)"
  have "dds_read (filter_query04 (p @ ''%'')) (reader db) = Some ?ms"
    using assms(2) by (intro dds_ok_read [OF assms(1)]) (simp add: filter_query04_def name_matches_prefix)
  moreover have "distinct (map msg_id ?ms)"
    using assms(1) by (simp add: dds_ok_def distinct_map_filter)
  moreover have "i32 (max_id_of db) = max_id_of db"
    using assms(1) max_id_of_nonneg [of db] by (simp add: dds_ok_def wrap_simps)
  ultimately show ?thesis
    using assms(3,4)
    by (simp add: query_04_def query_find_common_values_def query_common_subquery_current apply_limit_def
        max_id_of_def [symmetric])
qed

text \<open>
  C13: an insertion gets the identifier after the greatest one and adds exactly its row; the
  database stays well formed, whatever order the middleware keeps its samples in.
\<close>

theorem insert_gets_next_id:
  assumes "dds_keyed D" "dds_ok db" "dds_room db" "ki_Id k = -1"
  shows "\<exists>db'. expose_publish D k db = ((max_id_of db + 1, False), db') \<and> dds_ok db' \<and>
     max_id_of db' = max_id_of db + 1 \<and>
     set (reader db') = insert (msg_of (max_id_of db + 1) k) (set (reader db)) \<and>
     length (reader db') = Suc (length (reader db))"
proof -
  obtain db' where db': "expose_publish D k db = ((max_id_of db + 1, False), db')" "dds_ok db'"
      "max_id_of db' = max_id_of db + 1"
    and set: "set (reader db') = insert (msg_of (max_id_of db + 1) k) (set (reader db))"
    using publish_fresh [OF assms] by blast
  have "msg_of (max_id_of db + 1) k \<notin> set (reader db)"
  proof
    assume "msg_of (max_id_of db + 1) k \<in> set (reader db)"
    then have "msg_id (msg_of (max_id_of db + 1) k) \<le> max_id_of db" using assms(2) by (auto simp: dds_ok_def)
    then show False using assms(3) max_id_of_nonneg [of db] by (simp add: msg_of_def dds_room_def wrap_simps)
  qed
  moreover have "distinct (reader db')" "distinct (reader db)"
    using db'(2) assms(2) by (simp_all add: dds_ok_def distinct_map)
  ultimately have "length (reader db') = Suc (length (reader db))"
    using set by (metis card_insert_disjoint distinct_card finite_set)
  with db' set show ?thesis by blast
qed


text \<open>The row that a client asks to insert.\<close>

definition insert_msg :: "string \<Rightarrow> bytes \<Rightarrow> KineInsert" where
  "insert_msg name val =
     \<lparr>ki_Id = -1, ki_Name = name, ki_Created = 1, ki_Deleted = 0, ki_CreateRevision = 0,
      ki_PrevRevision = 0, ki_Lease = 0, ki_Value = val, ki_OldValue = []\<rparr>"

theorem insert_gets_next_id_witness:
  "\<exists>db'. expose_publish in_order (insert_msg ''/b'' ''v'') (database_of [row_msg 1 ''/a'' 0] 1) =
       ((2, False), db') \<and> dds_ok db' \<and> length (reader db') = 2"
proof -
  let ?db = "database_of [row_msg 1 ''/a'' 0] 1"
  have "dds_ok ?db" "dds_room ?db" by (simp_all add: dds_ok_def dds_room_def maximum_messages_def)
  from insert_gets_next_id [OF in_order_keyed this, of "insert_msg ''/b'' ''v''"]
  show ?thesis by (auto simp: insert_msg_def)
qed

end
