(* ===== verification/Generic.thy ===== *)
theory Generic
  imports Interfaces
begin

text \<open>
  The SQL dialect of \<open>pkg/drivers/generic\<close> (\<open>generic.go\<close>, \<open>tx.go\<close>), rewritten by this
  repository so that every operation is a remote call to the DDS database. The functions take
  the package variables of \<open>commsdb\<close> as their first argument and thread the remote world.
  \<open>generic_dialect\<close> at the end is the record that \<open>sqllog\<close> is given.
\<close>

section \<open>Remote calls (tx.go)\<close>

text \<open>
  \<open>*response.ReturningId\<close> dereferences an optional field of the message: a reply that lacks
  it makes the call panic.
\<close>

definition ConnectDdsRequestPublish ::
  "'w commsdb \<Rightarrow> int64 \<Rightarrow> string \<Rightarrow> int64 \<Rightarrow> int64 \<Rightarrow> int64 \<Rightarrow> int64 \<Rightarrow> int64 \<Rightarrow> bytes \<Rightarrow> bytes \<Rightarrow>
   ('w, bool \<times> int64 \<times> go_error option) go" where
  "ConnectDdsRequestPublish C ident name created deleted createRevision prevRevision lease value oldValue w =
     (case RequestPublish (ClientPublisher C)
        \<lparr>ki_Id = ident, ki_Name = name, ki_Created = created, ki_Deleted = deleted,
         ki_CreateRevision = createRevision, ki_PrevRevision = prevRevision, ki_Lease = lease,
         ki_Value = value, ki_OldValue = oldValue\<rparr> w of
        (Inl err, w1) \<Rightarrow> Some ((False, -1, Some err), w1)
      | (Inr response, w1) \<Rightarrow>
          (case rp_ReturningId response of
             None \<Rightarrow> None
           | Some rid \<Rightarrow> Some ((True, rid, None), w1)))"

definition ConnectDdsRequestDispose ::
  "'w commsdb \<Rightarrow> int64 \<Rightarrow> ('w, bool \<times> go_error option) go" where
  "ConnectDdsRequestDispose C idToDispose w =
     (case RequestDispose (ClientPublisher C) \<lparr>kd_Id = idToDispose\<rparr> w of
        (Inl err, w1) \<Rightarrow> Some ((False, Some err), w1)
      | (Inr response, w1) \<Rightarrow> Some ((rd_Success response, None), w1))"

definition ConnectDdsRequestMassDisposeCompaction ::
  "'w commsdb \<Rightarrow> int64 \<Rightarrow> int64 \<Rightarrow> ('w, bool \<times> int64 \<times> go_error option) go" where
  "ConnectDdsRequestMassDisposeCompaction C param1 param2 w =
     (case RequestMassDisposeCompaction (Client C)
             \<lparr>kmd_Param1 = param1, kmd_Param2 = param2\<rparr> w of
        (Inl err, w1) \<Rightarrow> Some ((False, -1, Some err), w1)
      | (Inr response, w1) \<Rightarrow>
          Some ((rmd_Success response, rmd_DeletedRows response, None), w1))"

definition ConnectDdsRequestQueryGeneric ::
  "'w commsdb \<Rightarrow> int64 \<Rightarrow> string \<Rightarrow> string \<Rightarrow> string \<Rightarrow> string \<Rightarrow> string \<Rightarrow> int64 \<Rightarrow>
   ('w, QueryGenericRow list \<times> go_error option) go" where
  "ConnectDdsRequestQueryGeneric C queryIdentifier param1 param2 param3 param4 param5 limit w =
     (let limit' = (if limit = 0 then -1 else limit);
          currentClient = (if queryIdentifier = 4 then ClientQuery04 C else Client C)
      in case RequestQueryGeneric currentClient
           \<lparr>kq_QueryIdentifier = i32 queryIdentifier, kq_Param1 = param1, kq_Param2 = param2,
            kq_Param3 = param3, kq_Param4 = param4, kq_Param5 = param5, kq_Limit = limit'\<rparr> w of
           (Inl err, w1) \<Rightarrow> Some (([], Some err), w1)
         | (Inr response, w1) \<Rightarrow> Some ((Row response, None), w1))"

definition ConnectDdsRequestQueryThree ::
  "'w commsdb \<Rightarrow> string \<Rightarrow> string \<Rightarrow> ('w, int64 \<times> int64 \<times> go_error option) go" where
  "ConnectDdsRequestQueryThree C param1 param2 w =
     (case RequestQueryThree (Client C) \<lparr>kq3_Param1 = param1, kq3_Param2 = param2\<rparr> w of
        (Inl err, w1) \<Rightarrow> Some ((-1, -1, Some err), w1)
      | (Inr response, w1) \<Rightarrow> Some ((rq3_Id response, rq3_Count response, None), w1))"

definition ConnectDdsRequestQueryCompactRevision ::
  "'w commsdb \<Rightarrow> ('w, int64 \<times> go_error option) go" where
  "ConnectDdsRequestQueryCompactRevision C w =
     (case RequestQueryCompactRevision (ClientSmallQueries C) w of
        (Inl err, w1) \<Rightarrow> Some ((-1, Some err), w1)
      | (Inr response, w1) \<Rightarrow> Some ((rqc_Id response, None), w1))"

definition ConnectDdsRequestQueryMaximumID ::
  "'w commsdb \<Rightarrow> ('w, int64 \<times> go_error option) go" where
  "ConnectDdsRequestQueryMaximumID C w =
     (case RequestQueryMaximumId (ClientSmallQueries C) w of
        (Inl err, w1) \<Rightarrow> Some ((-1, Some err), w1)
      | (Inr response, w1) \<Rightarrow> Some ((rqm_Id response, None), w1))"

lemmas remote_defs =
  ConnectDdsRequestPublish_def ConnectDdsRequestDispose_def
  ConnectDdsRequestMassDisposeCompaction_def ConnectDdsRequestQueryGeneric_def
  ConnectDdsRequestQueryThree_def ConnectDdsRequestQueryCompactRevision_def
  ConnectDdsRequestQueryMaximumID_def

section \<open>The dialect (generic.go)\<close>

text \<open>Of the struct \<open>Generic\<close>, only the texts of the statements that \<open>tx.go\<close> executes.\<close>

record Generic =
  CompactSQL :: string
  UpdateCompactSQL :: string

text \<open>
  \<open>q\<close> rewrites the placeholders of a query: every \<open>?\<close> becomes the parameter text, followed by
  its number when the dialect numbers its placeholders.
\<close>

fun q_replace :: "string \<Rightarrow> bool \<Rightarrow> int \<Rightarrow> string \<Rightarrow> string" where
  "q_replace param numbered n [] = []"
| "q_replace param numbered n (c # sql) =
     (if c = CHR ''?'' then
        (if numbered then param @ FormatInt (n + 1) @ q_replace param numbered (n + 1) sql
         else param @ q_replace param numbered n sql)
      else c # q_replace param numbered n sql)"

definition q :: "string \<Rightarrow> string \<Rightarrow> bool \<Rightarrow> string" where
  "q sql param numbered =
     (if param = ''?'' \<and> \<not> numbered then sql else q_replace param numbered 0 sql)"

record ConnectionPoolConfig =
  MaxIdle :: int
  MaxOpen :: int
  MaxLifetime :: int64

definition defaultMaxIdleConns :: int where
  "defaultMaxIdleConns = 2"

text \<open>The configuration that \<open>configureConnectionPooling\<close> hands to the connection pool.\<close>

definition configureConnectionPooling :: "ConnectionPoolConfig \<Rightarrow> ConnectionPoolConfig" where
  "configureConnectionPooling cfg =
     (if MaxIdle cfg < 0 then cfg\<lparr>MaxIdle := 0\<rparr>
      else if MaxIdle cfg = 0 then cfg\<lparr>MaxIdle := defaultMaxIdleConns\<rparr>
      else cfg)"

text \<open>
  \<open>execute\<close> runs a statement up to 20 times, as long as the driver says that its error can be
  retried. \<open>exec\<close> stands for \<open>DB.ExecContext\<close>, \<open>retry\<close> for the function field \<open>Retry\<close>
  (\<open>None\<close> for nil); the last result is returned when every attempt has failed.
\<close>

fun execute_tries ::
  "nat \<Rightarrow> ('w \<Rightarrow> (int64 \<times> go_error option) \<times> 'w) \<Rightarrow> (go_error \<Rightarrow> bool) option \<Rightarrow>
   int64 \<times> go_error option \<Rightarrow> 'w \<Rightarrow> (int64 \<times> go_error option) \<times> 'w" where
  "execute_tries 0 exec retry prev w = (prev, w)"
| "execute_tries (Suc n) exec retry prev w =
     (case exec w of ((result, err), w1) \<Rightarrow>
        (case (err, retry) of
           (Some e, Some can_retry) \<Rightarrow>
             (if can_retry e then execute_tries n exec retry (result, err) w1
              else ((result, err), w1))
         | _ \<Rightarrow> ((result, err), w1)))"

definition execute ::
  "('w \<Rightarrow> (int64 \<times> go_error option) \<times> 'w) \<Rightarrow> (go_error \<Rightarrow> bool) option \<Rightarrow>
   'w \<Rightarrow> (int64 \<times> go_error option) \<times> 'w" where
  "execute exec retry w = execute_tries 20 exec retry (0, None) w"

definition parseIcludeDelete :: "bool \<Rightarrow> string" where
  "parseIcludeDelete includeDelete = (if includeDelete then ''t'' else ''f'')"

definition Generic_GetCompactRevision :: "'w commsdb \<Rightarrow> ('w, int64 \<times> go_error option) go" where
  "Generic_GetCompactRevision C w = do {
     ((res, err), w1) \<leftarrow> ConnectDdsRequestQueryCompactRevision C w;
     if err \<noteq> None then Some ((res, err), w1)
     else if res < 0 then Some ((0, None), w1)
     else Some ((res, err), w1)
   }"

text \<open>The error of the first call is overwritten by that of the second.\<close>

definition Generic_SetCompactRevision :: "'w commsdb \<Rightarrow> int64 \<Rightarrow> ('w, go_error option) go" where
  "Generic_SetCompactRevision C revision w = do {
     ((ident, _), w1) \<leftarrow> ConnectDdsRequestQueryCompactRevision C w;
     ((succeeded, _, err), w2) \<leftarrow>
       ConnectDdsRequestPublish C ident ''compact_rev_key'' 1 0 0 revision 0 [CHR 0x5C, CHR ''x''] [] w1;
     if err \<noteq> None then Some (err, w2)
     else if \<not> succeeded then Some (Some ErrDdsFailed, w2)
     else Some (err, w2)
   }"

definition Generic_Compact :: "int64 \<Rightarrow> ('w, int64 \<times> go_error option) go" where
  "Generic_Compact revision w = Some ((0, None), w)"

definition Generic_PostCompact :: "('w, go_error option) go" where
  "Generic_PostCompact w = Some (None, w)"

definition Generic_DeleteRevision :: "'w commsdb \<Rightarrow> int64 \<Rightarrow> ('w, go_error option) go" where
  "Generic_DeleteRevision C revision w = do {
     ((succeeded, err), w1) \<leftarrow> ConnectDdsRequestDispose C revision w;
     if err \<noteq> None \<or> \<not> succeeded then Some (err, w1)
     else if \<not> succeeded then Some (Some ErrDdsFailed, w1)
     else Some (err, w1)
   }"

definition Generic_ListCurrent ::
  "'w commsdb \<Rightarrow> string \<Rightarrow> int64 \<Rightarrow> bool \<Rightarrow> ('w, QueryGenericRow list \<times> go_error option) go" where
  "Generic_ListCurrent C pre limit includeDeleted w =
     ConnectDdsRequestQueryGeneric C 4 pre (parseIcludeDelete includeDeleted) [] [] [] limit w"

definition Generic_List ::
  "'w commsdb \<Rightarrow> string \<Rightarrow> string \<Rightarrow> int64 \<Rightarrow> int64 \<Rightarrow> bool \<Rightarrow>
   ('w, QueryGenericRow list \<times> go_error option) go" where
  "Generic_List C pre startKey limit revision includeDeleted w =
     (if startKey = [] then
        ConnectDdsRequestQueryGeneric C 11 pre (FormatInt revision)
          (parseIcludeDelete includeDeleted) [] [] limit w
      else
        ConnectDdsRequestQueryGeneric C 9 pre (FormatInt revision) startKey (FormatInt revision)
          (parseIcludeDelete includeDeleted) limit w)"

text \<open>The results of the remote call are the maximum id and the count; they are returned swapped.\<close>

definition Generic_Count ::
  "'w commsdb \<Rightarrow> string \<Rightarrow> ('w, int64 \<times> int64 \<times> go_error option) go" where
  "Generic_Count C pre w = do {
     ((maxID, count, err), w1) \<leftarrow> ConnectDdsRequestQueryThree C pre [CHR 0x27, CHR ''f'', CHR 0x27] w;
     if err \<noteq> None then Some ((count, maxID, err), w1)
     else if maxID < 0 then Some ((count, maxID, Some ErrDdsFailed), w1)
     else Some ((count, maxID, err), w1)
   }"

definition Generic_CurrentRevision :: "'w commsdb \<Rightarrow> ('w, int64 \<times> go_error option) go" where
  "Generic_CurrentRevision C w = ConnectDdsRequestQueryMaximumID C w"

definition Generic_After ::
  "'w commsdb \<Rightarrow> string \<Rightarrow> int64 \<Rightarrow> int64 \<Rightarrow> ('w, QueryGenericRow list \<times> go_error option) go" where
  "Generic_After C pre revision limit w =
     ConnectDdsRequestQueryGeneric C 1 pre (FormatInt revision) [] [] [] limit w"

definition Generic_Fill :: "'w commsdb \<Rightarrow> int64 \<Rightarrow> ('w, go_error option) go" where
  "Generic_Fill C revision w = do {
     ((succeeded, _, err), w1) \<leftarrow>
       ConnectDdsRequestPublish C revision (''gap-'' @ FormatInt revision) 0 1 0 0 0 [] [] w;
     if err \<noteq> None then Some (err, w1)
     else if \<not> succeeded then Some (Some ErrDdsFailed, w1)
     else Some (err, w1)
   }"

definition Generic_IsFill :: "string \<Rightarrow> bool" where
  "Generic_IsFill key = HasPrefix key ''gap-''"

definition Generic_Insert ::
  "'w commsdb \<Rightarrow> string \<Rightarrow> bool \<Rightarrow> bool \<Rightarrow> int64 \<Rightarrow> int64 \<Rightarrow> int64 \<Rightarrow> bytes \<Rightarrow> bytes \<Rightarrow>
   ('w, int64 \<times> go_error option) go" where
  "Generic_Insert C key create delete createRevision previousRevision ttl value prevValue w = do {
     let cVal = (if create then 1 else 0);
     let dVal = (if delete then 1 else 0);
     ((isOk, ident, err), w1) \<leftarrow>
       ConnectDdsRequestPublish C (-1) key cVal dVal createRevision previousRevision ttl value prevValue w;
     let ident = (if \<not> isOk then 0 else ident);
     if ident < 0 then Some ((0, Some ErrDdsFailed), w1)
     else Some ((ident, err), w1)
   }"

definition Generic_GetSize :: "('w, int64 \<times> go_error option) go" where
  "Generic_GetSize w = Some ((0, Some (Errorf ''driver does not support size reporting'')), w)"

text \<open>\<open>BeginTx\<close> returns a nil transaction and no error.\<close>

definition Generic_BeginTx :: "('w, 'w Transaction option \<times> go_error option) go" where
  "Generic_BeginTx w = Some ((None, None), w)"

section \<open>Transactions (tx.go)\<close>

text \<open>
  The part of \<open>database/sql\<close> that the methods of \<open>Tx\<close> use: executing a statement yields an
  error or a result, and the result an affected-row count with an error.
\<close>

record 'w sqlTx =
  ExecContext :: "string \<Rightarrow> int64 list \<Rightarrow> 'w \<Rightarrow> (go_error + (int64 \<times> go_error option)) \<times> 'w"
  CommitTx :: "'w \<Rightarrow> go_error option \<times> 'w"

definition Tx_execute ::
  "'w sqlTx \<Rightarrow> string \<Rightarrow> int64 list \<Rightarrow> 'w \<Rightarrow> (go_error + (int64 \<times> go_error option)) \<times> 'w" where
  "Tx_execute x sql args w = ExecContext x sql args w"

definition Tx_Commit :: "'w sqlTx \<Rightarrow> ('w, go_error option) go" where
  "Tx_Commit x w = (case CommitTx x w of (err, w1) \<Rightarrow> Some (err, w1))"

text \<open>\<open>logrus.Fatalf\<close> ends the process.\<close>

definition Tx_MustCommit :: "'w sqlTx \<Rightarrow> ('w, unit) go" where
  "Tx_MustCommit x w = do {
     (err, w1) \<leftarrow> Tx_Commit x w;
     if err \<noteq> None then None else Some ((), w1)
   }"

definition Tx_Rollback :: "('w, go_error option) go" where
  "Tx_Rollback w = Some (None, w)"

definition Tx_MustRollback :: "('w, unit) go" where
  "Tx_MustRollback w = Some ((), w)"

definition Tx_GetCompactRevision :: "'w commsdb \<Rightarrow> ('w, int64 \<times> go_error option) go" where
  "Tx_GetCompactRevision C w = do {
     ((res, err), w1) \<leftarrow> ConnectDdsRequestQueryCompactRevision C w;
     if err \<noteq> None then Some ((0, err), w1)
     else if res < 0 then Some ((0, None), w1)
     else Some ((res, err), w1)
   }"

definition Tx_SetCompactRevision ::
  "Generic \<Rightarrow> 'w sqlTx \<Rightarrow> 'w commsdb \<Rightarrow> int64 \<Rightarrow> ('w, go_error option) go" where
  "Tx_SetCompactRevision d x C revision w =
     (case Tx_execute x (UpdateCompactSQL d) [revision] w of
        (_, w1) \<Rightarrow> Generic_SetCompactRevision C revision w1)"

definition Tx_Compact :: "Generic \<Rightarrow> 'w sqlTx \<Rightarrow> int64 \<Rightarrow> ('w, int64 \<times> go_error option) go" where
  "Tx_Compact d x revision w =
     (case Tx_execute x (CompactSQL d) [revision, revision] w of
        (Inl err, w1) \<Rightarrow> Some ((0, Some err), w1)
      | (Inr res, w1) \<Rightarrow> Some (res, w1))"

definition Tx_DeleteRevision :: "'w commsdb \<Rightarrow> int64 \<Rightarrow> ('w, go_error option) go" where
  "Tx_DeleteRevision C revision w = do {
     ((succeeded, err), w1) \<leftarrow> ConnectDdsRequestDispose C revision w;
     if err \<noteq> None \<or> \<not> succeeded then Some (err, w1)
     else if \<not> succeeded then Some (Some ErrDdsFailed, w1)
     else Some (err, w1)
   }"

definition Tx_CurrentRevision :: "'w commsdb \<Rightarrow> ('w, int64 \<times> go_error option) go" where
  "Tx_CurrentRevision C w = ConnectDdsRequestQueryMaximumID C w"

definition Tx_transaction :: "Generic \<Rightarrow> 'w sqlTx \<Rightarrow> 'w commsdb \<Rightarrow> 'w Transaction" where
  "Tx_transaction d x C =
     \<lparr>t_Commit = Tx_Commit x, t_MustCommit = Tx_MustCommit x,
      t_Rollback = Tx_Rollback, t_MustRollback = Tx_MustRollback,
      t_GetCompactRevision = Tx_GetCompactRevision C,
      t_SetCompactRevision = Tx_SetCompactRevision d x C,
      t_Compact = Tx_Compact d x, t_DeleteRevision = Tx_DeleteRevision C,
      t_CurrentRevision = Tx_CurrentRevision C\<rparr>"

section \<open>The dialect as an interface value\<close>

definition generic_dialect :: "'w commsdb \<Rightarrow> 'w Dialect" where
  "generic_dialect C =
     \<lparr>d_ListCurrent = Generic_ListCurrent C, d_List = Generic_List C, d_Count = Generic_Count C,
      d_CurrentRevision = Generic_CurrentRevision C, d_After = Generic_After C,
      d_Insert = Generic_Insert C, d_DeleteRevision = Generic_DeleteRevision C,
      d_GetCompactRevision = Generic_GetCompactRevision C,
      d_SetCompactRevision = Generic_SetCompactRevision C, d_Compact = Generic_Compact,
      d_PostCompact = Generic_PostCompact, d_Fill = Generic_Fill C, d_IsFill = Generic_IsFill,
      d_BeginTx = Generic_BeginTx, d_GetSize = Generic_GetSize\<rparr>"

lemma generic_dialect_simps [simp]:
  "d_ListCurrent (generic_dialect C) = Generic_ListCurrent C"
  "d_List (generic_dialect C) = Generic_List C"
  "d_Count (generic_dialect C) = Generic_Count C"
  "d_CurrentRevision (generic_dialect C) = Generic_CurrentRevision C"
  "d_After (generic_dialect C) = Generic_After C"
  "d_Insert (generic_dialect C) = Generic_Insert C"
  "d_DeleteRevision (generic_dialect C) = Generic_DeleteRevision C"
  "d_GetCompactRevision (generic_dialect C) = Generic_GetCompactRevision C"
  "d_SetCompactRevision (generic_dialect C) = Generic_SetCompactRevision C"
  "d_PostCompact (generic_dialect C) = Generic_PostCompact"
  "d_Fill (generic_dialect C) = Generic_Fill C"
  "d_IsFill (generic_dialect C) = Generic_IsFill"
  "d_BeginTx (generic_dialect C) = Generic_BeginTx"
  "d_GetSize (generic_dialect C) = Generic_GetSize"
  by (simp_all add: generic_dialect_def)

section \<open>Retries\<close>

text \<open>The world before attempt \<open>i\<close>, and the result of that attempt.\<close>

primrec attempt_world :: "('w \<Rightarrow> (int64 \<times> go_error option) \<times> 'w) \<Rightarrow> nat \<Rightarrow> 'w \<Rightarrow> 'w" where
  "attempt_world exec 0 w = w"
| "attempt_world exec (Suc i) w = attempt_world exec i (snd (exec w))"

definition attempt_retried ::
  "('w \<Rightarrow> (int64 \<times> go_error option) \<times> 'w) \<Rightarrow> (go_error \<Rightarrow> bool) option \<Rightarrow> nat \<Rightarrow> 'w \<Rightarrow> bool" where
  "attempt_retried exec retry i w =
     (case (snd (fst (exec (attempt_world exec i w))), retry) of
        (Some e, Some can_retry) \<Rightarrow> can_retry e
      | _ \<Rightarrow> False)"

lemma attempt_retried_Suc:
  "attempt_retried exec retry (Suc i) w = attempt_retried exec retry i (snd (exec w))"
  by (simp add: attempt_retried_def)

lemma execute_tries_nth:
  assumes "n < k" "\<forall>i < n. attempt_retried exec retry i w" "\<not> attempt_retried exec retry n w"
  shows "execute_tries k exec retry prev w = exec (attempt_world exec n w)"
  using assms
proof (induction k arbitrary: n w prev)
  case (Suc k)
  obtain res err w1 where x: "exec w = ((res, err), w1)" by (metis prod.exhaust)
  show ?case
  proof (cases n)
    case 0
    then show ?thesis using Suc.prems x
      by (auto simp: attempt_retried_def split: option.splits)
  next
    case (Suc m)
    then have "attempt_retried exec retry 0 w" "\<forall>i < m. attempt_retried exec retry i w1"
      "\<not> attempt_retried exec retry m w1"
      using Suc.prems x by (auto simp: attempt_retried_Suc [symmetric])
         (metis Suc_less_eq attempt_retried_Suc snd_conv)+
    moreover have "execute_tries k exec retry (res, err) w1 = exec (attempt_world exec m w1)"
      using Suc.prems Suc calculation by (intro Suc.IH) auto
    ultimately show ?thesis using x Suc
      by (auto simp: attempt_retried_def split: option.splits)
  qed
qed simp

lemma execute_tries_all:
  assumes "\<forall>i < k. attempt_retried exec retry i w" "0 < k"
  shows "execute_tries k exec retry prev w = exec (attempt_world exec (k - 1) w)"
  using assms
proof (induction k arbitrary: w prev)
  case (Suc k)
  obtain res err w1 where x: "exec w = ((res, err), w1)" by (metis prod.exhaust)
  have r: "attempt_retried exec retry 0 w" using Suc.prems by simp
  show ?case
  proof (cases k)
    case 0
    then show ?thesis using r x
      by (auto simp: attempt_retried_def split: option.splits)
  next
    case (Suc m)
    have "\<forall>i < k. attempt_retried exec retry i w1"
      using Suc.prems x attempt_retried_Suc [of exec retry _ w] by (metis Suc_less_eq snd_conv)
    then have "execute_tries k exec retry (res, err) w1 = exec (attempt_world exec (k - 1) w1)"
      using Suc by (intro Suc.IH) simp_all
    then show ?thesis using r x Suc
      by (auto simp: attempt_retried_def split: option.splits)
  qed
qed simp

section \<open>Properties\<close>

text \<open>
  \<open>execute\<close> runs the statement once more for every attempt that is retried and stops at the
  first that is not; after the 20th attempt it stops in any case. The result is that of the last
  attempt. Here \<open>n\<close> is the number of the last attempt, counted from 0.
\<close>

lemma execute_bounded_retries:
  assumes "n < 20" "\<forall>i < n. attempt_retried exec retry i w"
    and "n = 19 \<or> \<not> attempt_retried exec retry n w"
  shows "execute exec retry w = exec (attempt_world exec n w)"
proof (cases "attempt_retried exec retry n w")
  case True
  with assms have "\<forall>i < 20. attempt_retried exec retry i w" "n = 19"
    by (auto simp: less_Suc_eq numeral_eq_Suc)
  then show ?thesis by (simp add: execute_def execute_tries_all)
qed (use assms in \<open>simp add: execute_def execute_tries_nth\<close>)

end
