(* ===== verification/Sqllog.thy ===== *)
theory Sqllog
  imports Generic
begin

text \<open>
  The log on top of a dialect: \<open>pkg/logstructured/sqllog/sql.go\<close>. The state of \<open>SQLLog\<close> that
  its operations change is the dialect's world and the channel \<open>notify\<close>, which wakes the
  poller. The functions take the dialect as a record, so they hold for every dialect.
\<close>

section \<open>State and constants\<close>

record 'w SQLLog =
  d_world :: 'w
  notify :: "int64 list"

definition notify_capacity :: nat where
  "notify_capacity = 1024"

definition compactMinRetain :: int64 where
  "compactMinRetain = 1000"

definition compactBatchSize :: int64 where
  "compactBatchSize = 1000"

definition pollBatchSize :: int64 where
  "pollBatchSize = 500"

lemmas sqllog_consts = compactMinRetain_def compactBatchSize_def pollBatchSize_def

text \<open>\<open>select { case s.notify <- rev: default: }\<close>\<close>

definition notify_send :: "int64 \<Rightarrow> 'w SQLLog \<Rightarrow> 'w SQLLog" where
  "notify_send revision s = s\<lparr>notify := try_send notify_capacity revision (notify s)\<rparr>"

lemma notify_send_world [simp]: "d_world (notify_send r s) = d_world s"
  by (simp add: notify_send_def)

text \<open>A call of the dialect changes the dialect's world and nothing else of the log.\<close>

definition lift_d :: "('w, 'a) go \<Rightarrow> ('w SQLLog, 'a) go" where
  "lift_d m s = do { (r, w) \<leftarrow> m (d_world s); Some (r, s\<lparr>d_world := w\<rparr>) }"

lemma lift_d_Some [simp]:
  "m (d_world s) = Some (r, w) \<Longrightarrow> lift_d m s = Some (r, s\<lparr>d_world := w\<rparr>)"
  by (simp add: lift_d_def)

lemma lift_d_None [simp]: "m (d_world s) = None \<Longrightarrow> lift_d m s = None"
  by (simp add: lift_d_def)

section \<open>Rows and events\<close>

definition row_event :: "QueryGenericRow \<Rightarrow> Event" where
  "row_event elem =
     \<lparr>Delete = (0 \<noteq> Deleted elem),
      Create = (0 \<noteq> Created elem),
      KV = Some \<lparr>Key = row_Name elem,
                 CreateRevision =
                   (if 0 \<noteq> Created elem then Theid elem else row_CreateRevision elem),
                 ModRevision = Theid elem,
                 Value = row_Value elem,
                 Lease = row_Lease elem\<rparr>,
      PrevKV =
        (if 0 \<noteq> Created elem then None
         else Some \<lparr>Key = [], CreateRevision = 0, ModRevision = PrevRevision elem,
                    Value = OldValue elem, Lease = 0\<rparr>)\<rparr>"

definition RowsToEventsDds ::
  "QueryGenericRow list \<Rightarrow> int64 \<times> int64 \<times> Event list \<times> go_error option" where
  "RowsToEventsDds rows =
     (case rows of
        [] \<Rightarrow> (0, 0, [], None)
      | row # _ \<Rightarrow> (MaxId row, CompactionPrevRevision row, map row_event rows, None))"

text \<open>
  \<open>scan\<close>, the conversion of the SQL version, has no caller any more. \<open>Rows.Scan\<close> is the error or the columns
  of the row; the compact revision can be null.
\<close>

record sql_row =
  sr_rev :: int64
  sr_compact :: "int64 option"
  sr_theid :: int64
  sr_name :: string
  sr_created :: bool
  sr_deleted :: bool
  sr_create_revision :: int64
  sr_prev_revision :: int64
  sr_lease :: int64
  sr_value :: bytes
  sr_old_value :: bytes

definition scan :: "go_error + sql_row \<Rightarrow> go_error + int64 \<times> int64 \<times> Event" where
  "scan rows =
     (case rows of
        Inl err \<Rightarrow> Inl err
      | Inr r \<Rightarrow>
          (let kv = KeyValue_zero\<lparr>ModRevision := sr_theid r, Key := sr_name r, CreateRevision := sr_create_revision r,
                      Lease := sr_lease r, Value := sr_value r\<rparr>;
               prev = KeyValue_zero\<lparr>ModRevision := sr_prev_revision r, Value := sr_old_value r\<rparr>
           in Inr (sr_rev r, (case sr_compact r of None \<Rightarrow> 0 | Some c \<Rightarrow> c),
                   if sr_created r
                   then \<lparr>Delete = sr_deleted r, Create = True, KV = Some (kv\<lparr>CreateRevision := ModRevision kv\<rparr>), PrevKV = None\<rparr>
                   else \<lparr>Delete = sr_deleted r, Create = False, KV = Some kv, PrevKV = Some prev\<rparr>)))"

text \<open>The columns of a row of the remote answer, and the agreement of the two conversions.\<close>

definition sql_row_of :: "QueryGenericRow \<Rightarrow> sql_row" where
  "sql_row_of r =
     \<lparr>sr_rev = MaxId r, sr_compact = Some (CompactionPrevRevision r), sr_theid = Theid r, sr_name = row_Name r,
      sr_created = (Created r \<noteq> 0), sr_deleted = (Deleted r \<noteq> 0), sr_create_revision = row_CreateRevision r,
      sr_prev_revision = PrevRevision r, sr_lease = row_Lease r, sr_value = row_Value r, sr_old_value = OldValue r\<rparr>"

lemma scan_row_event: "scan (Inr (sql_row_of r)) = Inr (MaxId r, CompactionPrevRevision r, row_event r)"
  by (simp add: scan_def sql_row_of_def row_event_def KeyValue_zero_def Let_def)

section \<open>Operations of the log\<close>

definition SQLLog_CurrentRevision ::
  "'w Dialect \<Rightarrow> ('w SQLLog, int64 \<times> go_error option) go" where
  "SQLLog_CurrentRevision d s = lift_d (d_CurrentRevision d) s"

definition SQLLog_After ::
  "'w Dialect \<Rightarrow> string \<Rightarrow> int64 \<Rightarrow> int64 \<Rightarrow>
   ('w SQLLog, int64 \<times> Event list \<times> go_error option) go" where
  "SQLLog_After d pre revision limit s = do {
     let pre = (if HasSuffix pre ''/'' then pre @ ''%'' else pre);
     ((rows, err), s) \<leftarrow> lift_d (d_After d pre revision limit) s;
     if err \<noteq> None then Some ((0, [], err), s)
     else case RowsToEventsDds rows of (last_rev, compact, events, err) \<Rightarrow>
       if revision > 0 \<and> revision < compact then Some ((last_rev, events, Some ErrCompacted), s)
       else Some ((last_rev, events, err), s)
   }"

definition SQLLog_List ::
  "'w Dialect \<Rightarrow> string \<Rightarrow> string \<Rightarrow> int64 \<Rightarrow> int64 \<Rightarrow> bool \<Rightarrow>
   ('w SQLLog, int64 \<times> Event list \<times> go_error option) go" where
  "SQLLog_List d pre startKey limit revision includeDeleted s = do {
     let startKey = (if HasSuffix pre ''/'' then (if pre = startKey then [] else startKey) else []);
     let pre = (if HasSuffix pre ''/'' then pre @ ''%'' else pre);
     ((rows, err), s) \<leftarrow>
       (if revision = 0 then lift_d (d_ListCurrent d pre limit includeDeleted) s
        else lift_d (d_List d pre startKey limit revision includeDeleted) s);
     if err \<noteq> None then Some ((0, [], err), s)
     else case RowsToEventsDds rows of (last_rev, compact, events, err) \<Rightarrow>
       if err \<noteq> None then Some ((0, [], err), s)
       else do {
         ((compact, err), s) \<leftarrow>
           (if revision > 0 \<and> events = [] then lift_d (d_GetCompactRevision d) s
            else Some ((compact, None), s));
         if err \<noteq> None then Some ((0, [], err), s)
         else if revision > 0 \<and> revision < compact
         then Some ((last_rev, events, Some ErrCompacted), s)
         else Some ((last_rev, events, None), notify_send last_rev s)
       }
   }"

definition SQLLog_Count ::
  "'w Dialect \<Rightarrow> string \<Rightarrow> ('w SQLLog, int64 \<times> int64 \<times> go_error option) go" where
  "SQLLog_Count d pre s =
     (let pre = (if HasSuffix pre ''/'' then pre @ ''%'' else pre) in lift_d (d_Count d pre) s)"

definition SQLLog_Append ::
  "'w Dialect \<Rightarrow> Event \<Rightarrow> ('w SQLLog, int64 \<times> go_error option) go" where
  "SQLLog_Append d event s = do {
     let e_KV = (case KV event of None \<Rightarrow> KeyValue_zero | Some kv \<Rightarrow> kv);
     let e_PrevKV = (case PrevKV event of None \<Rightarrow> KeyValue_zero | Some kv \<Rightarrow> kv);
     ((revision, err), s) \<leftarrow>
       lift_d (d_Insert d (Key e_KV) (Create event) (Delete event) (CreateRevision e_KV)
         (ModRevision e_PrevKV) (Lease e_KV) (Value e_KV) (Value e_PrevKV)) s;
     if err \<noteq> None then Some ((0, err), s)
     else Some ((revision, None), notify_send revision s)
   }"

definition SQLLog_DbSize :: "'w Dialect \<Rightarrow> ('w SQLLog, int64 \<times> go_error option) go" where
  "SQLLog_DbSize d s = lift_d (d_GetSize d) s"

definition postCompact :: "'w Dialect \<Rightarrow> ('w SQLLog, go_error option) go" where
  "postCompact d s = lift_d (d_PostCompact d) s"

section \<open>Start: the compaction row\<close>

text \<open>The loop that looks for the row that holds the greatest compact revision.\<close>

fun compactStart_max :: "int64 \<Rightarrow> int64 \<Rightarrow> Event list \<Rightarrow> (int64 \<times> int64) option" where
  "compactStart_max maxRev maxID [] = Some (maxRev, maxID)"
| "compactStart_max maxRev maxID (event # events) =
     (case PrevKV event of
        Some prev \<Rightarrow>
          (if ModRevision prev > maxRev then
             (case KV event of
                None \<Rightarrow> None
              | Some kv \<Rightarrow> compactStart_max (ModRevision prev) (ModRevision kv) events)
           else compactStart_max maxRev maxID events)
      | None \<Rightarrow> compactStart_max maxRev maxID events)"

text \<open>The loop that deletes every other row.\<close>

fun compactStart_delete ::
  "'w Transaction \<Rightarrow> int64 \<Rightarrow> Event list \<Rightarrow> ('w SQLLog, go_error option) go" where
  "compactStart_delete t maxID [] s = Some (None, s)"
| "compactStart_delete t maxID (event # events) s =
     (case KV event of
        None \<Rightarrow> None
      | Some kv \<Rightarrow>
          if ModRevision kv = maxID then compactStart_delete t maxID events s
          else do {
            (err, s) \<leftarrow> lift_d (t_DeleteRevision t (ModRevision kv)) s;
            if err \<noteq> None then Some (err, s) else compactStart_delete t maxID events s
          })"

text \<open>
  With two rows or more the code opens a transaction; \<open>defer t.MustRollback()\<close> on a nil
  interface value panics.
\<close>

definition compactStart :: "'w Dialect \<Rightarrow> ('w SQLLog, go_error option) go" where
  "compactStart d s = do {
     ((rows, err), s) \<leftarrow> lift_d (d_After d ''compact_rev_key'' 0 0) s;
     if err \<noteq> None then Some (err, s)
     else case RowsToEventsDds rows of (_, _, events, err) \<Rightarrow>
       if err \<noteq> None then Some (err, s)
       else if length events = 0 then do {
         ((_, err), s) \<leftarrow> SQLLog_Append d
           \<lparr>Delete = False, Create = True,
            KV = Some (KeyValue_zero\<lparr>Key := ''compact_rev_key'', Value := []\<rparr>), PrevKV = None\<rparr> s;
         Some (err, s)
       }
       else if length events = 1 then Some (None, s)
       else do {
         ((t, err), s) \<leftarrow> lift_d (d_BeginTx d) s;
         if err \<noteq> None then Some (err, s)
         else case t of
           None \<Rightarrow> None
         | Some t \<Rightarrow> do {
             (_, maxID) \<leftarrow> compactStart_max 0 0 events;
             (err, s) \<leftarrow> compactStart_delete t maxID events s;
             (err, s) \<leftarrow> (if err \<noteq> None then Some (err, s) else lift_d (t_Commit t) s);
             (_, s) \<leftarrow> lift_d (t_MustRollback t) s;
             Some (err, s)
           }
       }
   }"

definition SQLLog_Start :: "'w Dialect \<Rightarrow> ('w SQLLog, go_error option) go" where
  "SQLLog_Start d s = compactStart d s"


section \<open>Facts\<close>

lemma SQLLog_After_rows:
  assumes "d_After d (if HasSuffix pre ''/'' then pre @ ''%'' else pre) revision limit (d_world s) =
      Some ((rows, None), w)"
  shows "SQLLog_After d pre revision limit s = Some
    ((if rows = [] then 0 else MaxId (hd rows), map row_event rows,
      if rows \<noteq> [] \<and> 0 < revision \<and> revision < CompactionPrevRevision (hd rows)
      then Some ErrCompacted else None), s\<lparr>d_world := w\<rparr>)"
  using assms by (cases rows) (auto simp: SQLLog_After_def lift_d_def RowsToEventsDds_def)

text \<open>
  What the search of \<open>compactStart\<close> finds among rows: the greatest previous revision of the rows
  that are not creations, or 0, and the identifier of a row that holds it.
\<close>

definition held_rev :: "QueryGenericRow \<Rightarrow> int64" where
  "held_rev row = (if Created row = 0 then PrevRevision row else 0)"

lemma compactStart_max_step:
  "0 \<le> m \<Longrightarrow> compactStart_max m i (row_event row # events) =
     (if held_rev row > m then compactStart_max (held_rev row) (Theid row) events
      else compactStart_max m i events)"
  by (simp add: row_event_def held_rev_def)

lemma Max_insert_max:
  "finite A \<Longrightarrow> Max (insert m (insert x A)) = Max (insert (max m x :: int) A)"
  by (cases "A = {}") (simp_all add: max.assoc)

lemma compactStart_max_rows:
  "0 \<le> m \<Longrightarrow> \<exists>i. compactStart_max m i0 (map row_event rows) =
     Some (Max (insert m (held_rev ` set rows)), i) \<and>
     (i = i0 \<and> (\<forall>row \<in> set rows. held_rev row \<le> m) \<or>
      (\<exists>row \<in> set rows. i = Theid row \<and> held_rev row = Max (insert m (held_rev ` set rows))))"
proof (induction rows arbitrary: m i0)
  case (Cons row rows)
  have M: "Max (insert m (held_rev ` set (row # rows))) =
      Max (insert (max m (held_rev row)) (held_rev ` set rows))"
    using Max_insert_max [of "held_rev ` set rows" m "held_rev row"] by simp
  show ?case
  proof (cases "held_rev row > m")
    case True
    have top: "held_rev row = Max (insert (held_rev row) (held_rev ` set rows))"
      if "\<forall>r \<in> set rows. held_rev r \<le> held_rev row"
      using that by (intro Max_eqI [symmetric]) auto
    from Cons.IH [of "held_rev row" "Theid row"] True Cons.prems top show ?thesis
      unfolding M list.map compactStart_max_step [OF Cons.prems]
      by (auto simp: max_absorb2 simp del: Max_insert)
  next
    case False
    with Cons.IH [OF Cons.prems, of i0] show ?thesis
      unfolding M list.map compactStart_max_step [OF Cons.prems]
      by (auto simp: max_absorb1 simp del: Max_insert)
  qed
qed simp

text \<open>The deletions of \<open>compactStart\<close>, when none fails: every row but the one that is kept.\<close>

lemma compactStart_delete_rows:
  assumes del: "\<And>i w. t_DeleteRevision t i w = Some (None, gone i w)"
  shows "compactStart_delete t keep (map row_event rows) s = Some
    (None, s\<lparr>d_world := fold gone (filter (\<lambda>i. i \<noteq> keep) (map Theid rows)) (d_world s)\<rparr>)"
  by (induction rows arbitrary: s) (simp_all add: row_event_def lift_d_def del)

section \<open>A dialect on a list of rows\<close>

text \<open>A small dialect in memory, with transactions, to which the properties are applied.\<close>

definition list_tx :: "QueryGenericRow list Transaction" where
  "list_tx =
     \<lparr>t_Commit = (\<lambda>w. Some (None, w)), t_MustCommit = (\<lambda>w. Some ((), w)),
      t_Rollback = (\<lambda>w. Some (None, w)), t_MustRollback = (\<lambda>w. Some ((), w)),
      t_GetCompactRevision = (\<lambda>w. Some ((0, None), w)), t_SetCompactRevision = (\<lambda>rv w. Some (None, w)),
      t_Compact = (\<lambda>rv w. Some ((0, None), w)),
      t_DeleteRevision = (\<lambda>rv w. Some (None, filter (\<lambda>r. Theid r \<noteq> rv) w)),
      t_CurrentRevision = (\<lambda>w. Some ((int (length w), None), w))\<rparr>"

definition list_dialect :: "QueryGenericRow list Dialect" where
  "list_dialect =
     \<lparr>d_ListCurrent = (\<lambda>pre limit del w. Some ((w, None), w)),
      d_List = (\<lambda>pre start limit rv del w. Some ((filter (\<lambda>r. Theid r \<le> rv) w, None), w)),
      d_Count = (\<lambda>pre w. Some ((int (length w), int (length w), None), w)),
      d_CurrentRevision = (\<lambda>w. Some ((int (length w), None), w)),
      d_After = (\<lambda>pre rv limit w. Some ((filter (\<lambda>r. rv < Theid r) w, None), w)),
      d_Insert = (\<lambda>key c del cr pr ttl val prev w. Some ((int (length w), None), w)),
      d_DeleteRevision = (\<lambda>rv w. Some (None, filter (\<lambda>r. Theid r \<noteq> rv) w)),
      d_GetCompactRevision = (\<lambda>w. Some ((0, None), w)), d_SetCompactRevision = (\<lambda>rv w. Some (None, w)),
      d_Compact = (\<lambda>rv w. Some ((0, None), w)), d_PostCompact = (\<lambda>w. Some (None, w)),
      d_Fill = (\<lambda>rv w. Some (None, w)), d_IsFill = (\<lambda>key. HasPrefix key ''gap-''),
      d_BeginTx = (\<lambda>w. Some ((Some list_tx, None), w)), d_GetSize = (\<lambda>w. Some ((0, None), w))\<rparr>"

text \<open>A row that is not a creation, of a name, with its identifier and previous revision.\<close>

definition update_row :: "int64 \<Rightarrow> string \<Rightarrow> int64 \<Rightarrow> int64 \<Rightarrow> QueryGenericRow" where
  "update_row max_id name i prev =
     \<lparr>MaxId = max_id, CompactionPrevRevision = 7, Theid = i, row_Name = name, Created = 0, Deleted = 0,
      row_CreateRevision = 1, PrevRevision = prev, row_Lease = 0, row_Value = ''v'', OldValue = []\<rparr>"

lemma update_row_simps [simp]:
  "MaxId (update_row m n i p) = m" "Theid (update_row m n i p) = i" "row_Name (update_row m n i p) = n"
  "Created (update_row m n i p) = 0" "PrevRevision (update_row m n i p) = p"
  "CompactionPrevRevision (update_row m n i p) = 7"
  by (simp_all add: update_row_def)

section \<open>Properties\<close>

text \<open>
  Reading the rows after a revision turns every row into its event, in the order of the rows;
  the read fails as compacted exactly when it starts from a revision above 0 that lies below the
  compact revision that the rows carry. A directory is read with a wildcard at its end.
\<close>

lemma sqllog_after_events:
  assumes "d_After d (if HasSuffix pre ''/'' then pre @ ''%'' else pre) revision limit (d_world s) =
      Some ((rows, None), w)"
    and "SQLLog_After d pre revision limit s = Some ((rv, events, err), s')"
  shows "events = map row_event rows \<and> s' = s\<lparr>d_world := w\<rparr> \<and>
     (rows \<noteq> [] \<longrightarrow> rv = MaxId (hd rows)) \<and>
     (err = Some ErrCompacted \<longleftrightarrow>
        rows \<noteq> [] \<and> 0 < revision \<and> revision < CompactionPrevRevision (hd rows)) \<and>
     (err \<noteq> Some ErrCompacted \<longrightarrow> err = None)"
  using assms(2) SQLLog_After_rows [OF assms(1)] by (auto split: if_splits)

text \<open>
  At the start, a log that holds several compaction rows is cleaned up when the dialect has
  transactions: exactly the rows other than one that holds the greatest compact revision are
  deleted, in order, and the transaction is committed.
\<close>

lemma compactStart_keeps_greatest:
  assumes rows: "d_After d ''compact_rev_key'' 0 0 (d_world s) = Some ((rows, None), w1)" "2 \<le> length rows"
    and tx: "d_BeginTx d w1 = Some ((Some t, None), w2)"
    and del: "\<And>i w. t_DeleteRevision t i w = Some (None, gone i w)"
    and commit: "\<And>w. t_Commit t w = Some (None, w)" "\<And>w. t_MustRollback t w = Some ((), w)"
    and held: "\<exists>row \<in> set rows. 0 < held_rev row"
  shows "\<exists>keep \<in> set rows. (\<forall>row \<in> set rows. held_rev row \<le> held_rev keep) \<and>
     SQLLog_Start d s = Some
       (None, s\<lparr>d_world := fold gone (filter (\<lambda>i. i \<noteq> Theid keep) (map Theid rows)) w2\<rparr>)"
proof -
  let ?M = "Max (insert 0 (held_rev ` set rows))"
  from compactStart_max_rows [of 0 0 rows] held obtain keep
    where keep: "keep \<in> set rows" "held_rev keep = ?M"
      "compactStart_max 0 0 (map row_event rows) = Some (?M, Theid keep)" by fastforce
  moreover have "\<forall>row \<in> set rows. held_rev row \<le> ?M" by simp
  moreover have "SQLLog_Start d s = Some
      (None, s\<lparr>d_world := fold gone (filter (\<lambda>i. i \<noteq> Theid keep) (map Theid rows)) w2\<rparr>)"
    using rows tx keep(3) commit
    by (cases rows) (auto simp: SQLLog_Start_def compactStart_def lift_d_def RowsToEventsDds_def
        compactStart_delete_rows [of t gone, OF del, of _ "_ # _", simplified] split: if_splits)
  ultimately show ?thesis by (intro bexI [of _ keep]) auto
qed


end
