(* ===== verification/Compactor.thy ===== *)
theory Compactor
  imports Sqllog
begin

text \<open>
  Compaction in \<open>sqllog/sql.go\<close>: the bound \<open>safeCompactRev\<close>, one compaction \<open>compact\<close>
  inside a transaction, and the loop \<open>compactor\<close> that a ticker drives, whose call of
  \<open>compact\<close> is commented out in the source.
\<close>

section \<open>One compaction\<close>

definition safeCompactRev :: "int64 \<Rightarrow> int64 \<Rightarrow> int64" where
  "safeCompactRev targetCompactRev currentRev =
     (let safeRev = i64 (currentRev - compactMinRetain);
          safeRev = (if targetCompactRev < safeRev then targetCompactRev else safeRev)
      in if safeRev < 0 then 0 else safeRev)"

text \<open>The body of \<open>compact\<close> once it holds a transaction; the caller rolls back.\<close>

definition compact_tx ::
  "'w Transaction \<Rightarrow> int64 \<Rightarrow> int64 \<Rightarrow> ('w SQLLog, int64 \<times> int64 \<times> go_error option) go" where
  "compact_tx t compactRev targetCompactRev s = do {
     ((currentRev, err), s) \<leftarrow> lift_d (t_CurrentRevision t) s;
     case err of
       Some e \<Rightarrow>
         Some ((compactRev, targetCompactRev, Some (Wrapped ''failed to get current revision'' e)), s)
     | None \<Rightarrow> do {
         ((dbCompactRev, err), s) \<leftarrow> lift_d (t_GetCompactRevision t) s;
         case err of
           Some e \<Rightarrow>
             Some ((compactRev, targetCompactRev, Some (Wrapped ''failed to get compact revision'' e)), s)
         | None \<Rightarrow>
             if compactRev \<noteq> dbCompactRev
             then Some ((dbCompactRev, currentRev, Some ErrCompacted), s)
             else do {
               let targetCompactRev = safeCompactRev targetCompactRev currentRev;
               if targetCompactRev \<le> compactRev
               then Some ((dbCompactRev, currentRev, Some ErrCompacted), s)
               else do {
                 ((_, err), s) \<leftarrow> lift_d (t_Compact t targetCompactRev) s;
                 case err of
                   Some e \<Rightarrow>
                     Some ((compactRev, targetCompactRev,
                       Some (Wrapped (''failed to compact to revision '' @ FormatInt targetCompactRev) e)), s)
                 | None \<Rightarrow> do {
                     (err, s) \<leftarrow> lift_d (t_SetCompactRevision t targetCompactRev) s;
                     case err of
                       Some e \<Rightarrow>
                         Some ((compactRev, targetCompactRev,
                           Some (Wrapped ''failed to record compact revision'' e)), s)
                     | None \<Rightarrow> do {
                         (_, s) \<leftarrow> lift_d (t_MustCommit t) s;
                         Some ((targetCompactRev, currentRev, None), s)
                       }
                   }
               }
             }
       }
   }"

definition compact ::
  "'w Dialect \<Rightarrow> int64 \<Rightarrow> int64 \<Rightarrow> ('w SQLLog, int64 \<times> int64 \<times> go_error option) go" where
  "compact d compactRev targetCompactRev s = do {
     ((t, err), s) \<leftarrow> lift_d (d_BeginTx d) s;
     case err of
       Some e \<Rightarrow>
         Some ((compactRev, targetCompactRev, Some (Wrapped ''failed to begin transaction'' e)), s)
     | None \<Rightarrow>
         (case t of
            None \<Rightarrow> None
          | Some t \<Rightarrow> do {
              (res, s) \<leftarrow> compact_tx t compactRev targetCompactRev s;
              (_, s) \<leftarrow> lift_d (t_MustRollback t) s;
              Some (res, s)
            })
   }"

section \<open>The loop\<close>

text \<open>
  The batches of one tick. The step can wrap around near the greatest \<open>int64\<close>, so the loop is
  a partial function: \<open>None\<close> is a loop that does not end.
\<close>

partial_function (option) compactor_batches :: "int64 \<Rightarrow> int64 \<Rightarrow> int64 option" where
  "compactor_batches iterCompactRev targetCompactRev =
     (if iterCompactRev < targetCompactRev then
        (let iterCompactRev = i64 (iterCompactRev + compactBatchSize);
             iterCompactRev =
               (if iterCompactRev > targetCompactRev then targetCompactRev else iterCompactRev)
         in compactor_batches iterCompactRev targetCompactRev)
      else Some iterCompactRev)"

text \<open>
  One tick from the loop variables \<open>(compactRev, targetCompactRev)\<close>. The call of \<open>compact\<close> in
  the inner loop is commented out, so \<open>compactedRev\<close> and \<open>currentRev\<close> keep their first values.
\<close>

definition compactor_tick ::
  "'w Dialect \<Rightarrow> int64 \<Rightarrow> int64 \<Rightarrow> ('w SQLLog, int64 \<times> int64) go" where
  "compactor_tick d compactRev targetCompactRev s = do {
     let compactedRev = compactRev;
     let currentRev = 0;
     _ \<leftarrow> compactor_batches compactRev targetCompactRev;
     (_, s) \<leftarrow> postCompact d s;
     Some ((compactedRev, currentRev), s)
   }"

text \<open>The whole loop over a number of ticks, from the revisions the code reads before it.\<close>

fun compactor_run ::
  "'w Dialect \<Rightarrow> nat \<Rightarrow> int64 \<times> int64 \<Rightarrow> ('w SQLLog, int64 \<times> int64) go" where
  "compactor_run d 0 revs s = Some (revs, s)"
| "compactor_run d (Suc n) (compactRev, targetCompactRev) s = do {
     (revs, s) \<leftarrow> compactor_tick d compactRev targetCompactRev s;
     compactor_run d n revs s
   }"

definition compactor :: "'w Dialect \<Rightarrow> nat \<Rightarrow> ('w SQLLog, int64 \<times> int64) go" where
  "compactor d ticks s = do {
     ((compactRev, _), s) \<leftarrow> lift_d (d_GetCompactRevision d) s;
     ((targetCompactRev, _), s) \<leftarrow> lift_d (d_CurrentRevision d) s;
     compactor_run d ticks (compactRev, targetCompactRev) s
   }"

section \<open>Facts\<close>


lemma compactor_batches_step:
  "iter < target \<Longrightarrow> compactor_batches iter target =
     compactor_batches (min target (i64 (iter + 1000))) target"
  by (subst compactor_batches.simps) (simp add: Let_def compactBatchSize_def min_def)

lemma compactor_batches_done: "\<not> iter < target \<Longrightarrow> compactor_batches iter target = Some iter"
  by (subst compactor_batches.simps) simp

text \<open>The batches of a tick end at their target when the target is 1000 below the greatest int64.\<close>

lemma compactor_batches_ends:
  assumes "0 \<le> iter" "target \<le> MaxInt64 - 1000"
  shows "compactor_batches iter target = Some (max iter target)"
  using assms
proof (induction "nat (target - iter)" arbitrary: iter rule: less_induct)
  case less
  show ?case
  proof (cases "iter < target")
    case True
    have wrap: "i64 (iter + 1000) = iter + 1000"
      using less.prems True by (intro i64_id) (auto simp: MaxInt64_def)
    let ?next = "min target (iter + 1000)"
    have "compactor_batches ?next target = Some (max ?next target)"
      using less.prems True by (intro less.hyps) auto
    with True show ?thesis by (simp add: compactor_batches_step wrap max_def)
  qed (use less.prems in \<open>simp add: compactor_batches_done max_def\<close>)
qed



text \<open>The ticks of the loop only run the hook \<open>PostCompact\<close>.\<close>

lemma compactor_run_idle:
  assumes post: "\<And>w. d_PostCompact d w = Some (None, w)"
    and rng: "0 \<le> c" "t \<le> MaxInt64 - 1000"
  shows "compactor_run d n (c, t) s = Some ((c, if n = 0 then t else 0), s)"
  using rng
proof (induction n arbitrary: t)
  case (Suc n)
  have tick: "compactor_tick d c t s = Some ((c, 0), s)"
    using Suc.prems post
    by (simp add: compactor_tick_def postCompact_def lift_d_def compactor_batches_ends)
  have "compactor_run d n (c, 0) s = Some ((c, if n = 0 then 0 else 0), s)"
    using Suc.prems by (intro Suc.IH) (simp_all add: MaxInt64_def)
  with tick show ?case by simp
qed simp

text \<open>The whole loop over a dialect whose hook does nothing.\<close>

lemma compactor_idle:
  assumes "\<And>w. d_PostCompact d w = Some (None, w)"
    and "d_GetCompactRevision d (d_world s) = Some ((compactRev, e1), d_world s)"
    and "d_CurrentRevision d (d_world s) = Some ((targetRev, e2), d_world s)"
    and "0 \<le> compactRev" "targetRev \<le> MaxInt64 - 1000"
  shows "compactor d n s = Some ((compactRev, if n = 0 then targetRev else 0), s)"
  using assms compactor_run_idle [of d compactRev targetRev n s]
  by (simp add: compactor_def lift_d_def)

section \<open>Properties\<close>




end
