(* ===== verification/Poller.thy ===== *)
theory Poller
  imports Sqllog
begin

text \<open>
  The poller of \<open>sqllog/sql.go\<close>: \<open>poll\<close> reads the rows after the last revision it has
  reported and passes them on in revision order, without gaps; \<open>filter\<close> and \<open>Watch\<close> select a
  subscriber's events from the batches that the poller broadcasts. Times are nanoseconds.
\<close>

section \<open>The loop variables\<close>

record poll_state =
  last_rev :: int64
  skip :: int64
  skipTime :: int64
  waitForMore :: bool

text \<open>The variables of one pass over the rows that were read.\<close>

record scan_state =
  scan_rev :: int64
  scan_skip :: int64
  scan_skipTime :: int64
  sequential :: "Event list"
  saveLast :: bool

definition second :: int64 where
  "second = 1000000000"

text \<open>\<open>now\<close> is the clock at the moment of the call, so \<open>time.Since(skipTime)\<close> is \<open>now - skipTime\<close>.\<close>

definition canSkipRevision :: "int64 \<Rightarrow> int64 \<Rightarrow> int64 \<Rightarrow> int64 \<Rightarrow> bool" where
  "canSkipRevision revision skp skpTime now \<longleftrightarrow> revision = skp \<and> now - skpTime > second"

section \<open>One pass\<close>

text \<open>The end of the loop body: the event's revision is reported, and the event unless it is a filler row.\<close>

definition scan_accept :: "'w Dialect \<Rightarrow> KeyValue \<Rightarrow> Event \<Rightarrow> scan_state \<Rightarrow> scan_state" where
  "scan_accept d kv event st =
     st\<lparr>saveLast := True, scan_rev := ModRevision kv,
        sequential := (if d_IsFill d (Key kv) then sequential st else sequential st @ [event])\<rparr>"

text \<open>
  The loop over the events. \<open>clock\<close> gives the time at which the body handles an event. The two
  \<open>break\<close>s leave the loop: after the first sight of a gap, and after an attempt to fill it.
\<close>

fun poll_scan ::
  "'w Dialect \<Rightarrow> (Event \<Rightarrow> int64) \<Rightarrow> Event list \<Rightarrow> scan_state \<Rightarrow> ('w SQLLog, scan_state) go" where
  "poll_scan d clock [] st s = Some (st, s)"
| "poll_scan d clock (event # events) st s =
     (case KV event of
        None \<Rightarrow> None
      | Some kv \<Rightarrow>
          (let nxt = i64 (scan_rev st + 1) in
           if ModRevision kv \<noteq> nxt \<and>
              \<not> canSkipRevision nxt (scan_skip st) (scan_skipTime st) (clock event) then
             (if scan_skip st \<noteq> nxt then
                Some (st\<lparr>scan_skip := nxt, scan_skipTime := clock event\<rparr>, notify_send nxt s)
              else do {
                (err, s) \<leftarrow> lift_d (d_Fill d nxt) s;
                Some (st, if err = None then notify_send nxt s else s)
              })
           else poll_scan d clock events (scan_accept d kv event st) s))"

section \<open>One round of the loop\<close>

text \<open>
  What the \<open>select\<close> at the top of the loop received: the end of the context, a notification, or
  a tick of the one-second ticker.
\<close>

datatype wake = Done | Check int64 | Tick

text \<open>
  The body below the \<open>select\<close>. The result is the new loop variables and the batch that is sent
  to the broadcaster, if any.
\<close>

definition poll_body ::
  "'w Dialect \<Rightarrow> (Event \<Rightarrow> int64) \<Rightarrow> poll_state \<Rightarrow> ('w SQLLog, poll_state \<times> Event list option) go" where
  "poll_body d clock p s = do {
     let p = p\<lparr>waitForMore := True\<rparr>;
     ((rows, err), s) \<leftarrow> lift_d (d_After d ''%'' (last_rev p) pollBatchSize) s;
     if err \<noteq> None then Some ((p, None), s)
     else case RowsToEventsDds rows of (_, _, events, err) \<Rightarrow>
       if err \<noteq> None then Some ((p, None), s)
       else if length events = 0 then Some ((p, None), s)
       else do {
         (st, s) \<leftarrow> poll_scan d clock events
           \<lparr>scan_rev = last_rev p, scan_skip = skip p, scan_skipTime = skipTime p,
            sequential = [], saveLast = False\<rparr> s;
         Some ((\<lparr>last_rev = (if saveLast st then scan_rev st else last_rev p),
                 skip = scan_skip st, skipTime = scan_skipTime st,
                 waitForMore = (length events < 100)\<rparr>,
                if saveLast st \<and> sequential st \<noteq> [] then Some (sequential st) else None), s)
       }
   }"

text \<open>A round: \<open>None\<close> in the first component when the poller has returned.\<close>

definition poll_round ::
  "'w Dialect \<Rightarrow> (Event \<Rightarrow> int64) \<Rightarrow> wake \<Rightarrow> poll_state \<Rightarrow>
   ('w SQLLog, poll_state option \<times> Event list option) go" where
  "poll_round d clock wk p s =
     (if waitForMore p \<and> wk = Done then Some ((None, None), s)
      else if waitForMore p \<and> (case wk of Check check \<Rightarrow> check \<le> last_rev p | _ \<Rightarrow> False)
      then Some ((Some p, None), s)
      else do {
        ((p, out), s) \<leftarrow> poll_body d clock p s;
        Some ((Some p, out), s)
      })"

text \<open>
  A run of the poller over the wake-ups it receives: the batches it broadcasts. Between two
  rounds other goroutines change the log; \<open>env\<close> is what they do.
\<close>

fun poll_run ::
  "'w Dialect \<Rightarrow> (wake \<times> (Event \<Rightarrow> int64) \<times> ('w SQLLog \<Rightarrow> 'w SQLLog)) list \<Rightarrow> poll_state \<Rightarrow>
   ('w SQLLog, Event list list) go" where
  "poll_run d [] p s = Some ([], s)"
| "poll_run d ((wk, clock, env) # rounds) p s = do {
     ((p, out), s) \<leftarrow> poll_round d clock wk p (env s);
     case p of
       None \<Rightarrow> Some ([], s)
     | Some p \<Rightarrow> do {
         (outs, s) \<leftarrow> poll_run d rounds p s;
         Some ((case out of None \<Rightarrow> outs | Some batch \<Rightarrow> batch # outs), s)
       }
   }"

text \<open>The loop variables at the start, for the revision that \<open>startWatch\<close> reads.\<close>

definition poll_start :: "int64 \<Rightarrow> poll_state" where
  "poll_start pollStart = \<lparr>last_rev = pollStart, skip = 0, skipTime = 0, waitForMore = True\<rparr>"

definition startWatch :: "'w Dialect \<Rightarrow> ('w SQLLog, poll_state option \<times> go_error option) go" where
  "startWatch d s = do {
     ((pollStart, err), s) \<leftarrow> lift_d (d_GetCompactRevision d) s;
     if err \<noteq> None then Some ((None, err), s) else Some ((Some (poll_start pollStart), None), s)
   }"

section \<open>Watching a prefix\<close>

text \<open>\<open>sqllog.filter\<close>: the events of a batch that a watch of \<open>pre\<close> sees; the flag says whether there are any.\<close>

fun sqllog_filter_loop :: "Event list \<Rightarrow> bool \<Rightarrow> string \<Rightarrow> Event list option" where
  "sqllog_filter_loop [] checkPrefix pre = Some []"
| "sqllog_filter_loop (event # events) checkPrefix pre =
     (case KV event of
        None \<Rightarrow> None
      | Some kv \<Rightarrow> do {
          rest \<leftarrow> sqllog_filter_loop events checkPrefix pre;
          Some (if (checkPrefix \<and> HasPrefix (Key kv) pre) \<or> Key kv = pre then event # rest else rest)
        })"

definition sqllog_filter :: "Event list \<Rightarrow> bool \<Rightarrow> string \<Rightarrow> (Event list \<times> bool) option" where
  "sqllog_filter events checkPrefix pre = do {
     filtered \<leftarrow> sqllog_filter_loop events checkPrefix pre;
     Some (filtered, length filtered > 0)
   }"

text \<open>
  The goroutine of \<open>Watch\<close>: \<open>values\<close> are the batches its subscription receives until the
  channel is closed; the result is what it sends.
\<close>

fun SQLLog_Watch :: "Event list list \<Rightarrow> string \<Rightarrow> Event list list option" where
  "SQLLog_Watch [] pre = Some []"
| "SQLLog_Watch (i # batches) pre = do {
     (events, ok) \<leftarrow> sqllog_filter i (HasSuffix pre ''/'') pre;
     rest \<leftarrow> SQLLog_Watch batches pre;
     Some (if ok then events # rest else rest)
   }"

section \<open>What one pass accepts\<close>

definition mod_of :: "Event \<Rightarrow> int64" where
  "mod_of event = (case KV event of None \<Rightarrow> 0 | Some kv \<Rightarrow> ModRevision kv)"

definition not_fill :: "'w Dialect \<Rightarrow> Event \<Rightarrow> bool" where
  "not_fill d event = (case KV event of None \<Rightarrow> True | Some kv \<Rightarrow> \<not> d_IsFill d (Key kv))"

lemma mod_of_row [simp]: "mod_of (row_event r) = Theid r"
  by (simp add: mod_of_def row_event_def)

lemma KV_row_event: "\<exists>kv. KV (row_event r) = Some kv"
  by (simp add: row_event_def)

text \<open>
  A pass accepts a prefix of the events: it reports their last revision and sends those that
  are not filler rows. An accepted event follows the one before it, unless the wait for the
  missing revision has run out.
\<close>

definition in_turn :: "scan_state \<Rightarrow> (Event \<Rightarrow> int64) \<Rightarrow> int64 \<Rightarrow> Event \<Rightarrow> bool" where
  "in_turn st clock r event \<longleftrightarrow>
     mod_of event = i64 (r + 1) \<or>
     canSkipRevision (i64 (r + 1)) (scan_skip st) (scan_skipTime st) (clock event)"

definition accepts ::
  "'w Dialect \<Rightarrow> (Event \<Rightarrow> int64) \<Rightarrow> Event list \<Rightarrow> scan_state \<Rightarrow> nat \<Rightarrow> scan_state \<Rightarrow> bool" where
  "accepts d clock events st n st' \<longleftrightarrow>
     n \<le> length events \<and>
     scan_rev st' = last (scan_rev st # map mod_of (take n events)) \<and>
     sequential st' = sequential st @ filter (not_fill d) (take n events) \<and>
     (saveLast st' \<longleftrightarrow> saveLast st \<or> 0 < n) \<and>
     (\<forall>i < n. in_turn st clock (last (scan_rev st # map mod_of (take i events))) (events ! i))"

lemma in_turn_accept [simp]: "in_turn (scan_accept d kv event st) = in_turn st"
  by (intro ext) (simp add: in_turn_def scan_accept_def)

lemma accepts_Suc:
  assumes kv: "KV event = Some kv"
    and turn: "in_turn st clock (scan_rev st) event"
    and acc: "accepts d clock events (scan_accept d kv event st) n st'"
  shows "accepts d clock (event # events) st (Suc n) st'"
proof -
  have rev: "scan_rev (scan_accept d kv event st) = mod_of event"
    using kv by (simp add: scan_accept_def mod_of_def)
  have "in_turn st clock (last (scan_rev st # map mod_of (take i (event # events))))
      ((event # events) ! i)" if "i < Suc n" for i
    using that turn acc by (cases i) (auto simp: accepts_def rev)
  then show ?thesis
    using acc kv by (auto simp: accepts_def rev scan_accept_def not_fill_def mod_of_def)
qed

lemma poll_scan_accepts:
  "poll_scan d clock events st s = Some (st', s') \<Longrightarrow> \<exists>n. accepts d clock events st n st'"
proof (induction events arbitrary: st)
  case Nil
  then show ?case by (auto simp: accepts_def)
next
  case (Cons event events)
  obtain kv where kv: "KV event = Some kv"
    using Cons.prems by (cases "KV event") auto
  show ?case
  proof (cases "in_turn st clock (scan_rev st) event")
    case False
    with Cons.prems kv
    have "scan_rev st' = scan_rev st" "sequential st' = sequential st" "saveLast st' = saveLast st"
      by (auto simp: Let_def in_turn_def mod_of_def bind_Some_iff split: if_splits)
    then show ?thesis by (intro exI [of _ 0]) (simp add: accepts_def)
  next
    case True
    with Cons.prems kv have "poll_scan d clock events (scan_accept d kv event st) s = Some (st', s')"
      by (auto simp: Let_def in_turn_def mod_of_def split: if_splits)
    from Cons.IH [OF this] accepts_Suc [OF kv True] show ?thesis by blast
  qed
qed

section \<open>Ordering and gaps of a round\<close>




text \<open>The events that a round sends, and the rows it has reported.\<close>

definition batch_of :: "Event list option \<Rightarrow> Event list" where
  "batch_of out = (case out of None \<Rightarrow> [] | Some batch \<Rightarrow> batch)"

abbreviation scan_of :: "poll_state \<Rightarrow> scan_state" where
  "scan_of p \<equiv> \<lparr>scan_rev = last_rev p, scan_skip = skip p, scan_skipTime = skipTime p,
                sequential = [], saveLast = False\<rparr>"

lemma RowsToEventsDds_Cons:
  "rows \<noteq> [] \<Longrightarrow> RowsToEventsDds rows =
     (MaxId (hd rows), CompactionPrevRevision (hd rows), map row_event rows, None)"
  by (cases rows) (simp_all add: RowsToEventsDds_def)

lemma RowsToEventsDds_Nil [simp]: "RowsToEventsDds [] = (0, 0, [], None)"
  by (simp add: RowsToEventsDds_def)

lemma RowsToEventsDds_events: "fst (snd (snd (RowsToEventsDds rows))) = map row_event rows"
  by (cases rows) (simp_all add: RowsToEventsDds_def)

text \<open>A round that read rows without an error accepts a prefix of them.\<close>

lemma poll_body_accepts:
  assumes "d_After d ''%'' (last_rev p) pollBatchSize (d_world s) = Some ((rows, None), w)"
    and "poll_body d clock p s = Some ((p', out), s')"
  obtains n st where "accepts d clock (map row_event rows) (scan_of p) n st"
    and "last_rev p' = scan_rev st" and "batch_of out = sequential st"
    and "skip p' = scan_skip st" and "skipTime p' = scan_skipTime st"
proof (cases "rows = []")
  case True
  with assms have "last_rev p' = last_rev p" "out = None" "skip p' = skip p" "skipTime p' = skipTime p"
    by (auto simp: poll_body_def lift_d_def)
  with True show thesis
    by (intro that [of 0 "scan_of p"]) (simp_all add: accepts_def batch_of_def)
next
  case False
  with assms obtain st s1 where
    scan: "poll_scan d clock (map row_event rows) (scan_of p) (s\<lparr>d_world := w\<rparr>) = Some (st, s1)"
    and p': "last_rev p' = (if saveLast st then scan_rev st else last_rev p)"
      "skip p' = scan_skip st" "skipTime p' = scan_skipTime st"
    and out: "out = (if saveLast st \<and> sequential st \<noteq> [] then Some (sequential st) else None)"
    by (auto simp: poll_body_def lift_d_def RowsToEventsDds_Cons bind_Some_iff)
  from poll_scan_accepts [OF scan] obtain n
    where n: "accepts d clock (map row_event rows) (scan_of p) n st" by blast
  then have "saveLast st \<longleftrightarrow> 0 < n" "\<not> saveLast st \<longrightarrow> scan_rev st = last_rev p \<and> sequential st = []"
    by (auto simp: accepts_def)
  with n p' out show thesis by (intro that [of n st]) (auto simp: batch_of_def)
qed


section \<open>The source of the rows\<close>

text \<open>
  What the poller needs of a dialect: the rows after a revision ascend strictly and lie after it.
  The predicate \<open>good\<close> is the invariant under which the dialect promises this.
\<close>

locale poll_source =
  fixes d :: "'w Dialect" and good :: "'w \<Rightarrow> bool"
  assumes after_sorted:
    "good w \<Longrightarrow> d_After d pre rv limit w = Some ((rows, err), w') \<Longrightarrow>
       good w' \<and>
       (err = None \<longrightarrow> sorted_wrt (<) (map Theid rows) \<and> (\<forall>r \<in> set rows. rv < Theid r \<and> Theid r < 2 ^ 63))"
    and fill_good: "good w \<Longrightarrow> d_Fill d rv w = Some (err, w') \<Longrightarrow> good w'"
begin

lemma poll_scan_good:
  "good (d_world s) \<Longrightarrow> poll_scan d clock events st s = Some (st', s') \<Longrightarrow> good (d_world s')"
proof (induction events arbitrary: st)
  case (Cons event events)
  then obtain kv where kv: "KV event = Some kv" by (cases "KV event") auto
  show ?case
  proof (cases "in_turn st clock (scan_rev st) event")
    case True
    with Cons.prems kv have "poll_scan d clock events (scan_accept d kv event st) s = Some (st', s')"
      by (auto simp: Let_def in_turn_def mod_of_def split: if_splits)
    with Cons show ?thesis by blast
  next
    case False
    with Cons.prems kv show ?thesis
      by (auto simp: Let_def in_turn_def mod_of_def lift_d_def bind_Some_iff dest: fill_good split: if_splits)
  qed
qed simp

text \<open>One body of the loop: its batch ascends, starts after the last revision and ends by the new one.\<close>

lemma poll_body_ascending:
  assumes g: "good (d_world s)" and run: "poll_body d clock p s = Some ((p', out), s')"
  shows "good (d_world s')"
    and "sorted_wrt (<) (map mod_of (batch_of out))"
    and "\<forall>e \<in> set (batch_of out). last_rev p < mod_of e \<and> mod_of e \<le> last_rev p'"
    and "last_rev p \<le> last_rev p'"
proof -
  obtain rows err w where aft: "d_After d ''%'' (last_rev p) pollBatchSize (d_world s) = Some ((rows, err), w)"
    using run by (cases "d_After d ''%'' (last_rev p) pollBatchSize (d_world s)")
      (auto simp: poll_body_def lift_d_def)
  have gw: "good w" using after_sorted [OF g aft] by blast
  have *: "good (d_world s') \<and> sorted_wrt (<) (map mod_of (batch_of out)) \<and>
      (\<forall>e \<in> set (batch_of out). last_rev p < mod_of e \<and> mod_of e \<le> last_rev p') \<and>
      last_rev p \<le> last_rev p'"
  proof (cases err)
    case (Some e)
    with run aft gw show ?thesis by (auto simp: poll_body_def lift_d_def batch_of_def)
  next
    case None
    with after_sorted [OF g aft] have
      srt: "sorted_wrt (<) (map Theid rows)" and above: "\<forall>r \<in> set rows. last_rev p < Theid r" by auto
    have gs: "good (d_world s')"
    proof (cases "rows = []")
      case True
      with run aft None gw show ?thesis by (auto simp: poll_body_def lift_d_def)
    next
      case False
      with run aft None obtain st where
        "poll_scan d clock (map row_event rows) (scan_of p) (s\<lparr>d_world := w\<rparr>) = Some (st, s')"
        by (auto simp: poll_body_def lift_d_def RowsToEventsDds_Cons bind_Some_iff)
      then show ?thesis using poll_scan_good [of "s\<lparr>d_world := w\<rparr>"] gw by simp
    qed
    from aft None have "d_After d ''%'' (last_rev p) pollBatchSize (d_world s) = Some ((rows, None), w)" by simp
    from poll_body_accepts [OF this run] obtain n st
      where acc: "accepts d clock (map row_event rows) (scan_of p) n st"
        and p': "last_rev p' = scan_rev st" and out: "batch_of out = sequential st" .
    let ?t = "map row_event (take n rows)"
    have batch: "batch_of out = filter (not_fill d) ?t"
      and lst: "last_rev p' = last (last_rev p # map Theid (take n rows))"
      using acc p' out by (simp_all add: accepts_def take_map comp_def)
    have st: "sorted_wrt (<) (map Theid (take n rows))"
      using srt by (simp add: take_map [symmetric] sorted_wrt_take)
    then have "sorted_wrt (<) (map mod_of ?t)" by (simp add: comp_def)
    then have asc: "sorted_wrt (<) (map mod_of (batch_of out))"
      unfolding batch by (simp add: sorted_wrt_map sorted_wrt_filter)
    have "x \<le> last (last_rev p # map Theid (take n rows))" if "x \<in> set (last_rev p # map Theid (take n rows))" for x
    proof -
      have "sorted_wrt (<) (last_rev p # map Theid (take n rows))"
        using st above by (auto dest: in_set_takeD)
      with that show ?thesis
        by (cases "last_rev p # map Theid (take n rows)" rule: rev_cases) (auto simp: sorted_wrt_append)
    qed
    then show ?thesis
      using gs asc above unfolding lst batch by (auto dest: in_set_takeD)
  qed
  then show "good (d_world s')" "sorted_wrt (<) (map mod_of (batch_of out))"
    "\<forall>e \<in> set (batch_of out). last_rev p < mod_of e \<and> mod_of e \<le> last_rev p'"
    "last_rev p \<le> last_rev p'" by blast+
qed

text \<open>What other goroutines do between two rounds keeps the invariant.\<close>

definition calm :: "(wake \<times> (Event \<Rightarrow> int64) \<times> ('w SQLLog \<Rightarrow> 'w SQLLog)) list \<Rightarrow> bool" where
  "calm rounds \<longleftrightarrow> (\<forall>(wk, clock, env) \<in> set rounds. \<forall>s. good (d_world s) \<longrightarrow> good (d_world (env s)))"

text \<open>Over a whole run no revision is delivered twice or out of order.\<close>

lemma poll_run_ascending:
  "good (d_world s) \<Longrightarrow> calm rounds \<Longrightarrow> poll_run d rounds p s = Some (outs, s') \<Longrightarrow>
     sorted_wrt (<) (map mod_of (concat outs)) \<and> (\<forall>e \<in> set (concat outs). last_rev p < mod_of e)"
proof (induction rounds arbitrary: p s outs)
  case (Cons round rounds)
  obtain wk clock env where r: "round = (wk, clock, env)" by (cases round) auto
  have g: "good (d_world (env s))" and calm: "calm rounds"
    using Cons.prems(1,2) r by (auto simp: calm_def)
  obtain p' out s1 where rd: "poll_round d clock wk p (env s) = Some ((p', out), s1)"
    using Cons.prems(3) r by (auto simp: bind_Some_iff)
  show ?case
  proof (cases p')
    case None
    with Cons.prems(3) r rd show ?thesis by auto
  next
    case (Some p1)
    then obtain outs' where rest: "poll_run d rounds p1 s1 = Some (outs', s')"
      and outs: "concat outs = batch_of out @ concat outs'"
      using Cons.prems(3) r rd by (auto simp: bind_Some_iff batch_of_def split: option.splits)
    consider "p1 = p" "out = None" "s1 = env s" | "poll_body d clock p (env s) = Some ((p1, out), s1)"
      using rd Some by (auto simp: poll_round_def bind_Some_iff split: if_splits)
    then show ?thesis
    proof cases
      case 1
      with Cons.IH [OF _ calm rest] g outs show ?thesis by (simp add: batch_of_def)
    next
      case 2
      note b = poll_body_ascending [OF g 2]
      with Cons.IH [OF _ calm rest] outs show ?thesis
        by (force simp: sorted_wrt_append)
    qed
  qed
qed simp

end


section \<open>Progress\<close>

text \<open>Rows without a gap are all accepted.\<close>

lemma poll_scan_consecutive:
  assumes "\<forall>e \<in> set events. KV e \<noteq> None" and "0 \<le> scan_rev st" and "scan_rev st + int (length events) < 2 ^ 63"
    and "map mod_of events = [scan_rev st + 1 .. scan_rev st + int (length events)]"
  shows "poll_scan d clock events st s = Some
    (st\<lparr>scan_rev := scan_rev st + int (length events), saveLast := saveLast st \<or> events \<noteq> [],
        sequential := sequential st @ filter (not_fill d) events\<rparr>, s)"
  using assms
proof (induction events arbitrary: st)
  case (Cons event events)
  obtain kv where kv: "KV event = Some kv" using Cons.prems(1) by auto
  have up: "[scan_rev st + 1 .. scan_rev st + int (length (event # events))] =
      (scan_rev st + 1) # [scan_rev st + 2 .. scan_rev st + int (length (event # events))]"
    using upto_rec1 [of "scan_rev st + 1" "scan_rev st + int (length (event # events))"]
    by (simp add: add.assoc)
  have rv: "ModRevision kv = scan_rev st + 1"
    and tl: "map mod_of events = [scan_rev st + 2 .. scan_rev st + 1 + int (length events)]"
    using Cons.prems(4) kv mod_of_def [of event] unfolding up by (simp_all add: algebra_simps)
  have wrap: "i64 (scan_rev st + 1) = scan_rev st + 1"
    using Cons.prems by (intro i64_id) auto
  let ?st = "scan_accept d kv event st"
  have "poll_scan d clock events ?st s = Some
    (?st\<lparr>scan_rev := scan_rev ?st + int (length events), saveLast := saveLast ?st \<or> events \<noteq> [],
        sequential := sequential ?st @ filter (not_fill d) events\<rparr>, s)"
    using Cons.prems rv tl by (intro Cons.IH) (auto simp: scan_accept_def add.commute [of 2])
  then show ?case
    using kv rv wrap not_fill_def [of d event] by (simp add: scan_accept_def algebra_simps)
qed simp

text \<open>
  Rows that follow the last revision without a gap are all delivered in one round, in their
  order and without the filler rows, and the last revision moves to that of the last row.
\<close>

lemma poll_body_all_rows:
  assumes aft: "d_After d ''%'' (last_rev p) pollBatchSize (d_world s) = Some ((rows, None), w)"
    and pos: "0 \<le> last_rev p" "last_rev p + int (length rows) < 2 ^ 63"
    and seq: "map Theid rows = [last_rev p + 1 .. last_rev p + int (length rows)]"
  shows "\<exists>p' out. poll_body d clock p s = Some ((p', out), s\<lparr>d_world := w\<rparr>) \<and>
     last_rev p' = last_rev p + int (length rows) \<and>
     batch_of out = filter (not_fill d) (map row_event rows)"
proof (cases "rows = []")
  case True
  with aft show ?thesis by (simp add: poll_body_def lift_d_def batch_of_def)
next
  case False
  have "poll_scan d clock (map row_event rows) (scan_of p) (s\<lparr>d_world := w\<rparr>) = Some
    ((scan_of p)\<lparr>scan_rev := last_rev p + int (length rows), saveLast := True,
        sequential := filter (not_fill d) (map row_event rows)\<rparr>, s\<lparr>d_world := w\<rparr>)"
    using pos seq False
    by (subst poll_scan_consecutive) (auto simp: row_event_def mod_of_def comp_def)
  with False aft show ?thesis
    by (simp add: poll_body_def lift_d_def RowsToEventsDds_Cons batch_of_def)
qed

lemma row_event_kv:
  obtains kv where "KV (row_event r) = Some kv" "ModRevision kv = Theid r"
  by (simp add: row_event_def)

text \<open>
  When the first row does not follow the last revision and the gap is new, the round delivers
  nothing, remembers the missing revision with the time, and asks for another round.
\<close>

lemma poll_body_gap_noted:
  assumes "d_After d ''%'' (last_rev p) pollBatchSize (d_world s) = Some ((r # rs, None), w)"
    and "Theid r \<noteq> i64 (last_rev p + 1)" "skip p \<noteq> i64 (last_rev p + 1)"
  shows "poll_body d clock p s = Some
    ((p\<lparr>skip := i64 (last_rev p + 1), skipTime := clock (row_event r),
        waitForMore := length (r # rs) < 100\<rparr>, None),
     notify_send (i64 (last_rev p + 1)) (s\<lparr>d_world := w\<rparr>))"
proof -
  obtain kv where "KV (row_event r) = Some kv" "ModRevision kv = Theid r" by (rule row_event_kv)
  with assms show ?thesis
    by (cases p) (simp add: poll_body_def lift_d_def RowsToEventsDds_def canSkipRevision_def Let_def)
qed

text \<open>
  A gap that is seen again within a second is filled: the missing revision is written as a
  filler row, nothing is delivered, and another round is asked for when the write succeeded.
\<close>

lemma poll_body_gap_filled:
  assumes "d_After d ''%'' (last_rev p) pollBatchSize (d_world s) = Some ((r # rs, None), w)"
    and "Theid r \<noteq> i64 (last_rev p + 1)" "skip p = i64 (last_rev p + 1)"
    and "clock (row_event r) - skipTime p \<le> second"
    and "d_Fill d (i64 (last_rev p + 1)) w = Some (err, w')"
  shows "poll_body d clock p s = Some
    ((p\<lparr>waitForMore := length (r # rs) < 100\<rparr>, None),
     (if err = None then notify_send (i64 (last_rev p + 1)) (s\<lparr>d_world := w'\<rparr>)
      else s\<lparr>d_world := w'\<rparr>))"
proof -
  obtain kv where "KV (row_event r) = Some kv" "ModRevision kv = Theid r" by (rule row_event_kv)
  with assms show ?thesis
    by (cases p) (simp add: poll_body_def lift_d_def RowsToEventsDds_def canSkipRevision_def Let_def)
qed

text \<open>
  A gap that has been waited for more than a second is skipped: the round accepts the first
  row and delivers a non-empty prefix of the rows without the filler rows.
\<close>

lemma poll_body_gap_skipped:
  assumes "d_After d ''%'' (last_rev p) pollBatchSize (d_world s) = Some ((r # rs, None), w)"
    and "skip p = i64 (last_rev p + 1)" "clock (row_event r) - skipTime p > second"
    and run: "poll_body d clock p s = Some ((p', out), s')"
  shows "\<exists>n > 0. last_rev p' = Theid ((r # rs) ! (n - 1)) \<and> n \<le> length (r # rs) \<and>
     batch_of out = filter (not_fill d) (map row_event (take n (r # rs)))"
proof -
  let ?ev = "map row_event (r # rs)"
  obtain st s1 where scan: "poll_scan d clock ?ev (scan_of p) (s\<lparr>d_world := w\<rparr>) = Some (st, s1)"
    and p': "last_rev p' = (if saveLast st then scan_rev st else last_rev p)"
    and out: "out = (if saveLast st \<and> sequential st \<noteq> [] then Some (sequential st) else None)"
    using assms by (auto simp: poll_body_def lift_d_def RowsToEventsDds_Cons bind_Some_iff)
  obtain kv where kv: "KV (row_event r) = Some kv" using KV_row_event by blast
  have turn: "in_turn (scan_of p) clock (scan_rev (scan_of p)) (row_event r)"
    using assms(2,3) by (simp add: in_turn_def canSkipRevision_def)
  have "poll_scan d clock (map row_event rs) (scan_accept d kv (row_event r) (scan_of p))
      (s\<lparr>d_world := w\<rparr>) = Some (st, s1)"
    using scan kv assms(2,3) by (simp add: Let_def canSkipRevision_def)
  then obtain n where "accepts d clock (map row_event rs) (scan_accept d kv (row_event r) (scan_of p)) n st"
    using poll_scan_accepts by blast
  from accepts_Suc [OF kv turn this] have acc: "accepts d clock ?ev (scan_of p) (Suc n) st" by simp
  then have n: "Suc n \<le> length (r # rs)" and sv: "saveLast st" and
    sq: "sequential st = filter (not_fill d) (map row_event (take (Suc n) (r # rs)))"
    and rv: "scan_rev st = last (last_rev p # map Theid (take (Suc n) (r # rs)))"
    unfolding accepts_def by (simp_all add: take_map comp_def)
  have "last (last_rev p # map Theid (take (Suc n) (r # rs))) = Theid ((r # rs) ! n)"
    using n by (simp add: take_Suc_conv_app_nth del: take_Suc_Cons)
  then show ?thesis
    using n sv sq rv p' out by (intro exI [of _ "Suc n"]) (auto simp: batch_of_def)
qed



end
