(* ===== verification/Stack.thy ===== *)
theory Stack
  imports KeyStore Client Dds Compactor Poller
begin

text \<open>
  The components put together: \<open>LogStructured\<close> on \<open>SQLLog\<close> on the generic dialect on the DDS
  database. The contracts of \<open>KeyLog\<close> and \<open>KeyStore\<close> are discharged here on these definitions.
\<close>

section \<open>SQLLog as a log\<close>

text \<open>\<open>feed\<close> is what a subscription to the broadcaster delivers until it is closed.\<close>

definition sqllog_log ::
  "'w Dialect \<Rightarrow> ('w SQLLog, Event list list) go \<Rightarrow> 'w SQLLog Log" where
  "sqllog_log d feed =
     \<lparr>log_Start = SQLLog_Start d, log_CurrentRevision = SQLLog_CurrentRevision d,
      log_List = SQLLog_List d, log_After = SQLLog_After d,
      log_Watch = (\<lambda>pre s. do {
        (batches, s) \<leftarrow> feed s;
        events \<leftarrow> SQLLog_Watch batches pre;
        Some (events, s)
      }),
      log_Count = SQLLog_Count d, log_Append = SQLLog_Append d, log_DbSize = SQLLog_DbSize d\<rparr>"

lemma sqllog_log_simps [simp]:
  "log_Start (sqllog_log d feed) = SQLLog_Start d"
  "log_CurrentRevision (sqllog_log d feed) = SQLLog_CurrentRevision d"
  "log_List (sqllog_log d feed) = SQLLog_List d"
  "log_After (sqllog_log d feed) = SQLLog_After d"
  "log_Count (sqllog_log d feed) = SQLLog_Count d"
  "log_Append (sqllog_log d feed) = SQLLog_Append d"
  "log_DbSize (sqllog_log d feed) = SQLLog_DbSize d"
  by (simp_all add: sqllog_log_def)

section \<open>The log on the DDS database\<close>

definition comms :: "dds \<Rightarrow> database commsdb" where
  "comms D = InitialiseCommsConnexion (dds_client D)"

definition dds_log ::
  "dds \<Rightarrow> (database SQLLog, Event list list) go \<Rightarrow> database SQLLog Log" where
  "dds_log D feed = sqllog_log (generic_dialect (comms D)) feed"

definition event_of_msg :: "Msg \<Rightarrow> Event" where
  "event_of_msg m = row_event (row_of (generic_of 0 0 m))"

lemma row_event_generic [simp]: "row_event (row_of (generic_of a b m)) = event_of_msg m"
  by (simp add: event_of_msg_def row_event_def row_of_def generic_of_def)

lemma row_of_generic [simp]:
  "Theid (row_of (generic_of a b m)) = msg_id m" "MaxId (row_of (generic_of a b m)) = a"
  "CompactionPrevRevision (row_of (generic_of a b m)) = b"
  by (simp_all add: row_of_def generic_of_def)

lemma Delete_event_of_msg [simp]: "Delete (event_of_msg m) \<longleftrightarrow> msg_deleted m \<noteq> 0"
  by (auto simp: event_of_msg_def row_event_def row_of_def generic_of_def)

text \<open>The rows of a key by ascending identifier, as events.\<close>

definition rows_of :: "string \<Rightarrow> database \<Rightarrow> Msg list" where
  "rows_of k db = sort_key msg_id (filter (\<lambda>m. msg_name m = k) (reader db))"

lemma rows_of_Nil: "rows_of k db = [] \<longleftrightarrow> filter (\<lambda>m. msg_name m = k) (reader db) = []"
  unfolding rows_of_def by (simp only: length_0_conv [symmetric] length_sort)

definition dds_versions :: "database SQLLog \<Rightarrow> string \<Rightarrow> Event list" where
  "dds_versions s k = map event_of_msg (rows_of k (d_world s))"

definition dds_good :: "database SQLLog \<Rightarrow> bool" where
  "dds_good s \<longleftrightarrow> dds_ok (d_world s) \<and>
     (\<forall>m \<in> set (reader (d_world s)). fits32 (msg_create_revision m) \<and> fits32 (msg_lease m))"

definition dds_cur :: "database SQLLog \<Rightarrow> int64" where
  "dds_cur s = max_id_of (d_world s)"

definition dds_space :: "database SQLLog \<Rightarrow> bool" where
  "dds_space s \<longleftrightarrow> dds_room (d_world s)"

text \<open>A key that is listed as itself: without a percent sign, and not a directory.\<close>

definition plain_key :: "string \<Rightarrow> bool" where
  "plain_key k \<longleftrightarrow> CHR ''%'' \<notin> set k \<and> \<not> HasSuffix k ''/''"

lemma undisturbed_notify:
  "dds_good s \<Longrightarrow> d_world s' = d_world s \<Longrightarrow>
     undisturbed dds_good dds_versions dds_cur dds_space s s'"
  by (simp add: undisturbed_def dds_good_def dds_versions_def dds_cur_def dds_space_def fun_eq_iff)

lemma newest_last:
  assumes "distinct (map msg_id (reader db))" "filter (\<lambda>m. msg_name m = k) (reader db) = r # rs"
  shows "newest r rs = last (rows_of k db)"
proof -
  let ?l = "last (rows_of k db)"
  have ne: "rows_of k db \<noteq> []" using assms(2) by (simp add: rows_of_def)
  then have l: "?l \<in> set (rows_of k db)" by simp
  have "sorted (map msg_id (rows_of k db))" by (simp add: rows_of_def)
  then have "msg_id x \<le> msg_id ?l" if "x \<in> set (rows_of k db)" for x
    using that ne by (cases "rows_of k db" rule: rev_cases) (auto simp: sorted_append)
  then show ?thesis
    using newest_greatest [OF assms, of ?l] l by (auto simp: rows_of_def)
qed

text \<open>What the dialect answers for one key.\<close>

lemma query_one_key:
  assumes "dds_ok db" "plain_key k"
  shows "query_04 limit k t db = Some (
    case filter (\<lambda>m. msg_name m = k) (reader db) of
      [] \<Rightarrow> []
    | r # rs \<Rightarrow> (if t = ''f'' \<longrightarrow> msg_deleted r = 0
                then [generic_of (max_id_of db) (i32 (snd (query_find_common_values db)))
                        (last (rows_of k db))]
                else []))"
proof -
  have "dds_read (filter_query04 k) (reader db) = Some (filter (\<lambda>m. msg_name m = k) (reader db))"
    using assms(2) by (intro dds_ok_read [OF assms(1)]) (simp add: filter_query04_def plain_key_def)
  moreover have "query_common_subquery (filter (\<lambda>m. msg_name m = k) (reader db)) a b t =
    (case filter (\<lambda>m. msg_name m = k) (reader db) of
       [] \<Rightarrow> []
     | r # rs \<Rightarrow> (if t = ''f'' \<longrightarrow> msg_deleted r = 0
                 then [generic_of (i32 a) (i32 b) (newest r rs)] else []))" for a b
    by (rule query_common_subquery_single [of _ k]) simp
  moreover have "i32 (max_id_of db) = max_id_of db"
    using assms(1) max_id_of_nonneg [of db] by (simp add: dds_ok_def wrap_simps)
  ultimately show ?thesis
    using newest_last [of db k] assms(1)
    by (auto simp: query_04_def query_find_common_values_def max_id_of_def dds_ok_def apply_limit_def
        Let_def split: list.split)
qed


lemma generic_list_current:
  assumes "dds_good s" "plain_key k"
  shows "SQLLog_List (generic_dialect (comms D)) k [] limit 0 del s =
    (let rows = (case filter (\<lambda>m. msg_name m = k) (reader (d_world s)) of
        [] \<Rightarrow> []
      | r # rs \<Rightarrow> (if del \<or> msg_deleted r = 0 then [last (rows_of k (d_world s))] else []))
     in Some ((if rows = [] then 0 else dds_cur s, map event_of_msg rows, None),
              notify_send (if rows = [] then 0 else dds_cur s) s))"
proof -
  have "dds_ok (d_world s)" using assms(1) by (simp add: dds_good_def)
  note q = query_one_key [OF this assms(2)]
  show ?thesis
    using assms(2)
    by (simp add: SQLLog_List_def plain_key_def lift_d_def Generic_ListCurrent_def remote_defs comms_def
        dds_client_def expose_querygeneric_def q parseIcludeDelete_def RowsToEventsDds_def dds_cur_def
        row_of_def generic_of_def event_of_msg_def row_event_def Let_def wrap_simps split: list.split)
qed

section \<open>The contract holds\<close>

text \<open>The middleware, as an interface: what \<open>dds_keyed\<close> says of it.\<close>

locale dds_middleware =
  fixes D :: dds
  assumes keyed: "dds_keyed D"

text \<open>The message that \<open>Append\<close> sends for an event.\<close>

definition insert_of :: "Event \<Rightarrow> KineInsert" where
  "insert_of e =
     \<lparr>ki_Id = -1, ki_Name = Key (the_kv (KV e)), ki_Created = (if Create e then 1 else 0),
      ki_Deleted = (if Delete e then 1 else 0), ki_CreateRevision = CreateRevision (the_kv (KV e)),
      ki_PrevRevision = ModRevision (the_kv (PrevKV e)), ki_Lease = Lease (the_kv (KV e)),
      ki_Value = Value (the_kv (KV e)), ki_OldValue = Value (the_kv (PrevKV e))\<rparr>"

lemma fits32_i32: "fits32 x \<Longrightarrow> i32 x = x"
  by (simp add: fits32_def wrap_simps)

lemma event_of_stored:
  assumes "storable e" "0 < rv" "rv < 2 ^ 31"
  shows "event_of_msg (msg_of rv (insert_of e)) = stored rv e"
  using assms
  by (auto simp: event_of_msg_def row_event_def row_of_def generic_of_def msg_of_def insert_of_def
      stored_def storable_def fits32_i32 wrap_simps the_kv_def KeyValue_zero_def split: option.splits)

lemma sorted_rows_unique:
  assumes "distinct (map msg_id xs)" "distinct (map msg_id ys)" "set xs = set ys"
    and "sorted (map msg_id xs)" "sorted (map msg_id ys)"
  shows "xs = ys"
  using assms by (intro map_sorted_distinct_set_unique [of msg_id]) (auto simp: distinct_map)

lemma rows_of_insert:
  assumes ok: "dds_ok db" "dds_ok db'" and new: "set (reader db') = insert m (set (reader db))"
    and top: "\<forall>x \<in> set (reader db). msg_id x < msg_id m"
  shows "rows_of k db' = (if msg_name m = k then rows_of k db @ [m] else rows_of k db)"
proof (rule sorted_rows_unique)
  have d: "distinct (map msg_id (rows_of k x))" if "dds_ok x" for x
    using that by (auto simp: rows_of_def dds_ok_def distinct_map inj_on_def)
  show "distinct (map msg_id (rows_of k db'))" using ok by (simp add: d)
  show "distinct (map msg_id (if msg_name m = k then rows_of k db @ [m] else rows_of k db))"
    using d [OF ok(1)] top by (auto simp: rows_of_def)
  show "sorted (map msg_id (if msg_name m = k then rows_of k db @ [m] else rows_of k db))"
    using top by (auto simp: rows_of_def sorted_append)
qed (use new in \<open>auto simp: rows_of_def\<close>)

context dds_middleware
begin

lemma append_event:
  assumes g: "dds_good s" "dds_space s" and kv: "KV e = Some kv" and e: "storable e"
  shows "\<exists>s'. SQLLog_Append (generic_dialect (comms D)) e s = Some ((dds_cur s + 1, None), s') \<and>
     dds_good s' \<and> dds_cur s' = dds_cur s + 1 \<and>
     dds_versions s' =
       (dds_versions s)(Key kv := dds_versions s (Key kv) @ [stored (dds_cur s + 1) e]) \<and>
     length (reader (d_world s')) \<le> Suc (length (reader (d_world s)))"
proof -
  let ?db = "d_world s" and ?M = "dds_cur s + 1"
  have ok: "dds_ok ?db" "dds_room ?db"
    using g by (simp_all add: dds_good_def dds_space_def)
  have M: "0 < ?M" "?M < 2 ^ 31"
    using max_id_of_nonneg [of ?db] ok(2) by (simp_all add: dds_cur_def dds_room_def)
  obtain db' where pub: "expose_publish D (insert_of e) ?db = ((?M, False), db')"
    and ok': "dds_ok db'" "max_id_of db' = ?M"
    and set: "set (reader db') = insert (msg_of ?M (insert_of e)) (set (reader ?db))"
    using publish_fresh [OF keyed ok, of "insert_of e"]
    by (auto simp: dds_cur_def insert_of_def)
  let ?s' = "notify_send ?M (s\<lparr>d_world := db'\<rparr>)"
  have run: "SQLLog_Append (generic_dialect (comms D)) e s = Some ((?M, None), ?s')"
    using pub M
    by (simp add: SQLLog_Append_def lift_d_def Generic_Insert_def remote_defs comms_def dds_client_def
        insert_of_def Let_def wrap_simps the_kv_def split: option.split)
  have m: "msg_id (msg_of ?M (insert_of e)) = ?M" "msg_name (msg_of ?M (insert_of e)) = Key kv"
    using M kv by (simp_all add: msg_of_def insert_of_def wrap_simps)
  have "\<forall>x \<in> set (reader ?db). msg_id x < ?M" using ok(1) by (force simp: dds_ok_def dds_cur_def)
  then have rows: "rows_of k db' =
      (if Key kv = k then rows_of k ?db @ [msg_of ?M (insert_of e)] else rows_of k ?db)" for k
    using rows_of_insert [OF ok(1) ok'(1) set] m by simp
  have "dds_good ?s'"
    using g ok' set e kv
    by (auto simp: dds_good_def msg_of_def insert_of_def storable_def fits32_i32)
  moreover have "dds_versions ?s' = (dds_versions s)(Key kv := dds_versions s (Key kv) @ [stored ?M e])"
    using event_of_stored [OF e M] by (auto simp: dds_versions_def rows fun_eq_iff)
  moreover have "length (reader db') \<le> Suc (length (reader ?db))"
    using ok'(1) set
    by (intro length_distinct_set [where f = msg_id and m = "msg_of ?M (insert_of e)"]) (simp_all add: dds_ok_def)
  ultimately show ?thesis using run ok'(2) by (auto simp: dds_cur_def)
qed

end

sublocale dds_middleware \<subseteq>
  log: key_log "dds_log D feed" dds_good dds_versions dds_cur dds_space plain_key
  for feed :: "(database SQLLog, Event list list) go"
proof
  fix s :: "database SQLLog" and k limit del e kv
  assume s: "dds_good s"
  then have ok: "dds_ok (d_world s)" by (simp add: dds_good_def)
  show "plain_key k \<Longrightarrow> del \<or> (\<forall>e \<in> set (dds_versions s k). \<not> Delete e) \<Longrightarrow>
       \<exists>s'. log_List (dds_log D feed) k [] limit 0 del s =
              Some ((if dds_versions s k = [] then 0 else dds_cur s, latest (dds_versions s k), None), s') \<and>
            undisturbed dds_good dds_versions dds_cur dds_space s s'"
  proof -
    assume k: "plain_key k" and del: "del \<or> (\<forall>e \<in> set (dds_versions s k). \<not> Delete e)"
    let ?rows = "if dds_versions s k = [] then [] else [last (rows_of k (d_world s))]"
    let ?F = "filter (\<lambda>m. msg_name m = k) (reader (d_world s))"
    have live: "del \<or> msg_deleted r = 0" if "?F = r # rs" for r rs
    proof -
      have "r \<in> set ?F" by (simp add: that)
      then have "event_of_msg r \<in> set (dds_versions s k)" by (simp add: dds_versions_def rows_of_def)
      then show ?thesis using del by auto
    qed
    have "dds_versions s k = [] \<longleftrightarrow> ?F = []"
      by (simp add: dds_versions_def rows_of_Nil)
    then have "(case ?F of [] \<Rightarrow> []
        | r # rs \<Rightarrow> (if del \<or> msg_deleted r = 0 then [last (rows_of k (d_world s))] else [])) = ?rows"
      using live by (simp split: list.split)
    then have "SQLLog_List (generic_dialect (comms D)) k [] limit 0 del s =
        Some ((if ?rows = [] then 0 else dds_cur s, map event_of_msg ?rows, None),
              notify_send (if ?rows = [] then 0 else dds_cur s) s)"
      by (simp only: generic_list_current [OF s k] Let_def)
    then show ?thesis
      using undisturbed_notify [OF s]
      by (auto simp: dds_log_def latest_def dds_versions_def last_map)
  qed
  show "dds_space s \<Longrightarrow> KV e = Some kv \<Longrightarrow> plain_key (Key kv) \<Longrightarrow> storable e \<Longrightarrow>
       \<exists>s'. log_Append (dds_log D feed) e s = Some ((dds_cur s + 1, None), s') \<and> dds_good s' \<and>
          dds_cur s' = dds_cur s + 1 \<and>
          dds_versions s' =
            (dds_versions s)(Key kv := dds_versions s (Key kv) @ [stored (dds_cur s + 1) e])"
    using append_event [OF s, of e kv] by (auto simp: dds_log_def)
  show "\<exists>s'. log_CurrentRevision (dds_log D feed) s = Some ((dds_cur s, None), s') \<and>
       undisturbed dds_good dds_versions dds_cur dds_space s s'"
    using undisturbed_notify [OF s, of s]
    by (simp add: dds_log_def SQLLog_CurrentRevision_def lift_d_def Generic_CurrentRevision_def
        remote_defs comms_def dds_client_def dds_cur_def max_id_of_def)
  show "0 \<le> dds_cur s" by (simp add: dds_cur_def max_id_of_nonneg)
  show "fits32 (dds_cur s)"
    using ok max_id_of_nonneg [of "d_world s"] by (simp add: dds_cur_def fits32_def dds_ok_def)
  show "e \<in> set (dds_versions s k) \<Longrightarrow>
       \<exists>kv. KV e = Some kv \<and> Key kv = k \<and> 0 < ModRevision kv \<and> ModRevision kv \<le> dds_cur s \<and>
            fits32 (CreateRevision kv) \<and> fits32 (ModRevision kv) \<and> fits32 (Lease kv)"
    using s
    by (auto simp: dds_versions_def rows_of_def dds_good_def dds_ok_def dds_cur_def event_of_msg_def
        row_event_def row_of_def generic_of_def fits32_def)
qed


section \<open>The database as a source of rows\<close>

text \<open>What the poller needs: identifiers of 32 bits that occur once.\<close>

definition ids_ok :: "database \<Rightarrow> bool" where
  "ids_ok db \<longleftrightarrow> distinct (map msg_id (reader db)) \<and> (\<forall>m \<in> set (reader db). msg_id m < 2 ^ 31)"

lemma ids_ok_dds: "dds_ok db \<Longrightarrow> ids_ok db"
  by (force simp: ids_ok_def dds_ok_def)

lemma After_dds:
  "Generic_After (comms D) pre rv limit db =
     (case query_01 (i32 (if limit = 0 then -1 else limit)) pre (FormatInt rv) db of
        None \<Rightarrow> Some (([], Some handler_error), db)
      | Some gs \<Rightarrow> Some ((map row_of gs, None), db))"
  by (simp add: Generic_After_def remote_defs comms_def dds_client_def expose_querygeneric_def
      i32_def Let_def split: option.split)

context dds_middleware
begin

lemma write_ids:
  assumes "ids_ok db" "msg_id m < 2 ^ 31"
  shows "ids_ok (db\<lparr>reader := dds_write D m (reader db)\<rparr>)"
  using assms keyed by (auto simp: ids_ok_def dds_keyed_def)

lemma publish_ids:
  assumes "ids_ok db" shows "ids_ok (snd (expose_publish D k db))"
proof -
  have "msg_id (msg_of i k) < 2 ^ 31" for i using i32_bounds [of i] by (simp add: msg_of_def)
  then show ?thesis
    using assms write_ids [of "db\<lparr>reader_maxid := _\<rparr>"] write_ids [of db]
    by (auto simp: expose_publish_def core_publish_def core_publish_returningid_def
        query_maxid_and_replace_def Let_def ids_ok_def)
qed

end

sublocale dds_middleware \<subseteq> source: poll_source "generic_dialect (comms D)" ids_ok
proof
  fix db db' pre rv limit rows err
  assume g: "ids_ok db"
    and a: "d_After (generic_dialect (comms D)) pre rv limit db = Some ((rows, err), db')"
  have d: "distinct (map msg_id (reader db))" using g by (simp add: ids_ok_def)
  show "ids_ok db' \<and> (err = None \<longrightarrow> sorted_wrt (<) (map Theid rows) \<and>
      (\<forall>r \<in> set rows. rv < Theid r \<and> Theid r < 2 ^ 63))"
  proof (cases "query_01 (i32 (if limit = 0 then -1 else limit)) pre (FormatInt rv) db")
    case None
    with a g show ?thesis by (simp add: After_dds)
  next
    case (Some gs)
    with a have r: "rows = map row_of gs" "db' = db" by (simp_all add: After_dds)
    have "map Theid rows = map sg_theid gs" by (simp add: r row_of_def)
    then have "sorted_wrt (<) (map Theid rows)" using query_01_ascending(1) [OF d Some] by simp
    moreover have "rv < sg_theid x \<and> sg_theid x < 2 ^ 63" if x: "x \<in> set gs" for x
    proof -
      obtain n m where "stoi (FormatInt rv) = Some n" "n < sg_theid x" "m \<in> set (reader db)" "sg_theid x = msg_id m"
        using query_01_ascending(2) [OF d Some x] by blast
      moreover from this g have "msg_id m < 2 ^ 31" by (simp add: ids_ok_def)
      ultimately show ?thesis by (auto simp: stoi_FormatInt split: if_splits)
    qed
    ultimately show ?thesis
      using g r(2) unfolding r(1) by (auto simp: row_of_def)
  qed
next
  fix db rv err db'
  assume g: "ids_ok db" and f: "d_Fill (generic_dialect (comms D)) rv db = Some (err, db')"
  let ?k = "\<lparr>ki_Id = rv, ki_Name = ''gap-'' @ FormatInt rv, ki_Created = 0, ki_Deleted = 1,
    ki_CreateRevision = 0, ki_PrevRevision = 0, ki_Lease = 0, ki_Value = [], ki_OldValue = []\<rparr>"
  have "db' = snd (expose_publish D ?k db)"
    using f by (auto simp: Generic_Fill_def remote_defs comms_def dds_client_def split: prod.splits if_splits)
  then show "ids_ok db'" using publish_ids [OF g] by simp
qed

text \<open>The middleware of \<open>Dds\<close> that keeps the order of the first writes is one.\<close>

interpretation in_order: dds_middleware in_order
  by unfold_locales (rule in_order_keyed)


section \<open>The contracts for every middleware\<close>

context dds_middleware
begin

lemma is_log: "key_log (dds_log D feed) dds_good dds_versions dds_cur dds_space plain_key"
  by (rule log.key_log_axioms)

lemma is_store:
  "key_store (logstructured_backend (dds_log D feed)) dds_good dds_versions dds_cur dds_space plain_key"
  by (rule log.store.key_store_axioms)

lemma is_source: "poll_source (generic_dialect (comms D)) ids_ok"
  by (rule source.poll_source_axioms)

end

lemmas dds_append = dds_middleware.append_event [OF dds_middleware.intro]
lemmas dds_is_log = dds_middleware.is_log [OF dds_middleware.intro]
lemmas dds_is_store = dds_middleware.is_store [OF dds_middleware.intro]
lemmas dds_is_source = dds_middleware.is_source [OF dds_middleware.intro]

section \<open>Answers of the whole stack\<close>

text \<open>The rows of a key, in the order in which the middleware returns them.\<close>

definition samples_of :: "string \<Rightarrow> database SQLLog \<Rightarrow> Msg list" where
  "samples_of k s = filter (\<lambda>m. msg_name m = k) (reader (d_world s))"

lemma Get_by_first_sample:
  assumes "dds_good s" "plain_key k" "samples_of k s = r # rs"
  shows "\<exists>s'. LogStructured_Get (dds_log D feed) k [] limit 0 s =
      Some ((dds_cur s, if msg_deleted r = 0 then KV (last (dds_versions s k)) else None, None), s') \<and>
    d_world s' = d_world s"
proof -
  have "r \<in> set (reader (d_world s))"
    using assms(3) by (metis filter_is_subset list.set_intros(1) samples_of_def subsetD)
  then have "0 < dds_cur s" using assms(1) by (force simp: dds_good_def dds_ok_def dds_cur_def)
  moreover have "rows_of k (d_world s) \<noteq> []" using assms(3) by (simp add: rows_of_Nil samples_of_def)
  moreover have "SQLLog_CurrentRevision (generic_dialect (comms D)) s' = Some ((max_id_of (d_world s'), None), s')" for s'
    by (simp add: SQLLog_CurrentRevision_def lift_d_def Generic_CurrentRevision_def remote_defs
        comms_def dds_client_def max_id_of_def)
  ultimately show ?thesis
    using assms(3) generic_list_current [OF assms(1,2), where del = False and D = D and limit = limit]
    by (simp add: LogStructured_Get_def LogStructured_get_def adjustRevision_def dds_log_def samples_of_def
        dds_versions_def last_map dds_cur_def Let_def)
qed

text \<open>The count of a pattern: the dialect swaps the two numbers of the remote answer.\<close>

lemma Count_dds:
  assumes "dds_good s" "HasSuffix pre ''/''"
  shows "SQLLog_Count (generic_dialect (comms D)) pre s = Some
    ((int (card (msg_name ` {m \<in> set (reader (d_world s)). name_matches (pre @ ''%'') m})), dds_cur s, None), s)"
proof -
  let ?db = "d_world s"
  let ?ms = "filter (name_matches (pre @ ''%'')) (reader ?db)"
  have ok: "dds_ok ?db" using assms(1) by (simp add: dds_good_def)
  have "dds_read (filter_query04 (pre @ ''%'')) (reader ?db) = Some ?ms"
    by (intro dds_ok_read [OF ok]) (simp add: filter_query04_def)
  moreover have len: "length (query_common_subquery ?ms a b [CHR 0x27, CHR ''f'', CHR 0x27]) =
      card (msg_name ` {m \<in> set (reader ?db). name_matches (pre @ ''%'') m})" for a b
    by (simp add: length_query_common_subquery)
  moreover have "card (msg_name ` {m \<in> set (reader ?db). name_matches (pre @ ''%'') m}) \<le> 10000"
  proof -
    have "card (msg_name ` set ?ms) \<le> length ?ms" by (metis card_length length_map list.set_map)
    also have "\<dots> \<le> length (reader ?db)" by (rule length_filter_le)
    finally show ?thesis using ok by (simp add: dds_ok_def maximum_messages_def)
  qed
  ultimately have "query_03 (pre @ ''%'') [CHR 0x27, CHR ''f'', CHR 0x27] ?db = Some (dds_cur s,
      int (card (msg_name ` {m \<in> set (reader ?db). name_matches (pre @ ''%'') m})))"
    using ok max_id_of_nonneg [of ?db]
    by (simp add: query_03_def query_04_def query_find_common_values_def apply_limit_def maximum_messages_def
        dds_cur_def max_id_of_def [symmetric] dds_ok_def wrap_simps)
  then show ?thesis
    using assms(2) max_id_of_nonneg [of ?db]
    by (simp add: SQLLog_Count_def lift_d_def Generic_Count_def remote_defs comms_def dds_client_def
        dds_cur_def)
qed

text \<open>The compaction row.\<close>

lemma compaction_id:
  assumes "dds_ok db"
  shows "0 \<le> msg_id (query_compaction db)" "msg_id (query_compaction db) < 2 ^ 31"
proof -
  have "dds_read filter_query_compaction (reader db) =
      Some (filter (\<lambda>m. msg_name m = ''compact_rev_key'') (reader db))"
    by (intro dds_ok_read [OF assms]) (simp add: filter_query_compaction_def)
  then have "query_compaction db = empty_msg \<or> query_compaction db \<in> set (reader db)"
    by (auto simp: query_compaction_def split: list.split)
       (metis Cons_eq_filterD in_set_conv_decomp)
  then show "0 \<le> msg_id (query_compaction db)" "msg_id (query_compaction db) < 2 ^ 31"
    using assms by (force simp: dds_ok_def empty_msg_def)+
qed

lemma compactor_dds:
  assumes "dds_good s"
  shows "compactor (generic_dialect (comms D)) n s =
    Some ((msg_id (query_compaction (d_world s)), if n = 0 then dds_cur s else 0), s)"
proof -
  have ok: "dds_ok (d_world s)" using assms by (simp add: dds_good_def)
  note c = compaction_id [OF ok]
  have t: "dds_cur s \<le> MaxInt64 - 1000" using ok by (simp add: dds_ok_def dds_cur_def MaxInt64_def)
  show ?thesis
    by (rule compactor_idle [OF _ _ _ c(1) t])
       (use c in \<open>simp_all add: Generic_PostCompact_def Generic_GetCompactRevision_def Generic_CurrentRevision_def
         remote_defs comms_def dds_client_def dds_cur_def max_id_of_def\<close>)
qed

text \<open>Recording a compact revision replaces the compaction row in place.\<close>

definition compact_rows :: "database \<Rightarrow> Msg list" where
  "compact_rows db = filter (\<lambda>m. msg_name m = ''compact_rev_key'') (reader db)"

lemma query_compaction_rows:
  assumes "dds_ok db" shows "query_compaction db = (case compact_rows db of [] \<Rightarrow> empty_msg | m # _ \<Rightarrow> m)"
proof -
  have "dds_read filter_query_compaction (reader db) = Some (compact_rows db)"
    unfolding compact_rows_def by (intro dds_ok_read [OF assms]) (simp add: filter_query_compaction_def)
  then show ?thesis by (simp add: query_compaction_def)
qed

lemma set_compact_revision:
  assumes D: "dds_keyed D" and ok: "dds_ok db" and one: "compact_rows db = [c]" and rv: "fits32 rv"
  obtains db' where "Generic_SetCompactRevision (comms D) rv db = Some (None, db')"
    and "dds_ok db'" and "msg_id (query_compaction db') = msg_id c"
    and "msg_prev_revision (query_compaction db') = rv"
    and "{m \<in> set (reader db'). msg_id m \<noteq> msg_id c} = {m \<in> set (reader db). msg_id m \<noteq> msg_id c}"
proof -
  let ?k = "\<lparr>ki_Id = msg_id c, ki_Name = ''compact_rev_key'', ki_Created = 1, ki_Deleted = 0,
    ki_CreateRevision = 0, ki_PrevRevision = rv, ki_Lease = 0, ki_Value = [CHR 0x5C, CHR ''x''], ki_OldValue = []\<rparr>"
  let ?m = "msg_of (msg_id c) ?k"
  let ?db' = "db\<lparr>reader := dds_write D ?m (reader db)\<rparr>"
  have "c \<in> set (compact_rows db)" using one by simp
  then have c: "c \<in> set (reader db)" "msg_name c = ''compact_rev_key''" by (simp_all add: compact_rows_def)
  have cid: "0 < msg_id c" "msg_id c < 2 ^ 31" "msg_id c \<le> max_id_of db"
    using ok c by (auto simp: dds_ok_def)
  have qc: "query_compaction db = c" using query_compaction_rows [OF ok] one by simp
  have run: "Generic_SetCompactRevision (comms D) rv db = Some (None, ?db')"
    using cid ok qc
    by (simp add: Generic_SetCompactRevision_def remote_defs comms_def dds_client_def expose_publish_def
        core_publish_def dds_ok_def Let_def wrap_simps)
  have m: "msg_id ?m = msg_id c" "msg_name ?m = ''compact_rev_key''" "msg_prev_revision ?m = rv"
    using cid rv by (simp_all add: msg_of_def fits32_i32 wrap_simps)
  have d: "distinct (map msg_id (reader db))" using ok by (simp add: dds_ok_def)
  have rd: "distinct (map msg_id (reader ?db'))"
    "set (reader ?db') = insert ?m {x \<in> set (reader db). msg_id x \<noteq> msg_id c}"
    using D d m(1) by (simp_all add: dds_keyed_def)
  have "length (reader ?db') = card (set (reader ?db'))"
    using rd(1) by (simp add: distinct_map distinct_card)
  also have "\<dots> = Suc (card (set (reader db) - {c}))"
  proof -
    have "{x \<in> set (reader db). msg_id x \<noteq> msg_id c} = set (reader db) - {c}"
      using d c by (auto simp: distinct_map dest: inj_onD)
    then show ?thesis using m(1) unfolding rd(2) by (subst card_insert_disjoint) auto
  qed
  also have "\<dots> = card (set (reader db))" using c by (intro card_Suc_Diff1) simp_all
  finally have len: "length (reader ?db') \<le> maximum_messages"
    using ok d by (simp add: dds_ok_def distinct_map distinct_card)
  have max: "max_id_of ?db' = max_id_of db" by (simp add: max_id_of_def query_maxid_def)
  have ok': "dds_ok ?db'"
    using ok rd len cid m(1) max by (auto simp: dds_ok_def)
  have "set (compact_rows ?db') = {?m}"
  proof -
    have "x = c" if "x \<in> set (reader db)" "msg_name x = ''compact_rev_key''" for x
    proof -
      have "x \<in> set (compact_rows db)" using that by (simp add: compact_rows_def)
      then show ?thesis using one by simp
    qed
    moreover have "set (dds_write D ?m (reader db)) = insert ?m {x \<in> set (reader db). msg_id x \<noteq> msg_id c}"
      using rd(2) by simp
    ultimately show ?thesis using m(2) by (auto simp: compact_rows_def)
  qed
  then have "query_compaction ?db' = ?m"
    unfolding query_compaction_rows [OF ok'] by (cases "compact_rows ?db'") auto
  with run ok' m rd(2) show thesis by (intro that [of ?db']) auto
qed

text \<open>The start of the log: what it does with the compaction rows it finds.\<close>

lemma start_rows:
  assumes "dds_ok db"
  shows "Generic_After (comms D) ''compact_rev_key'' 0 0 db = Some (
    (map (\<lambda>m. row_of (generic_of (max_id_of db) (i32 (msg_prev_revision (query_compaction db))) m))
      (sort_key msg_id (compact_rows db)), None), db)"
proof -
  have f: "filter (\<lambda>m. msg_name m = ''compact_rev_key'' \<and> 0 < msg_id m) (reader db) = compact_rows db"
    unfolding compact_rows_def using assms by (intro filter_cong) (auto simp: dds_ok_def)
  have "query_01 (-1) ''compact_rev_key'' (FormatInt 0) db = Some
     (map (generic_of (max_id_of db) (i32 (msg_prev_revision (query_compaction db))))
      (sort_key msg_id (compact_rows db)))"
    using query_01_rows [OF assms, of 0 "-1" "''compact_rev_key''"] f by (simp add: apply_limit_def)
  then show ?thesis by (simp add: After_dds i32_def)
qed

section \<open>Requests and states for the examples\<close>

text \<open>The log on a database that holds some rows.\<close>

definition log_of :: "Msg list \<Rightarrow> int \<Rightarrow> database SQLLog" where
  "log_of rows n = \<lparr>d_world = database_of rows n, notify = []\<rparr>"

lemma log_of_simps [simp]: "d_world (log_of rows n) = database_of rows n" "notify (log_of rows n) = []"
  by (simp_all add: log_of_def)

text \<open>Nothing is delivered by the broadcaster.\<close>

definition no_feed :: "(database SQLLog, Event list list) go" where
  "no_feed s = Some ([], s)"

definition one_key :: "database SQLLog" where
  "one_key = log_of [row_msg 1 ''/a'' 0] 1"

lemma one_key_good: "dds_good one_key" "dds_space one_key" "dds_cur one_key = 1"
  by (simp_all add: one_key_def dds_good_def dds_space_def dds_cur_def dds_ok_def dds_room_def
      maximum_messages_def fits32_def)

lemma one_key_versions:
  "dds_versions one_key k = (if k = ''/a'' then [event_of_msg (row_msg 1 ''/a'' 0)] else [])"
  by (auto simp: one_key_def dds_versions_def rows_of_def)

lemma plain_examples: "plain_key ''/a''" "plain_key ''/b''"
  by (simp_all add: plain_key_def HasSuffix_single)

lemma event_of_row_msg:
  "KV (event_of_msg (row_msg i k d)) = Some \<lparr>Key = k, CreateRevision = (if 1 - d \<noteq> 0 then i else 0),
     ModRevision = i, Value = ''v'', Lease = 0\<rparr>"
  by (simp add: event_of_msg_def row_event_def row_of_def generic_of_def)

end
