(* ===== verification/Listing.thy ===== *)
theory Listing
  imports Stack
begin

text \<open>
  Listings of a directory through the stack on the DDS database: what a page holds, and that the pages
  of a listing which is continued at the revision of its first page belong together.
\<close>

section \<open>The rows of a directory\<close>




text \<open>A later database: what was there up to the revision still is, and nothing else.\<close>

definition rows_kept :: "database \<Rightarrow> database \<Rightarrow> bool" where
  "rows_kept db db' \<longleftrightarrow> {m \<in> set (reader db'). msg_id m \<le> max_id_of db} = set (reader db)"







text \<open>Every insertion keeps the rows before it.\<close>

lemma rows_kept_publish:
  assumes "dds_keyed D" "dds_ok db" "dds_room db" "ki_Id k = -1" "rows_kept db0 db" "max_id_of db0 \<le> max_id_of db"
  shows "\<exists>db'. expose_publish D k db = ((max_id_of db + 1, False), db') \<and> dds_ok db' \<and> rows_kept db0 db'"
proof -
  have i: "msg_id (msg_of (max_id_of db + 1) k) = max_id_of db + 1"
    using assms(3) max_id_of_nonneg [of db] by (simp add: msg_of_def dds_room_def wrap_simps)
  obtain db' where db': "expose_publish D k db = ((max_id_of db + 1, False), db')" "dds_ok db'"
    and new: "set (reader db') = insert (msg_of (max_id_of db + 1) k) (set (reader db))"
    by (rule publish_fresh [OF assms(1-4)]) blast
  have "{m \<in> set (reader db'). msg_id m \<le> max_id_of db0} = set (reader db0)"
    using assms(5,6) i unfolding new rows_kept_def by auto
  with db' show ?thesis by (auto simp: rows_kept_def)
qed


section \<open>The queries\<close>

text \<open>The greatest identifier and the recorded compaction, as every row of an answer carries them.\<close>

abbreviation row_in :: "database \<Rightarrow> Msg \<Rightarrow> QueryGenericRow" where
  "row_in db m \<equiv> row_of (generic_of (max_id_of db) (i32 (snd (query_find_common_values db))) m)"






section \<open>The log and the server\<close>





section \<open>Pages\<close>

text \<open>The request for the page after a key, at the revision of the page before.\<close>

definition continue_request :: "string \<Rightarrow> bytes \<Rightarrow> int64 \<Rightarrow> int64 \<Rightarrow> RangeRequest" where
  "continue_request k rangeEnd limit revision =
     (list_request (k @ [CHR 0x00]) rangeEnd limit)\<lparr>Revision := revision\<rparr>"

lemma list_request_simps [simp]:
  "range_unsupported (list_request k e l) = None" "\<not> CountOnly (list_request k e l)"
  "RangeEnd (list_request k e l) = e" "rr_Limit (list_request k e l) = l" "rr_Key (list_request k e l) = k"
  "Revision (list_request k e l) = 0"
  by (simp_all add: list_request_def range_unsupported_def)

lemma continue_request_simps [simp]:
  "range_unsupported (continue_request k e l r) = None" "\<not> CountOnly (continue_request k e l r)"
  "RangeEnd (continue_request k e l r) = e" "rr_Limit (continue_request k e l r) = l"
  "rr_Key (continue_request k e l r) = k @ [CHR 0x00]" "Revision (continue_request k e l r) = r"
  by (simp_all add: continue_request_def list_request_def range_unsupported_def)








end
