(* ===== verification/Cluster.thy ===== *)
theory Cluster
  imports Stack
begin

text \<open>
  Several database nodes (\<open>DdsDatabase/src/Database.cpp\<close>): each one is a \<open>database\<close> of its own, and the
  samples that one writes reach the others later. The theory has the listeners, the republishing, a
  transition system of the nodes and the network between them, and what holds of its runs.
\<close>

section \<open>Listeners and republishing\<close>

text \<open>What a node writes: a row, or an identifier in the topic of the greatest identifier.\<close>

datatype sample = RowSample Msg | MaxSample int

text \<open>
  \<open>listener_publicationmatched\<close>: on a change by one in either direction, \<open>matched\<close> becomes the number
  of readers that have been matched so far.
\<close>

definition listener_publicationmatched :: "int \<Rightarrow> int \<Rightarrow> database \<Rightarrow> database" where
  "listener_publicationmatched current_count_change total_count db =
     (if current_count_change = 1 then db\<lparr>matched := total_count\<rparr>
      else if current_count_change = -1 then db\<lparr>matched := total_count\<rparr>
      else db)"

definition listener_publicationmatchedmaxid :: "int \<Rightarrow> int \<Rightarrow> database \<Rightarrow> database" where
  "listener_publicationmatchedmaxid current_count_change total_count db =
     (if current_count_change = 1 then db\<lparr>matched_maxid := total_count\<rparr>
      else if current_count_change = -1 then db\<lparr>matched_maxid := total_count\<rparr>
      else db)"

text \<open>
  \<open>listener_ondataavailable\<close>: a sample without a name says that the writer of an instance has gone. The
  first one starts a thread that republishes, unless one runs. The result is the flag
  \<open>started_republish\<close> and the number of threads.
\<close>

fun listener_ondataavailable :: "Msg list \<Rightarrow> bool \<Rightarrow> bool \<times> nat" where
  "listener_ondataavailable [] started_republish = (started_republish, 0)"
| "listener_ondataavailable (m # msgs) started_republish =
     (if msg_name m = [] then
        (if \<not> started_republish
         then (case listener_ondataavailable msgs True of (flag, n) \<Rightarrow> (flag, n + 1))
         else listener_ondataavailable msgs started_republish)
      else listener_ondataavailable msgs started_republish)"

lemma republishes_once:
  "listener_ondataavailable msgs flag =
     (flag \<or> (\<exists>m \<in> set msgs. msg_name m = []), if \<not> flag \<and> (\<exists>m \<in> set msgs. msg_name m = []) then 1 else 0)"
  by (induction msgs arbitrary: flag) auto

text \<open>A sample that a node writes or receives, put into its readers.\<close>

fun store_sample :: "dds \<Rightarrow> sample \<Rightarrow> database \<Rightarrow> database" where
  "store_sample D (RowSample m) db = db\<lparr>reader := dds_write D m (reader db)\<rparr>"
| "store_sample D (MaxSample n) db = db\<lparr>reader_maxid := dds_write_maxid D n (reader_maxid db)\<rparr>"

text \<open>The write of \<open>republish_message_maxid\<close>; the guard reads the counter of the other topic.\<close>

definition republish_message_maxid :: "database \<Rightarrow> sample list" where
  "republish_message_maxid db = (if matched db > 0 then [MaxSample (u32 (fst (query_maxid db)))] else [])"

text \<open>
  \<open>republish_everything\<close>: the rows that were read and whose writers have all gone (\<open>dead\<close>) are written
  again, then the greatest identifier.
\<close>

definition republished_rows :: "(Msg \<Rightarrow> bool) \<Rightarrow> database \<Rightarrow> sample list" where
  "republished_rows dead db =
     map RowSample (filter (\<lambda>m. dead m \<and> msg_name m \<noteq> [] \<and> matched db > 0) (take maximum_messages (reader db)))"

definition republish_everything :: "dds \<Rightarrow> (Msg \<Rightarrow> bool) \<Rightarrow> database \<Rightarrow> sample list \<times> database" where
  "republish_everything D dead db =
     (let rows = republished_rows dead db;
          db1 = fold (store_sample D) rows db;
          maxid = republish_message_maxid db1
      in (rows @ maxid, fold (store_sample D) maxid db1))"

section \<open>Nodes and network\<close>

text \<open>
  The samples that \<open>expose_publish\<close> writes, in the order of the code. The local readers have them at
  once (\<open>publish_stores\<close>); the others get them from the network.
\<close>

definition published :: "KineInsert \<Rightarrow> database \<Rightarrow> sample list" where
  "published k db =
     (let i = i32 (ki_Id k)
      in if i < 0 then
           (let r = fst (query_maxid db)
            in if matched_maxid db > 0 then [MaxSample (u32 (r + 1)), RowSample (msg_of (r + 1) k)]
               else [RowSample (msg_of r k)])
         else if matched db > 0 then [RowSample (msg_of i k)] else [])"

lemma publish_stores:
  "snd (expose_publish D k db) = fold (store_sample D) (published k db)
     (if i32 (ki_Id k) < 0 then db\<lparr>reader_maxid := drop maximum_messages (reader_maxid db)\<rparr> else db)"
  by (simp add: expose_publish_def core_publish_returningid_def core_publish_def query_maxid_and_replace_def
      published_def query_maxid_def Let_def)

text \<open>\<open>traffic\<close> holds the samples that are on their way, each with the node it goes to.\<close>

record cluster =
  members :: "nat list"
  nodes :: "nat \<Rightarrow> database"
  traffic :: "(nat \<times> sample) list"

definition broadcast :: "nat \<Rightarrow> sample list \<Rightarrow> cluster \<Rightarrow> cluster" where
  "broadcast i xs c = c\<lparr>traffic := traffic c @ [(j, x). j \<leftarrow> members c, j \<noteq> i, x \<leftarrow> xs]\<rparr>"

definition set_node :: "nat \<Rightarrow> database \<Rightarrow> cluster \<Rightarrow> cluster" where
  "set_node i db c = c\<lparr>nodes := (nodes c)(i := db)\<rparr>"

text \<open>
  The reader of the rows orders by source timestamp: a sample that arrives is kept, or dropped because the
  reader holds a younger one of its instance. Which of the two was written later is not known here.
\<close>

fun received :: "dds \<Rightarrow> sample \<Rightarrow> database \<Rightarrow> database \<Rightarrow> bool" where
  "received D (RowSample m) db db' \<longleftrightarrow>
     db' = store_sample D (RowSample m) db \<or> db' = db \<and> msg_id m \<in> msg_id ` set (reader db)"
| "received D (MaxSample n) db db' \<longleftrightarrow> db' = store_sample D (MaxSample n) db"

datatype event = Insert nat KineInsert int | Receive nat sample | Republish nat "Msg \<Rightarrow> bool" | Join nat

text \<open>
  A node that joins: its readers are matched, at least with each other, the durable topic of the rows
  sends it what the others hold (no node leaves, so every row still has a writer), and the volatile
  topic of the identifiers sends nothing.
\<close>

definition new_database :: database where
  "new_database = \<lparr>reader = [], reader_maxid = [], matched = 1, matched_maxid = 1\<rparr>"

definition join :: "nat \<Rightarrow> cluster \<Rightarrow> cluster" where
  "join j c = c\<lparr>members := members c @ [j], nodes := (nodes c)(j := new_database),
     traffic := traffic c @ [(j, RowSample m). i \<leftarrow> members c, m \<leftarrow> reader (nodes c i)]\<rparr>"

inductive cluster_step :: "dds \<Rightarrow> cluster \<Rightarrow> event \<Rightarrow> cluster \<Rightarrow> bool" for D where
  insert: "i \<in> set (members c) \<Longrightarrow> expose_publish D k (nodes c i) = ((r, ok), db') \<Longrightarrow>
    cluster_step D c (Insert i k r) (broadcast i (published k (nodes c i)) (set_node i db' c))"
| receive: "traffic c = xs @ (j, x) # ys \<Longrightarrow> received D x (nodes c j) db' \<Longrightarrow>
    cluster_step D c (Receive j x) (set_node j db' (c\<lparr>traffic := xs @ ys\<rparr>))"
| republish: "i \<in> set (members c) \<Longrightarrow> republish_everything D dead (nodes c i) = (out, db') \<Longrightarrow>
    cluster_step D c (Republish i dead) (broadcast i out (set_node i db' c))"
| join: "j \<notin> set (members c) \<Longrightarrow> cluster_step D c (Join j) (join j c)"

inductive_cases insertE: "cluster_step D c (Insert i k r) c'"
inductive_cases receiveE: "cluster_step D c (Receive j x) c'"
inductive_cases republishE: "cluster_step D c (Republish i dead) c'"
inductive_cases joinE: "cluster_step D c (Join j) c'"

text \<open>A run whose steps all satisfy a guard.\<close>

inductive cluster_run :: "dds \<Rightarrow> (cluster \<Rightarrow> event \<Rightarrow> bool) \<Rightarrow> cluster \<Rightarrow> event list \<Rightarrow> cluster \<Rightarrow> bool" for D G c0 where
  start: "cluster_run D G c0 [] c0"
| step: "cluster_run D G c0 es c \<Longrightarrow> G c e \<Longrightarrow> cluster_step D c e c' \<Longrightarrow> cluster_run D G c0 (es @ [e]) c'"

inductive_simps run_Nil: "cluster_run D G c0 [] c"
inductive_simps run_snoc: "cluster_run D G c0 (es @ [e]) c"

text \<open>Nothing is on its way to a node.\<close>

definition up_to_date :: "cluster \<Rightarrow> nat \<Rightarrow> bool" where
  "up_to_date c j \<longleftrightarrow> (\<forall>x. (j, x) \<notin> set (traffic c))"

text \<open>
  The guard of an orderly use: rows are appended at nodes that are up to date and have room, and the
  nodes stay the same. Samples arrive, and nodes republish, at any time.
\<close>

fun orderly :: "cluster \<Rightarrow> event \<Rightarrow> bool" where
  "orderly c (Insert i k r) \<longleftrightarrow> ki_Id k = -1 \<and> up_to_date c i \<and> max_id_of (nodes c i) + 1 < int maximum_messages"
| "orderly c (Join j) \<longleftrightarrow> False"
| "orderly c _ \<longleftrightarrow> True"

text \<open>The rows that a run appends, and a single database that gets the same ones.\<close>

definition insertions :: "event list \<Rightarrow> KineInsert list" where
  "insertions es = List.map_filter (\<lambda>e. case e of Insert i k r \<Rightarrow> Some k | _ \<Rightarrow> None) es"

definition one_database :: "dds \<Rightarrow> KineInsert list \<Rightarrow> database \<Rightarrow> database" where
  "one_database D ks db = fold (\<lambda>k db. snd (expose_publish D k db)) ks db"

text \<open>A cluster whose nodes all hold the same.\<close>

definition cluster_of :: "nat list \<Rightarrow> database \<Rightarrow> cluster" where
  "cluster_of js db = \<lparr>members = js, nodes = (\<lambda>_. db), traffic = []\<rparr>"

section \<open>The invariant of an orderly use\<close>

text \<open>
  \<open>A\<close> are all rows that have been written and \<open>M\<close> is the greatest identifier. A node that waits for the
  rows \<open>R\<close> and the identifiers \<open>N\<close> has or waits for all of them, and nothing else.
\<close>

definition rows_ok :: "Msg set \<Rightarrow> int \<Rightarrow> bool" where
  "rows_ok A M \<longleftrightarrow> inj_on msg_id A \<and> (\<forall>m \<in> A. 0 < msg_id m \<and> msg_id m \<le> M) \<and> 0 \<le> M \<and> M < int maximum_messages"

definition node_ok :: "Msg set \<Rightarrow> int \<Rightarrow> Msg set \<Rightarrow> int set \<Rightarrow> database \<Rightarrow> bool" where
  "node_ok A M R N db \<longleftrightarrow>
     set (reader db) \<union> R = A \<and> distinct (map msg_id (reader db)) \<and>
     (\<forall>n \<in> set (reader_maxid db) \<union> N. 0 \<le> n \<and> n \<le> M) \<and> (M = 0 \<or> M \<in> set (reader_maxid db) \<union> N) \<and>
     distinct (reader_maxid db) \<and> matched db > 0 \<and> matched_maxid db > 0"

definition pending_rows :: "cluster \<Rightarrow> nat \<Rightarrow> Msg set" where
  "pending_rows c j = {m. (j, RowSample m) \<in> set (traffic c)}"

definition pending_maxids :: "cluster \<Rightarrow> nat \<Rightarrow> int set" where
  "pending_maxids c j = {n. (j, MaxSample n) \<in> set (traffic c)}"

definition cluster_ok :: "Msg set \<Rightarrow> int \<Rightarrow> cluster \<Rightarrow> bool" where
  "cluster_ok A M c \<longleftrightarrow> rows_ok A M \<and>
     (\<forall>j \<in> set (members c). node_ok A M (pending_rows c j) (pending_maxids c j) (nodes c j))"

lemma up_to_date_pending: "up_to_date c j \<longleftrightarrow> pending_rows c j = {} \<and> pending_maxids c j = {}"
proof
  assume *: "pending_rows c j = {} \<and> pending_maxids c j = {}"
  show "up_to_date c j" unfolding up_to_date_def
  proof
    fix x show "(j, x) \<notin> set (traffic c)" using * by (cases x) (auto simp: pending_rows_def pending_maxids_def)
  qed
qed (auto simp: up_to_date_def pending_rows_def pending_maxids_def)

lemma length_distinct_ints:
  assumes "distinct xs" "\<forall>x \<in> set xs. a \<le> x \<and> x \<le> b"
  shows "int (length xs) \<le> max 0 (b - a + 1)"
proof -
  have "card (set xs) \<le> card {a..b}" using assms(2) by (intro card_mono) auto
  then show ?thesis using distinct_card [OF assms(1)] by simp
qed

text \<open>A node that waits for nothing is a database with the rows of the cluster.\<close>

lemma node_ok_max:
  assumes "rows_ok A M" "node_ok A M R {} db"
  shows "length (reader_maxid db) \<le> maximum_messages" "max_id_of db = M"
proof -
  have n: "\<forall>n \<in> set (reader_maxid db). 0 \<le> n \<and> n \<le> M" "M = 0 \<or> M \<in> set (reader_maxid db)" "distinct (reader_maxid db)"
    using assms(2) by (simp_all add: node_ok_def)
  show l: "length (reader_maxid db) \<le> maximum_messages"
    using length_distinct_ints [OF n(3,1)] assms(1) by (simp add: rows_ok_def)
  have "Max (insert 0 (set (reader_maxid db))) = M"
    using n assms(1) by (intro Max_eqI) (auto simp: rows_ok_def)
  then show "max_id_of db = M" by (simp add: max_id_of_eq [OF l] max_scan_Max)
qed

lemma node_ok_database:
  assumes "rows_ok A M" "node_ok A M {} {} db"
  shows "dds_ok db" "max_id_of db = M" "set (reader db) = A"
proof -
  show A: "set (reader db) = A" using assms(2) by (simp add: node_ok_def)
  show M: "max_id_of db = M" by (rule node_ok_max(2) [OF assms])
  have "int (length (map msg_id (reader db))) \<le> max 0 (M - 1 + 1)"
    using assms A by (intro length_distinct_ints) (auto simp: node_ok_def rows_ok_def)
  then have "length (reader db) \<le> maximum_messages" using assms(1) by (simp add: rows_ok_def)
  then show "dds_ok db"
    using assms A M node_ok_max(1) [OF assms]
    by (auto simp: dds_ok_def rows_ok_def node_ok_def maximum_messages_def)
qed

lemma database_node_ok:
  assumes "dds_ok db" "\<forall>n \<in> set (reader_maxid db). 0 \<le> n"
  shows "node_ok (set (reader db)) (max_id_of db) {} {} db"
proof -
  have "max_id_of db = Max (insert 0 (set (reader_maxid db)))"
    using assms(1) by (simp add: max_id_of_eq max_scan_Max dds_ok_def)
  moreover have "Max (insert 0 (set (reader_maxid db))) \<in> insert 0 (set (reader_maxid db))" by (intro Max_in) auto
  ultimately show ?thesis using assms by (auto simp: node_ok_def dds_ok_def)
qed

text \<open>An insertion at such a node.\<close>

lemma publish_written:
  assumes "dds_keyed D" "dds_ok db" "max_id_of db + 1 < 2 ^ 31" "ki_Id k = -1"
  shows "published k db = [MaxSample (max_id_of db + 1), RowSample (msg_of (max_id_of db + 1) k)]"
    and "reader_maxid (snd (expose_publish D k db)) = [max_id_of db + 1]"
    and "matched (snd (expose_publish D k db)) = matched db"
    and "matched_maxid (snd (expose_publish D k db)) = matched_maxid db"
proof -
  have m: "0 \<le> max_id_of db" "fst (query_maxid db) = max_id_of db" "matched_maxid db > 0"
    and l: "length (reader_maxid db) \<le> maximum_messages"
    using max_id_of_nonneg assms(2) by (simp_all add: max_id_of_def dds_ok_def)
  show p: "published k db = [MaxSample (max_id_of db + 1), RowSample (msg_of (max_id_of db + 1) k)]"
    using m assms(3,4) by (simp add: published_def Let_def wrap_simps)
  have "distinct (dds_write_maxid D (max_id_of db + 1) [])" "set (dds_write_maxid D (max_id_of db + 1) []) = {max_id_of db + 1}"
    using assms(1) by (auto simp: dds_keyed_def)
  then have "dds_write_maxid D (max_id_of db + 1) [] = [max_id_of db + 1]"
    by (cases "dds_write_maxid D (max_id_of db + 1) []") (auto simp: subset_singleton_iff)
  then show "reader_maxid (snd (expose_publish D k db)) = [max_id_of db + 1]"
    "matched (snd (expose_publish D k db)) = matched db"
    "matched_maxid (snd (expose_publish D k db)) = matched_maxid db"
    unfolding publish_stores p using l assms(4) by (simp_all add: wrap_simps)
qed

lemma node_ok_insert:
  assumes "dds_keyed D" "rows_ok A M" "node_ok A M {} {} db" "M + 1 < int maximum_messages" "ki_Id k = -1"
  shows "\<exists>db'. expose_publish D k db = ((M + 1, False), db') \<and>
     node_ok (insert (msg_of (M + 1) k) A) (M + 1) {} {} db' \<and> rows_ok (insert (msg_of (M + 1) k) A) (M + 1)"
proof -
  note db = node_ok_database [OF assms(2,3)]
  have M: "0 \<le> M" "M + 1 < 2 ^ 31" using assms(2,4) by (simp_all add: rows_ok_def maximum_messages_def)
  have len: "length (reader db) < maximum_messages"
  proof -
    have "int (length (map msg_id (reader db))) \<le> max 0 (M - 1 + 1)"
      using assms(2,3) db(3) by (intro length_distinct_ints) (auto simp: node_ok_def rows_ok_def)
    then show ?thesis using assms(2) by (simp add: rows_ok_def)
  qed
  then have room: "dds_room db" using db(2) M by (simp add: dds_room_def)
  obtain db' where db': "expose_publish D k db = ((M + 1, False), db')" "dds_ok db'"
    and new: "set (reader db') = insert (msg_of (M + 1) k) A"
    using publish_fresh [OF assms(1) db(1) room assms(5)] db(2,3) by metis
  have w: "reader_maxid db' = [M + 1]" "matched db' = matched db" "matched_maxid db' = matched_maxid db"
    using publish_written [OF assms(1) db(1) _ assms(5)] db' db(2) M(2) by simp_all
  have id: "msg_id (msg_of (M + 1) k) = M + 1" using M by (simp add: msg_of_def wrap_simps)
  have "node_ok (insert (msg_of (M + 1) k) A) (M + 1) {} {} db'"
    using new w db'(2) assms(3) M by (simp add: node_ok_def dds_ok_def)
  moreover have "rows_ok (insert (msg_of (M + 1) k) A) (M + 1)"
  proof -
    have "msg_id (msg_of (M + 1) k) \<notin> msg_id ` A" using assms(2) id by (auto simp: rows_ok_def)
    then have "inj_on msg_id (insert (msg_of (M + 1) k) A)" using assms(2) by (auto simp: rows_ok_def)
    then show ?thesis using assms(2,4) id by (auto simp: rows_ok_def)
  qed
  ultimately show ?thesis using db'(1) by blast
qed

lemma node_ok_other:
  assumes "node_ok A M R N db" "rows_ok A M"
  shows "node_ok (insert m A) (M + 1) (insert m R) (insert (M + 1) N) db"
  using assms by (force simp: node_ok_def rows_ok_def ball_Un)

text \<open>A sample arrives; others of its kind may still be on their way.\<close>

lemma node_ok_row:
  assumes "dds_keyed D" "rows_ok A M" "node_ok A M R N db" "m \<in> R" "R' \<subseteq> R" "R \<subseteq> insert m R'"
    and "received D (RowSample m) db db'"
  shows "node_ok A M R' N db'"
proof -
  have A: "set (reader db) \<union> R = A" "distinct (map msg_id (reader db))" using assms(3) by (simp_all add: node_ok_def)
  have same: "x = m" if "x \<in> set (reader db)" "msg_id x = msg_id m" for x
    using assms(2,4) A that by (auto simp: rows_ok_def inj_on_def)
  have w: "distinct (map msg_id (dds_write D m (reader db)))"
    "set (dds_write D m (reader db)) = insert m {x \<in> set (reader db). msg_id x \<noteq> msg_id m}"
    using assms(1) A(2) by (simp_all add: dds_keyed_def)
  then have "set (dds_write D m (reader db)) = insert m (set (reader db))" using same by auto
  moreover have "m \<in> set (reader db)" if "msg_id m \<in> msg_id ` set (reader db)" using same that by auto
  ultimately show ?thesis using assms(3-7) w(1) by (auto simp: node_ok_def)
qed

lemma node_ok_maxid:
  assumes "dds_keyed D" "node_ok A M R N db" "n \<in> N" "N' \<subseteq> N" "N \<subseteq> insert n N'"
    and "received D (MaxSample n) db db'"
  shows "node_ok A M R N' db'"
proof -
  have "distinct (reader_maxid db)" using assms(2) by (simp add: node_ok_def)
  then have "distinct (dds_write_maxid D n (reader_maxid db))"
    "set (dds_write_maxid D n (reader_maxid db)) = insert n (set (reader_maxid db))"
    using assms(1) by (auto simp: dds_keyed_def)
  then show ?thesis using assms(2-6) by (auto simp: node_ok_def)
qed

text \<open>Republishing changes nothing at the node itself, and writes nothing new.\<close>

lemma store_rows:
  assumes "dds_keyed D" "distinct (map msg_id (reader db))" "set rs \<subseteq> set (reader db)"
  shows "set (reader (fold (store_sample D) (map RowSample rs) db)) = set (reader db) \<and>
     distinct (map msg_id (reader (fold (store_sample D) (map RowSample rs) db))) \<and>
     reader_maxid (fold (store_sample D) (map RowSample rs) db) = reader_maxid db \<and>
     matched (fold (store_sample D) (map RowSample rs) db) = matched db \<and>
     matched_maxid (fold (store_sample D) (map RowSample rs) db) = matched_maxid db"
  using assms(2,3)
proof (induction rs arbitrary: db)
  case (Cons m rs)
  let ?db = "db\<lparr>reader := dds_write D m (reader db)\<rparr>"
  have w: "distinct (map msg_id (reader ?db))" "set (reader ?db) = insert m {x \<in> set (reader db). msg_id x \<noteq> msg_id m}"
    using assms(1) Cons.prems by (simp_all add: dds_keyed_def)
  moreover have "x = m" if "x \<in> set (reader db)" "msg_id x = msg_id m" for x
    using Cons.prems that by (auto simp: distinct_map dest: inj_onD)
  ultimately have "set (reader ?db) = set (reader db)" using Cons.prems(2) by auto
  then show ?case using Cons.IH [of ?db] Cons.prems(2) w(1) by simp
qed simp

lemma node_ok_republish:
  assumes "dds_keyed D" "rows_ok A M" "node_ok A M R N db" "republish_everything D dead db = (out, db')"
  shows "node_ok A M R N db'"
    and "\<forall>x \<in> set out. (\<exists>m \<in> A. x = RowSample m) \<or> (\<exists>n. x = MaxSample n \<and> 0 \<le> n \<and> n \<le> M)"
proof -
  let ?rs = "filter (\<lambda>m. dead m \<and> msg_name m \<noteq> [] \<and> matched db > 0) (take maximum_messages (reader db))"
  let ?db1 = "fold (store_sample D) (map RowSample ?rs) db"
  have d: "distinct (map msg_id (reader db))" "matched db > 0" using assms(3) by (simp_all add: node_ok_def)
  have sub: "set ?rs \<subseteq> set (reader db)" by (auto dest: in_set_takeD)
  note st = store_rows [OF assms(1) d(1) sub]
  define n where "n = fst (query_maxid ?db1)"
  have "n = Max (insert 0 (set (take maximum_messages (reader_maxid db))))"
    using st by (simp add: n_def query_maxid_def Let_def max_scan_Max)
  moreover have "\<forall>x \<in> insert 0 (set (take maximum_messages (reader_maxid db))). 0 \<le> x \<and> x \<le> M"
    using assms(2,3) by (auto simp: node_ok_def rows_ok_def dest: in_set_takeD)
  ultimately have n: "0 \<le> n" "n \<le> M" using Max_in [of "insert 0 (set (take maximum_messages (reader_maxid db)))"] by auto
  then have u: "u32 n = n" using assms(2) by (simp add: rows_ok_def maximum_messages_def wrap_simps)
  have out: "out = map RowSample ?rs @ [MaxSample n]" "db' = store_sample D (MaxSample n) ?db1"
    using assms(4) st d(2) u
    by (auto simp: republish_everything_def republished_rows_def republish_message_maxid_def n_def Let_def
        simp del: store_sample.simps)
  have w: "distinct (dds_write_maxid D n (reader_maxid db))"
    "set (dds_write_maxid D n (reader_maxid db)) = insert n (set (reader_maxid db))"
    using assms(1,3) by (auto simp: dds_keyed_def node_ok_def)
  show "node_ok A M R N db'" using assms(3) st w n unfolding out(2) by (auto simp: node_ok_def)
  show "\<forall>x \<in> set out. (\<exists>m \<in> A. x = RowSample m) \<or> (\<exists>n. x = MaxSample n \<and> 0 \<le> n \<and> n \<le> M)"
    using out(1) sub n assms(3) by (auto simp: node_ok_def)
qed

section \<open>Orderly runs\<close>

lemma set_node_simps [simp]:
  "members (set_node i db c) = members c" "nodes (set_node i db c) = (nodes c)(i := db)"
  "traffic (set_node i db c) = traffic c"
  by (simp_all add: set_node_def)

lemma broadcast_simps [simp]:
  "members (broadcast i xs c) = members c" "nodes (broadcast i xs c) = nodes c"
  by (simp_all add: broadcast_def)

lemma pending_broadcast:
  "pending_rows (broadcast i xs c) j =
     pending_rows c j \<union> (if j \<in> set (members c) \<and> j \<noteq> i then {m. RowSample m \<in> set xs} else {})"
  "pending_maxids (broadcast i xs c) j =
     pending_maxids c j \<union> (if j \<in> set (members c) \<and> j \<noteq> i then {n. MaxSample n \<in> set xs} else {})"
  by (auto simp: pending_rows_def pending_maxids_def broadcast_def)

lemma pending_set_node [simp]:
  "pending_rows (set_node i db c) j = pending_rows c j" "pending_maxids (set_node i db c) j = pending_maxids c j"
  by (simp_all add: pending_rows_def pending_maxids_def)

lemma cluster_ok_insert:
  assumes "dds_keyed D" "cluster_ok A M c" "orderly c (Insert i k r)" "cluster_step D c (Insert i k r) c'"
  shows "r = M + 1 \<and> cluster_ok (insert (msg_of (M + 1) k) A) (M + 1) c'"
proof -
  let ?m = "msg_of (M + 1) k"
  have ok: "rows_ok A M" and nodes: "\<And>j. j \<in> set (members c) \<Longrightarrow>
      node_ok A M (pending_rows c j) (pending_maxids c j) (nodes c j)"
    using assms(2) by (auto simp: cluster_ok_def)
  obtain b db' where i: "i \<in> set (members c)" and e: "expose_publish D k (nodes c i) = ((r, b), db')"
    and c': "c' = broadcast i (published k (nodes c i)) (set_node i db' c)"
    using assms(4) by (rule insertE) blast
  have k: "ki_Id k = -1" "pending_rows c i = {}" "pending_maxids c i = {}"
    using assms(3) by (simp_all add: up_to_date_pending)
  then have n: "node_ok A M {} {} (nodes c i)" using nodes [OF i] by simp
  note db = node_ok_database [OF ok n]
  have M: "M + 1 < int maximum_messages" using assms(3) db(2) by simp
  have r: "r = M + 1" "node_ok (insert ?m A) (M + 1) {} {} db'" "rows_ok (insert ?m A) (M + 1)"
    using node_ok_insert [OF assms(1) ok n M k(1)] e by simp_all
  have w: "published k (nodes c i) = [MaxSample (M + 1), RowSample ?m]"
    using publish_written(1) [OF assms(1) db(1) _ k(1)] db(2) M by (simp add: maximum_messages_def)
  have "node_ok (insert ?m A) (M + 1) (pending_rows c' j) (pending_maxids c' j) (nodes c' j)" if j: "j \<in> set (members c)" for j
  proof (cases "j = i")
    case False
    with node_ok_other [OF nodes [OF j] ok, of ?m] j show ?thesis by (simp add: c' w pending_broadcast)
  qed (use r(2) k in \<open>simp add: c' pending_broadcast\<close>)
  then show ?thesis using r(1,3) c' by (simp add: cluster_ok_def)
qed

lemma pending_receive:
  assumes "traffic c = xs @ (j, x) # ys"
  shows "pending_rows (c\<lparr>traffic := xs @ ys\<rparr>) l \<subseteq> pending_rows c l"
    and "pending_maxids (c\<lparr>traffic := xs @ ys\<rparr>) l \<subseteq> pending_maxids c l"
    and "pending_rows c l \<subseteq> pending_rows (c\<lparr>traffic := xs @ ys\<rparr>) l \<union> {m. l = j \<and> x = RowSample m}"
    and "pending_maxids c l \<subseteq> pending_maxids (c\<lparr>traffic := xs @ ys\<rparr>) l \<union> {n. l = j \<and> x = MaxSample n}"
  using assms by (auto simp: pending_rows_def pending_maxids_def)

lemma cluster_ok_receive:
  assumes "dds_keyed D" "cluster_ok A M c" "cluster_step D c (Receive j x) c'"
  shows "cluster_ok A M c'"
proof -
  obtain xs ys db' where t: "traffic c = xs @ (j, x) # ys" and d: "received D x (nodes c j) db'"
    and c': "c' = set_node j db' (c\<lparr>traffic := xs @ ys\<rparr>)"
    using assms(3) by (rule receiveE) blast
  have ok: "rows_ok A M" using assms(2) by (simp add: cluster_ok_def)
  note p = pending_receive [OF t]
  have "node_ok A M (pending_rows c' l) (pending_maxids c' l) (nodes c' l)" if l: "l \<in> set (members c)" for l
  proof -
    have n: "node_ok A M (pending_rows c l) (pending_maxids c l) (nodes c l)"
      using assms(2) l by (simp add: cluster_ok_def)
    show ?thesis
    proof (cases "l = j")
      case False
      then have "pending_rows c' l = pending_rows c l" "pending_maxids c' l = pending_maxids c l"
        using p [of l] by (auto simp: c')
      with n False show ?thesis by (simp add: c')
    next
      case True
      show ?thesis
      proof (cases x)
        case (RowSample m)
        have "m \<in> pending_rows c j" using t RowSample by (simp add: pending_rows_def)
        moreover have "pending_maxids c' j = pending_maxids c j" using p [of j] RowSample by (auto simp: c')
        moreover have "pending_rows c' j \<subseteq> pending_rows c j" "pending_rows c j \<subseteq> insert m (pending_rows c' j)"
          using p [of j] RowSample by (auto simp: c')
        ultimately show ?thesis
          using node_ok_row [OF assms(1) ok, of "pending_rows c j" "pending_maxids c j" "nodes c j" m] n d True RowSample
          by (simp add: c')
      next
        case (MaxSample n')
        have "n' \<in> pending_maxids c j" using t MaxSample by (simp add: pending_maxids_def)
        moreover have "pending_rows c' j = pending_rows c j" using p [of j] MaxSample by (auto simp: c')
        moreover have "pending_maxids c' j \<subseteq> pending_maxids c j" "pending_maxids c j \<subseteq> insert n' (pending_maxids c' j)"
          using p [of j] MaxSample by (auto simp: c')
        ultimately show ?thesis
          using node_ok_maxid [OF assms(1), of A M "pending_rows c j" "pending_maxids c j" "nodes c j" n'] n d True MaxSample
          by (simp add: c')
      qed
    qed
  qed
  then show ?thesis using ok by (simp add: cluster_ok_def c')
qed

lemma cluster_ok_republish:
  assumes "dds_keyed D" "cluster_ok A M c" "cluster_step D c (Republish i dead) c'"
  shows "cluster_ok A M c'"
proof -
  have ok: "rows_ok A M" and nodes: "\<And>j. j \<in> set (members c) \<Longrightarrow>
      node_ok A M (pending_rows c j) (pending_maxids c j) (nodes c j)"
    using assms(2) by (auto simp: cluster_ok_def)
  obtain out db' where i: "i \<in> set (members c)" and e: "republish_everything D dead (nodes c i) = (out, db')"
    and c': "c' = broadcast i out (set_node i db' c)"
    using assms(3) by (rule republishE) blast
  note w = node_ok_republish [OF assms(1) ok nodes [OF i] e]
  have sub: "{m. RowSample m \<in> set out} \<subseteq> A" "\<forall>n \<in> {n. MaxSample n \<in> set out}. 0 \<le> n \<and> n \<le> M" using w(2) by blast+
  have more: "node_ok A M (R \<union> R') (N \<union> N') db" if "node_ok A M R N db" "R' \<subseteq> A" "\<forall>n \<in> N'. 0 \<le> n \<and> n \<le> M" for R R' N N' db
    using that by (auto simp: node_ok_def)
  have "node_ok A M (pending_rows c' j) (pending_maxids c' j) (nodes c' j)" if j: "j \<in> set (members c)" for j
  proof (cases "j = i")
    case False
    with more [OF nodes [OF j] sub] j show ?thesis by (simp add: c' pending_broadcast)
  qed (use w(1) in \<open>simp add: c' pending_broadcast\<close>)
  then show ?thesis using ok by (simp add: cluster_ok_def c')
qed

lemma cluster_step_members:
  assumes "cluster_step D c e c'"
  shows "members c' = (case e of Join j \<Rightarrow> members c @ [j] | _ \<Rightarrow> members c)"
  using assms by cases (simp_all add: join_def)

text \<open>The identifiers that a run answers with.\<close>

definition answers :: "event list \<Rightarrow> int list" where
  "answers es = List.map_filter (\<lambda>e. case e of Insert i k r \<Rightarrow> Some r | _ \<Rightarrow> None) es"

lemma events_snoc [simp]:
  "insertions (es @ [e]) = insertions es @ (case e of Insert i k r \<Rightarrow> [k] | _ \<Rightarrow> [])"
  "answers (es @ [e]) = answers es @ (case e of Insert i k r \<Rightarrow> [r] | _ \<Rightarrow> [])"
  "insertions [] = []" "answers [] = []"
  by (simp_all add: insertions_def answers_def map_filter_def split: event.split)

lemma one_database_snoc [simp]:
  "one_database D (ks @ [k]) db = snd (expose_publish D k (one_database D ks db))" "one_database D [] db = db"
  by (simp_all add: one_database_def)

text \<open>The simulation: after every orderly run the cluster holds what the single database holds.\<close>

lemma orderly_run_simulates:
  assumes D: "dds_keyed D" and run: "cluster_run D orderly c0 es c"
    and c0: "cluster_ok A M c0" "members c0 \<noteq> []" and db: "node_ok A M {} {} db"
  shows "\<exists>A' M'. cluster_ok A' M' c \<and> members c = members c0 \<and> node_ok A' M' {} {} (one_database D (insertions es) db) \<and>
    M \<le> M' \<and> answers es = [M + 1 .. M']"
  using run
proof induction
  case start
  then show ?case using c0 db by (intro exI [of _ A] exI [of _ M]) simp
next
  case (step es c e c')
  then obtain A' M' where ih: "cluster_ok A' M' c" "members c = members c0" "M \<le> M'" "answers es = [M + 1 .. M']"
      "node_ok A' M' {} {} (one_database D (insertions es) db)" by blast
  have mem: "members c' = members c0" using step.hyps ih(2) by (cases e) (auto dest: cluster_step_members)
  show ?case
  proof (cases e)
    case (Insert i k r)
    note s = cluster_ok_insert [OF D ih(1), of i k r c'] step.hyps Insert
    have r: "r = M' + 1" "cluster_ok (insert (msg_of (M' + 1) k) A') (M' + 1) c'" using s by simp_all
    have M: "M' + 1 < int maximum_messages"
      using r(2) by (simp add: cluster_ok_def rows_ok_def)
    have ok: "rows_ok A' M'" using ih(1) by (simp add: cluster_ok_def)
    have k: "ki_Id k = -1" using step.hyps Insert by simp
    have "[M + 1 .. M' + 1] = [M + 1 .. M'] @ [M' + 1]" using ih(3) by (subst upto_rec2) simp_all
    then show ?thesis
      using node_ok_insert [OF D ok ih(5) M k] r ih(3,4) mem Insert
      by (intro exI [of _ "insert (msg_of (M' + 1) k) A'"] exI [of _ "M' + 1"]) auto
  next
    case (Receive j x)
    then show ?thesis
      using cluster_ok_receive [OF D ih(1)] step.hyps ih mem by (intro exI [of _ A'] exI [of _ M']) simp
  next
    case (Republish i dead)
    then show ?thesis
      using cluster_ok_republish [OF D ih(1)] step.hyps ih mem by (intro exI [of _ A'] exI [of _ M']) simp
  qed (use step.hyps in simp)
qed

lemma cluster_of_ok:
  assumes "dds_ok db" "\<forall>n \<in> set (reader_maxid db). 0 \<le> n" "max_id_of db < int maximum_messages"
  shows "cluster_ok (set (reader db)) (max_id_of db) (cluster_of js db)"
proof -
  have "rows_ok (set (reader db)) (max_id_of db)"
    using assms max_id_of_nonneg [of db] by (simp add: rows_ok_def dds_ok_def distinct_map)
  then show ?thesis
    using database_node_ok [OF assms(1,2)]
    by (simp add: cluster_ok_def cluster_of_def pending_rows_def pending_maxids_def)
qed

section \<open>Concurrent insertions and nodes that join\<close>





lemma cluster_run_append:
  "cluster_run D G c (es @ fs) c' \<longleftrightarrow> (\<exists>c1. cluster_run D G c es c1 \<and> cluster_run D G c1 fs c')"
  by (induction fs arbitrary: c' rule: rev_induct)
     (auto simp: run_Nil run_snoc simp flip: append_assoc)

lemma cluster_run_Cons:
  "cluster_run D G c (e # es) c' \<longleftrightarrow> (\<exists>c1. G c e \<and> cluster_step D c e c1 \<and> cluster_run D G c1 es c')"
  using cluster_run_append [of D G c "[e]" es c'] run_snoc [of D G c "[]" e] by (auto simp: run_Nil)

text \<open>A node that has joined, until it appends: it has heard of no identifier.\<close>

definition no_maxid :: "nat \<Rightarrow> cluster \<Rightarrow> bool" where
  "no_maxid j c \<longleftrightarrow> reader_maxid (nodes c j) = [] \<and> pending_maxids c j = {} \<and> matched_maxid (nodes c j) > 0 \<and>
     distinct (map msg_id (reader (nodes c j)))"

lemma no_maxid_receive:
  assumes "dds_keyed D" "no_maxid j c" "cluster_step D c (Receive l x) c'"
  shows "no_maxid j c'"
proof -
  obtain xs ys db' where t: "traffic c = xs @ (l, x) # ys" and d: "received D x (nodes c l) db'"
    and c': "c' = set_node l db' (c\<lparr>traffic := xs @ ys\<rparr>)"
    using assms(3) by (rule receiveE) blast
  have p: "pending_maxids c' j = {}" using pending_receive(2) [OF t, of j] assms(2) by (auto simp: c' no_maxid_def)
  show ?thesis
  proof (cases "l = j")
    case True
    have "\<And>n. x \<noteq> MaxSample n" using t assms(2) True by (auto simp: no_maxid_def pending_maxids_def)
    then obtain m where "x = RowSample m" by (cases x) auto
    then show ?thesis using assms(1,2) d p True by (auto simp: no_maxid_def c' dds_keyed_def)
  qed (use assms(2) p in \<open>simp add: no_maxid_def c'\<close>)
qed

lemma receives_no_maxid:
  assumes "cluster_run D G c es c'" "dds_keyed D" "\<forall>e \<in> set es. \<exists>j x. e = Receive j x" "no_maxid j c"
  shows "no_maxid j c'"
  using assms(1,3)
proof induction
  case start
  then show ?case using assms(4) by simp
next
  case (step es c1 e c2)
  then obtain l x where "e = Receive l x" by auto
  then show ?case using step no_maxid_receive [OF assms(2), of j c1 l x c2] by simp
qed

text \<open>The guard that allows every step.\<close>

definition anything :: "cluster \<Rightarrow> event \<Rightarrow> bool" where
  "anything c e = True"

text \<open>Databases with the same rows answer alike.\<close>

lemma rows_of_cong:
  assumes "dds_ok db" "dds_ok db'" "set (reader db) = set (reader db')"
  shows "rows_of k db = rows_of k db'"
  using assms by (intro sorted_rows_unique) (auto simp: rows_of_def dds_ok_def distinct_map inj_on_def)

text \<open>What a node that has received everything holds after an orderly run.\<close>

lemma orderly_run_database:
  assumes "dds_keyed D" "dds_ok db" "\<forall>n \<in> set (reader_maxid db). 0 \<le> n" "max_id_of db < int maximum_messages"
    and "cluster_run D orderly (cluster_of js db) es c" "s = one_database D (insertions es) db" "js \<noteq> []"
  shows "answers es = [max_id_of db + 1 .. max_id_of s] \<and>
    (\<forall>j \<in> set js. up_to_date c j \<longrightarrow> dds_ok (nodes c j) \<and> set (reader (nodes c j)) = set (reader s) \<and>
       max_id_of (nodes c j) = max_id_of s \<and> (\<forall>k. rows_of k (nodes c j) = rows_of k s))"
proof -
  have mem: "members (cluster_of js db) = js" by (simp add: cluster_of_def)
  obtain A M where c: "cluster_ok A M c" "members c = js" "node_ok A M {} {} s" "answers es = [max_id_of db + 1 .. M]"
    using orderly_run_simulates [OF assms(1,5) cluster_of_ok [OF assms(2-4)] _ database_node_ok [OF assms(2,3)]] assms(6,7) mem
    by auto
  have ok: "rows_ok A M" using c(1) by (simp add: cluster_ok_def)
  note s = node_ok_database [OF ok c(3)]
  have "dds_ok (nodes c j) \<and> max_id_of (nodes c j) = M \<and> set (reader (nodes c j)) = A"
    if "j \<in> set js" "up_to_date c j" for j
  proof -
    have "node_ok A M (pending_rows c j) (pending_maxids c j) (nodes c j)"
      using c(1,2) that(1) by (simp add: cluster_ok_def)
    with that(2) have "node_ok A M {} {} (nodes c j)" by (simp add: up_to_date_pending)
    then show ?thesis using node_ok_database [OF ok, of "nodes c j"] by blast
  qed
  with c(4) s show ?thesis by (auto intro!: rows_of_cong)
qed

text \<open>
  A version that Kine appends through one node is read through every other one, once it has arrived:
  \<open>Append\<close> is the insertion \<open>insert_of\<close> of its event.
\<close>

lemma append_seen_elsewhere:
  assumes "dds_keyed D" "dds_ok db" "dds_room db" "\<forall>n \<in> set (reader_maxid db). 0 \<le> n" "max_id_of db < int maximum_messages"
    and "cluster_run D orderly (cluster_of js db) es c" "insertions es = [insert_of e]" "j \<in> set js" "up_to_date c j"
    and "storable e" "KV e = Some kv"
  shows "dds_versions \<lparr>d_world = nodes c j, notify = x\<rparr> (Key kv) =
     dds_versions \<lparr>d_world = db, notify = y\<rparr> (Key kv) @ [stored (max_id_of db + 1) e]"
proof -
  let ?s = "one_database D (insertions es) db" and ?m = "msg_of (max_id_of db + 1) (insert_of e)"
  have M: "0 < max_id_of db + 1" "max_id_of db + 1 < 2 ^ 31"
    using max_id_of_nonneg [of db] assms(3) by (simp_all add: dds_room_def)
  have m: "msg_id ?m = max_id_of db + 1" "msg_name ?m = Key kv"
    using M assms(11) by (simp_all add: msg_of_def insert_of_def wrap_simps)
  obtain db' where "expose_publish D (insert_of e) db = ((max_id_of db + 1, False), db')" and ok: "dds_ok db'"
    and new: "set (reader db') = insert ?m (set (reader db))"
    by (rule publish_fresh [OF assms(1-3), of "insert_of e"]) (simp_all add: insert_of_def)
  then have s: "?s = db'" by (simp add: assms(7) one_database_def)
  have "\<forall>x \<in> set (reader db). msg_id x < msg_id ?m" using assms(2) m(1) by (force simp: dds_ok_def)
  then have "rows_of (Key kv) db' = rows_of (Key kv) db @ [?m]"
    using rows_of_insert [OF assms(2) ok new, of "Key kv"] m(2) by simp
  moreover have "rows_of (Key kv) (nodes c j) = rows_of (Key kv) db'"
    using orderly_run_database [OF assms(1,2,4-6) refl] assms(8,9) s by (cases js) auto
  ultimately show ?thesis
    using event_of_stored [OF assms(10) M] by (simp add: dds_versions_def)
qed

section \<open>Runs for the examples\<close>

definition append_row :: "string \<Rightarrow> KineInsert" where
  "append_row name = \<lparr>ki_Id = -1, ki_Name = name, ki_Created = 1, ki_Deleted = 0, ki_CreateRevision = 0,
     ki_PrevRevision = 0, ki_Lease = 0, ki_Value = ''v'', ki_OldValue = []\<rparr>"

lemma append_row_id [simp]: "ki_Id (append_row name) = -1"
  by (simp add: append_row_def)

lemma append_msg [simp]: "msg_of 1 (append_row name) = row_msg 1 name 0"
  by (simp add: append_row_def msg_of_def row_msg_def wrap_simps)

text \<open>The first row of an empty database.\<close>

lemma first_append:
  "expose_publish in_order (append_row name) (database_of [] 0) =
     ((1, False), database_of [row_msg 1 name 0] 1)"
  "published (append_row name) (database_of [] 0) = [MaxSample 1, RowSample (row_msg 1 name 0)]"
  by (simp_all add: expose_publish_def core_publish_returningid_def query_maxid_and_replace_def published_def
      query_maxid_def database_of_def in_order_def maximum_messages_def Let_def wrap_simps)

lemma empty_database:
  "dds_ok (database_of [] 0)" "\<forall>n \<in> set (reader_maxid (database_of [] 0)). 0 \<le> n" "max_id_of (database_of [] 0) = 0"
  by (simp_all add: dds_ok_def maximum_messages_def)

lemma insert_0:
  assumes "i \<in> set (members c)" "nodes c i = database_of [] 0"
  shows "cluster_step in_order c (Insert i (append_row name) 1)
     (broadcast i [MaxSample 1, RowSample (row_msg 1 name 0)] (set_node i (database_of [row_msg 1 name 0] 1) c))"
  using cluster_step.insert [OF assms(1), where D = in_order and k = "append_row name" and r = 1 and ok = False]
    assms(2) first_append [of name] by simp

section \<open>Properties\<close>

text \<open>
  C6: used in an orderly way, a cluster is one database. When rows are appended only at nodes that have
  received everything, the identifiers that the nodes answer with ascend by one over the whole cluster,
  however samples are delayed and whoever republishes; and every node that has received everything
  holds the rows and the greatest identifier of a single database with the same insertions, so that it
  reads the same versions of every key.
\<close>

theorem cluster_is_one_database:
  assumes "dds_keyed D" "dds_ok db" "\<forall>n \<in> set (reader_maxid db). 0 \<le> n" "max_id_of db < int maximum_messages"
    and "cluster_run D orderly (cluster_of js db) es c" "s = one_database D (insertions es) db" "js \<noteq> []"
  shows "answers es = [max_id_of db + 1 .. max_id_of s] \<and>
    (\<forall>j \<in> set js. up_to_date c j \<longrightarrow> dds_ok (nodes c j) \<and> set (reader (nodes c j)) = set (reader s) \<and>
       max_id_of (nodes c j) = max_id_of s \<and> (\<forall>k. rows_of k (nodes c j) = rows_of k s))"
  using assms by (rule orderly_run_database)

theorem cluster_is_one_database_witness:
  "\<exists>c. cluster_run in_order orderly (cluster_of [0, 1] (database_of [] 0))
      [Insert 0 (append_row ''/a'') 1, Receive 1 (RowSample (row_msg 1 ''/a'' 0)), Receive 1 (MaxSample 1)] c \<and>
    set (reader (nodes c 1)) = {row_msg 1 ''/a'' 0} \<and> max_id_of (nodes c 1) = 1"
proof -
  let ?es = "[Insert 0 (append_row ''/a'') 1, Receive 1 (RowSample (row_msg 1 ''/a'' 0)), Receive 1 (MaxSample 1)]"
  let ?c0 = "cluster_of [0, 1] (database_of [] 0)" and ?m = "row_msg 1 ''/a'' 0"
  let ?c1 = "broadcast 0 [MaxSample 1, RowSample ?m] (set_node 0 (database_of [?m] 1) ?c0)"
  let ?c2 = "set_node 1 (store_sample in_order (RowSample ?m) (nodes ?c1 1)) (?c1\<lparr>traffic := [(1, MaxSample 1)] @ []\<rparr>)"
  let ?c3 = "set_node 1 (store_sample in_order (MaxSample 1) (nodes ?c2 1)) (?c2\<lparr>traffic := [] @ []\<rparr>)"
  have t: "traffic ?c1 = [(1, MaxSample 1)] @ (1, RowSample ?m) # []" by (simp add: broadcast_def cluster_of_def)
  have "cluster_step in_order ?c0 (Insert 0 (append_row ''/a'') 1) ?c1" by (rule insert_0) (simp_all add: cluster_of_def)
  moreover have "cluster_step in_order ?c1 (Receive 1 (RowSample ?m)) ?c2" by (rule cluster_step.receive [OF t]) simp
  moreover have "cluster_step in_order ?c2 (Receive 1 (MaxSample 1)) ?c3" by (rule cluster_step.receive) simp_all
  moreover have "orderly ?c0 (Insert 0 (append_row ''/a'') 1)"
    using empty_database(3) by (simp add: up_to_date_def cluster_of_def maximum_messages_def)
  ultimately have "cluster_run in_order orderly ?c0 ?es ?c3 \<and> traffic ?c3 = []" by (auto simp: cluster_run_Cons run_Nil)
  then obtain c where run: "cluster_run in_order orderly ?c0 ?es c" and c: "traffic c = []" by blast
  have s: "one_database in_order (insertions ?es) (database_of [] 0) = database_of [?m] 1"
    using first_append(1) by (simp add: insertions_def map_filter_def one_database_def)
  have M: "max_id_of (database_of [] 0) < int maximum_messages" "up_to_date c 1"
    using empty_database(3) c by (simp_all add: maximum_messages_def up_to_date_def)
  have "set (reader (nodes c 1)) = {?m} \<and> max_id_of (nodes c 1) = 1"
    using cluster_is_one_database [OF in_order_keyed empty_database(1,2) M(1) run s [symmetric]] M(2) by simp
  with run show ?thesis by blast
qed



text \<open>
  C20: a node that joins receives the rows of the others but not their greatest identifier: the first row
  that it appends, before another node does, gets the identifier 1, and replaces the row that had it.
\<close>

theorem joined_node_starts_over:
  assumes "dds_keyed D" "\<forall>x. (j, x) \<notin> set (traffic c0)" "ki_Id k = -1"
    and "cluster_run D anything c0 (Join j # es @ [Insert j k r]) c" "\<forall>e \<in> set es. \<exists>l x. e = Receive l x"
  shows "r = 1 \<and> (\<forall>m \<in> set (reader (nodes c j)). msg_id m = 1 \<longrightarrow> m = msg_of 1 k)"
proof -
  obtain c1 c2 where c1: "cluster_step D c0 (Join j) c1" and run: "cluster_run D anything c1 es c2"
    and ins: "cluster_step D c2 (Insert j k r) c"
    using assms(4) by (auto simp: cluster_run_Cons run_snoc)
  have "no_maxid j c1"
    using c1 assms(2) by (auto elim!: joinE simp: no_maxid_def join_def new_database_def pending_maxids_def)
  then have n: "no_maxid j c2" by (rule receives_no_maxid [OF run assms(1,5)])
  obtain b db' where pub: "expose_publish D k (nodes c2 j) = ((r, b), db')" and c: "nodes c j = db'"
    using ins by (auto elim!: insertE)
  have "r = 1" "reader db' = dds_write D (msg_of 1 k) (reader (nodes c2 j))"
    using pub n assms(3)
    by (auto simp: expose_publish_def core_publish_returningid_def query_maxid_and_replace_def no_maxid_def Let_def wrap_simps)
  moreover have "msg_id (msg_of 1 k) = 1" by (simp add: msg_of_def wrap_simps)
  ultimately show ?thesis using n assms(1) c by (auto simp: dds_keyed_def no_maxid_def)
qed

theorem joined_node_starts_over_witness:
  "\<exists>c. cluster_run in_order anything (cluster_of [0] (database_of [row_msg 1 ''/a'' 0] 1))
      [Join 1, Insert 1 (append_row ''/b'') 1] c \<and>
    (\<forall>m \<in> set (reader (nodes c 1)). msg_id m = 1 \<longrightarrow> m = row_msg 1 ''/b'' 0)"
proof -
  let ?c0 = "cluster_of [0] (database_of [row_msg 1 ''/a'' 0] 1)"
  let ?k = "append_row ''/b''"
  have j: "cluster_step in_order ?c0 (Join 1) (join 1 ?c0)" by (rule cluster_step.join) (simp add: cluster_of_def)
  have n: "nodes (join 1 ?c0) 1 = new_database" "1 \<in> set (members (join 1 ?c0))" by (simp_all add: join_def)
  obtain db' where "expose_publish in_order ?k new_database = ((1, False), db')"
    by (simp add: expose_publish_def core_publish_returningid_def query_maxid_and_replace_def new_database_def
        Let_def wrap_simps)
  with n obtain c where "cluster_step in_order (join 1 ?c0) (Insert 1 ?k 1) c"
    using cluster_step.insert [OF n(2), of in_order ?k 1 False db'] by auto
  with j have run: "cluster_run in_order anything ?c0 (Join 1 # [] @ [Insert 1 ?k 1]) c"
    by (auto simp: cluster_run_Cons run_Nil anything_def)
  show ?thesis
    using joined_node_starts_over [OF in_order_keyed _ _ run] run by (auto simp: cluster_of_def)
qed

end
