(* ===== verification/Watch.thy ===== *)
theory Watch
  imports Server
begin

text \<open>
  The watch service of the server (\<open>pkg/server/watch.go\<close>): the goroutine that serves one watch and
  the cancellation. The stream to the client is a parameter \<open>send\<close> over its own state. Each
  function is what one goroutine does; \<open>WatchService.thy\<close> lets the goroutines of a call interleave.
\<close>

section \<open>Responses\<close>

record WatchResponse =
  wr_Header :: ResponseHeader
  wr_WatchId :: int64
  wr_Created :: bool
  wr_Canceled :: bool
  wr_CancelReason :: string
  wr_Events :: "mvcc_Event list"

definition toEvent :: "Event \<Rightarrow> mvcc_Event" where
  "toEvent event =
     \<lparr>ev_Type = (if Delete event then DELETE else PUT), ev_Kv = toKV (KV event),
      ev_PrevKv = toKV (PrevKV event)\<rparr>"

definition toEvents :: "Event list \<Rightarrow> mvcc_Event list" where
  "toEvents events = map toEvent events"

definition created_response :: "int64 \<Rightarrow> WatchResponse" where
  "created_response ident =
     \<lparr>wr_Header = \<lparr>hdr_Revision = 0\<rparr>, wr_WatchId = ident, wr_Created = True, wr_Canceled = False,
      wr_CancelReason = [], wr_Events = []\<rparr>"

definition canceled_response :: "int64 \<Rightarrow> WatchResponse" where
  "canceled_response ident =
     \<lparr>wr_Header = \<lparr>hdr_Revision = 0\<rparr>, wr_WatchId = ident, wr_Created = False, wr_Canceled = True,
      wr_CancelReason = ''watch closed'', wr_Events = []\<rparr>"

definition events_response :: "int64 \<Rightarrow> int64 \<Rightarrow> Event list \<Rightarrow> WatchResponse" where
  "events_response ident rv events =
     \<lparr>wr_Header = txnHeader rv, wr_WatchId = ident, wr_Created = False, wr_Canceled = False,
      wr_CancelReason = [], wr_Events = toEvents events\<rparr>"

section \<open>The watcher\<close>

text \<open>The stream to the client, and the watches that can still be cancelled.\<close>

record 'w watcher =
  stream :: 'w
  watches :: "int64 list"

type_synonym 'w sender = "WatchResponse \<Rightarrow> 'w \<Rightarrow> go_error option \<times> 'w"

definition watcher_send :: "'w sender \<Rightarrow> WatchResponse \<Rightarrow> 'w watcher \<Rightarrow> go_error option \<times> 'w watcher" where
  "watcher_send send resp wt =
     (case send resp (stream wt) of (err, w) \<Rightarrow> (err, wt\<lparr>stream := w\<rparr>))"

text \<open>The response is sent even when the watch has been removed before.\<close>

definition watcher_Cancel :: "'w sender \<Rightarrow> int64 \<Rightarrow> 'w watcher \<Rightarrow> 'w watcher" where
  "watcher_Cancel send ident wt =
     snd (watcher_send send (canceled_response ident)
       (wt\<lparr>watches := filter (\<lambda>i. i \<noteq> ident) (watches wt)\<rparr>))"

text \<open>
  The loop over the batches of the backend. After a response that could not be sent the watch is
  cancelled, and the loop goes on until the channel is closed.
\<close>

fun watch_batches :: "'w sender \<Rightarrow> int64 \<Rightarrow> Event list list \<Rightarrow> 'w watcher \<Rightarrow> 'w watcher option" where
  "watch_batches send ident [] wt = Some wt"
| "watch_batches send ident (events # batches) wt =
     (if length events = 0 then watch_batches send ident batches wt
      else do {
        kv \<leftarrow> KV (last events);
        let (err, wt) = watcher_send send (events_response ident (ModRevision kv) events) wt;
        watch_batches send ident batches (if err \<noteq> None then watcher_Cancel send ident wt else wt)
      })"

definition watcher_Start ::
  "'b Backend \<Rightarrow> 'w sender \<Rightarrow> int64 \<Rightarrow> string \<Rightarrow> int64 \<Rightarrow> 'w watcher \<Rightarrow> ('b, 'w watcher) go" where
  "watcher_Start b send ident key startRevision wt s = do {
     let wt = wt\<lparr>watches := watches wt @ [ident]\<rparr>;
     let (err, wt) = watcher_send send (created_response ident) wt;
     if err \<noteq> None then Some (watcher_Cancel send ident wt, s)
     else do {
       (batches, s) \<leftarrow> b_Watch b key startRevision s;
       wt \<leftarrow> watch_batches send ident batches wt;
       Some (watcher_Cancel send ident wt, s)
     }
   }"

section \<open>Facts\<close>

text \<open>A stream that accepts and remembers every response.\<close>

definition recording :: "WatchResponse list sender" where
  "recording resp sent = (None, sent @ [resp])"

lemma watcher_send_recording [simp]:
  "watcher_send recording resp wt = (None, wt\<lparr>stream := stream wt @ [resp]\<rparr>)"
  by (simp add: watcher_send_def recording_def)

definition batch_response :: "int64 \<Rightarrow> Event list \<Rightarrow> WatchResponse" where
  "batch_response ident events = events_response ident (ModRevision (the (KV (last events)))) events"

lemma watch_batches_recording:
  "\<forall>e \<in> set (concat batches). KV e \<noteq> None \<Longrightarrow> watch_batches recording ident batches wt =
     Some (wt\<lparr>stream := stream wt @ map (batch_response ident) (filter (\<lambda>b. b \<noteq> []) batches)\<rparr>)"
proof (induction batches arbitrary: wt)
  case (Cons events batches)
  show ?case
  proof (cases "events = []")
    case False
    then have "last events \<in> set events" by simp
    with Cons.prems obtain kv where "KV (last events) = Some kv" by fastforce
    with False Cons show ?thesis by (simp add: batch_response_def)
  qed (use Cons in simp)
qed simp

text \<open>
  A watch that the client cancels is reported as cancelled twice: the request is answered at once,
  and the goroutine of the watch answers again when the backend closes its channel.
\<close>

lemma watcher_Cancel_twice:
  "stream (watcher_Cancel recording ident (watcher_Cancel recording ident wt)) =
     stream wt @ [canceled_response ident, canceled_response ident]"
  by (simp add: watcher_Cancel_def)

section \<open>Properties\<close>

text \<open>
  Over a stream that accepts every response, a watch answers with one response that says it was
  created, one for each batch that is not empty, whose header is the revision of its last event, and
  one that says it was cancelled when the backend closes the channel. All events of the backend are
  sent, in their order.
\<close>

lemma watch_responses:
  assumes "b_Watch b key rv s = Some (batches, s')" "\<forall>e \<in> set (concat batches). KV e \<noteq> None"
    and "ident \<notin> set (watches wt)"
  shows "\<exists>resps. watcher_Start b recording ident key rv wt s =
      Some (wt\<lparr>stream := stream wt @ created_response ident # resps @ [canceled_response ident]\<rparr>, s') \<and>
    concat (map wr_Events resps) = toEvents (concat batches) \<and>
    map wr_Header resps = map (\<lambda>b. txnHeader (ModRevision (the (KV (last b))))) (filter (\<lambda>b. b \<noteq> []) batches)"
proof -
  let ?resps = "map (batch_response ident) (filter (\<lambda>b. b \<noteq> []) batches)"
  have "filter (\<lambda>i. i \<noteq> ident) (watches wt) = watches wt" using assms(3) by (auto intro: filter_True)
  then have "watcher_Start b recording ident key rv wt s =
      Some (wt\<lparr>stream := stream wt @ created_response ident # ?resps @ [canceled_response ident]\<rparr>, s')"
    using assms(1,2) by (simp add: watcher_Start_def watch_batches_recording watcher_Cancel_def)
  moreover have "concat (map wr_Events ?resps) = toEvents (concat batches)"
    by (induction batches) (auto simp: batch_response_def events_response_def toEvents_def)
  moreover have "map wr_Header ?resps =
      map (\<lambda>b. txnHeader (ModRevision (the (KV (last b))))) (filter (\<lambda>b. b \<noteq> []) batches)"
    by (simp add: batch_response_def events_response_def)
  ultimately show ?thesis by blast
qed

text \<open>An event of a key, and a backend whose watches deliver it and an empty batch.\<close>

definition put_event :: "string \<Rightarrow> int64 \<Rightarrow> Event" where
  "put_event key rv =
     \<lparr>Delete = False, Create = True, KV = Some (KeyValue_zero\<lparr>Key := key, ModRevision := rv\<rparr>), PrevKV = None\<rparr>"

end
