(* ===== verification/Delivery.thy ===== *)
theory Delivery
  imports Cluster Watch
begin

text \<open>
  The way of a change to a watch, through all layers: the rows that the database gets while the poller
  runs, the batches that the poller broadcasts, the first answer of the log, and the responses of the
  watch. The rows that were written without a gap reach every watch once, in their order.
\<close>

section \<open>Databases without a gap\<close>

text \<open>Every identifier up to the greatest one has its row, as long as rows are only appended.\<close>

definition dense :: "database \<Rightarrow> bool" where
  "dense db \<longleftrightarrow> dds_ok db \<and> msg_id ` set (reader db) = {1 .. max_id_of db}"

definition grows :: "database \<Rightarrow> database \<Rightarrow> bool" where
  "grows db db' \<longleftrightarrow> dense db' \<and> set (reader db) \<subseteq> set (reader db')"













text \<open>An insertion with a new identifier keeps the database without a gap.\<close>

lemma publish_grows:
  assumes "dds_keyed D" "dense db" "dds_room db" "ki_Id k = -1" "expose_publish D k db = (r, db')"
  shows "grows db db'" "max_id_of db' = max_id_of db + 1"
proof -
  have ok: "dds_ok db" using assms(2) by (simp add: dense_def)
  let ?M = "max_id_of db + 1"
  have M: "0 < ?M" "?M < 2 ^ 31" using max_id_of_nonneg [of db] assms(3) by (simp_all add: dds_room_def)
  obtain b where b: "expose_publish D k db = ((?M, False), b)" "dds_ok b" "max_id_of b = ?M"
    "set (reader b) = insert (msg_of ?M k) (set (reader db))"
    by (rule publish_fresh [OF assms(1) ok assms(3,4)])
  have "msg_id (msg_of ?M k) = ?M" using M by (simp add: msg_of_def wrap_simps)
  then have "msg_id ` set (reader b) = insert ?M {1 .. max_id_of db}" using assms(2) b(4) by (simp add: dense_def)
  also have "\<dots> = {1 .. ?M}" using M by auto
  finally show "grows db db'" "max_id_of db' = ?M" using b assms(5) by (auto simp: grows_def dense_def)
qed

text \<open>So does an append of the log.\<close>

lemma append_grows:
  assumes "dds_keyed D" "dense (d_world s)" "dds_room (d_world s)"
    and "SQLLog_Append (generic_dialect (comms D)) e s = Some (r, s')"
  shows "grows (d_world s) (d_world s') \<and> max_id_of (d_world s') = max_id_of (d_world s) + 1"
proof -
  obtain r' db' where p: "expose_publish D (insert_of e) (d_world s) = (r', db')" by fastforce
  note g = publish_grows [OF assms(1-3) _ p]
  have "d_world s' = db'"
    using p assms(4)
    by (auto simp: SQLLog_Append_def lift_d_def Generic_Insert_def remote_defs comms_def dds_client_def
        insert_of_def Let_def wrap_simps the_kv_def split: option.splits prod.splits if_splits)
  with g show ?thesis by (simp add: insert_of_def)
qed

section \<open>The poller on a database without a gap\<close>

text \<open>The events of rows, and those that the poller passes on.\<close>

definition shown :: "Msg list \<Rightarrow> Event list" where
  "shown ms = map event_of_msg (filter (\<lambda>m. \<not> Generic_IsFill (msg_name m)) ms)"

lemma shown_append [simp]: "shown (xs @ ys) = shown xs @ shown ys" "shown [] = []"
  by (simp_all add: shown_def)







text \<open>Rounds between which others only append rows, and in which the poller is not told to end.\<close>

definition growing :: "(wake \<times> (Event \<Rightarrow> int64) \<times> (database SQLLog \<Rightarrow> database SQLLog)) list \<Rightarrow> bool" where
  "growing rounds \<longleftrightarrow> (\<forall>(wk, clock, env) \<in> set rounds.
     wk \<noteq> Done \<and> (\<forall>s. dense (d_world s) \<longrightarrow> grows (d_world s) (d_world (env s))))"

lemma growing_Cons [simp]:
  "growing ((wk, clock, env) # rounds) \<longleftrightarrow>
     wk \<noteq> Done \<and> (\<forall>s. dense (d_world s) \<longrightarrow> grows (d_world s) (d_world (env s))) \<and> growing rounds"
  by (auto simp: growing_def)



section \<open>What a watch reads and receives\<close>

text \<open>The keys that a watch is about: those below a directory, or one key.\<close>

definition watched :: "string \<Rightarrow> string \<Rightarrow> bool" where
  "watched pre k \<longleftrightarrow> HasSuffix pre ''/'' \<and> HasPrefix k pre \<or> k = pre"

text \<open>
  The database compares differently: a directory is matched anywhere in a name. The two agree for a
  single key, and for a directory whose name occurs in the keys of the database only at their front.
\<close>

definition clean :: "string \<Rightarrow> database \<Rightarrow> bool" where
  "clean pre db \<longleftrightarrow> (\<forall>m \<in> set (reader db).
     name_matches (if HasSuffix pre ''/'' then pre @ ''%'' else pre) m \<longleftrightarrow> watched pre (msg_name m))"

lemma clean_key: "plain_key k \<Longrightarrow> clean k db"
  by (simp add: clean_def watched_def plain_key_def name_matches_def utils_has_percentage_def)





section \<open>Delivery\<close>








end
