(* ===== verification/WatchService.thy ===== *)
theory WatchService
  imports Watch
begin

text \<open>
  One call of the watch service (\<open>Watch\<close>, \<open>Start\<close>, \<open>Cancel\<close> and \<open>Close\<close> of \<open>pkg/server/watch.go\<close>) as a
  transition system: the goroutine that receives the requests and one goroutine for every watch take
  their steps in any order. \<open>Watch.thy\<close> says what the goroutine of a watch does alone; here it is shown
  that the others do not disturb it.
\<close>

section \<open>States\<close>

text \<open>
  Where the goroutine of a watch stands: before its first response, at the head of its loop, before and
  after it takes the lock in \<open>Cancel\<close> (\<open>True\<close> when it goes on with the loop), and at its end.
\<close>

datatype watch_pc =
    Starting
  | Reading
  | Cancel_lock bool
  | Cancel_answer bool
  | Ended

record watch_routine =
  rt_id :: int64
  rt_key :: string
  rt_revision :: int64
  rt_cancelled :: bool
  rt_pc :: watch_pc

text \<open>The receiving goroutine: its loop, the two parts of \<open>Cancel\<close>, \<open>Close\<close> and its wait.\<close>

datatype serve_pc =
    Receiving
  | Cancel_request int64
  | Cancel_reply int64
  | Closing
  | Waiting
  | Returned
  | Panicked

text \<open>
  \<open>watchID\<close> is shared by all streams. \<open>live\<close> are the keys of the map of cancel functions. \<open>sends\<close> are the
  calls of \<open>Send\<close>: the watch whose goroutine made it (none for the receiving one), the response, and
  whether it was accepted.
\<close>

record watch_state =
  watchID :: int64
  live :: "int64 list"
  routines :: "watch_routine list"
  serve :: serve_pc
  sends :: "(int64 option \<times> WatchResponse \<times> bool) list"

definition watch_init :: "int64 \<Rightarrow> watch_state" where
  "watch_init n = \<lparr>watchID = n, live = [], routines = [], serve = Receiving, sends = []\<rparr>"

section \<open>Steps\<close>

definition set_pc :: "int64 \<Rightarrow> watch_pc \<Rightarrow> watch_state \<Rightarrow> watch_state" where
  "set_pc i pc s = s\<lparr>routines := map (\<lambda>r. if rt_id r = i then r\<lparr>rt_pc := pc\<rparr> else r) (routines s)\<rparr>"

definition pc_of :: "int64 \<Rightarrow> watch_state \<Rightarrow> watch_pc option" where
  "pc_of i s = map_option rt_pc (find (\<lambda>r. rt_id r = i) (routines s))"

definition log_send :: "int64 option \<Rightarrow> WatchResponse \<Rightarrow> bool \<Rightarrow> watch_state \<Rightarrow> watch_state" where
  "log_send who resp ok s = s\<lparr>sends := sends s @ [(who, resp, ok)]\<rparr>"

text \<open>The part of \<open>Start\<close> under the lock.\<close>

definition start_watch :: "string \<Rightarrow> int64 \<Rightarrow> watch_state \<Rightarrow> watch_state" where
  "start_watch key revision s =
     (let i = i64 (watchID s + 1)
      in s\<lparr>watchID := i, live := live s @ [i],
           routines := routines s @ [\<lparr>rt_id = i, rt_key = key, rt_revision = revision, rt_cancelled = False, rt_pc = Starting\<rparr>]\<rparr>)"

text \<open>The part of \<open>Cancel\<close> under the lock, and what \<open>Close\<close> does under it.\<close>

definition cancel_watch :: "int64 \<Rightarrow> watch_state \<Rightarrow> watch_state" where
  "cancel_watch i s =
     (if i \<in> set (live s)
      then s\<lparr>live := filter (\<lambda>j. j \<noteq> i) (live s),
             routines := map (\<lambda>r. if rt_id r = i then r\<lparr>rt_cancelled := True\<rparr> else r) (routines s)\<rparr>
      else s)"

definition close_watches :: "watch_state \<Rightarrow> watch_state" where
  "close_watches s =
     s\<lparr>routines := map (\<lambda>r. if rt_id r \<in> set (live s) then r\<lparr>rt_cancelled := True\<rparr> else r) (routines s)\<rparr>"

text \<open>
  What can happen: a request arrives, the stream ends, another stream starts a watch, the receiving
  goroutine goes on, the goroutine of a watch goes on, it is given a batch, or its channel is closed.
  The flag says whether the response that the step sends is accepted.
\<close>

datatype watch_label =
    Recv_create string int64
  | Recv_cancel int64
  | Recv_other
  | Recv_fails
  | Other_stream
  | Serve bool
  | Go int64 bool
  | Batch int64 "Event list" bool
  | Channel_closed int64

definition serve_step :: "bool \<Rightarrow> watch_state \<Rightarrow> watch_state option" where
  "serve_step ok s =
     (case serve s of
        Cancel_request i \<Rightarrow> Some ((cancel_watch i s)\<lparr>serve := Cancel_reply i\<rparr>)
      | Cancel_reply i \<Rightarrow> Some ((log_send None (canceled_response i) ok s)\<lparr>serve := Receiving\<rparr>)
      | Closing \<Rightarrow> Some ((close_watches s)\<lparr>serve := Waiting\<rparr>)
      | Waiting \<Rightarrow> if list_all (\<lambda>r. rt_pc r = Ended) (routines s) then Some (s\<lparr>serve := Returned\<rparr>) else None
      | _ \<Rightarrow> None)"

definition routine_step :: "int64 \<Rightarrow> bool \<Rightarrow> watch_state \<Rightarrow> watch_state option" where
  "routine_step i ok s =
     (case pc_of i s of
        Some Starting \<Rightarrow>
          Some (set_pc i (if ok then Reading else Cancel_lock False) (log_send (Some i) (created_response i) ok s))
      | Some (Cancel_lock b) \<Rightarrow> Some (set_pc i (Cancel_answer b) (cancel_watch i s))
      | Some (Cancel_answer b) \<Rightarrow>
          Some (set_pc i (if b then Reading else Ended) (log_send (Some i) (canceled_response i) ok s))
      | _ \<Rightarrow> None)"

text \<open>An event without a key and value is dereferenced: the process ends.\<close>

definition batch_step :: "int64 \<Rightarrow> Event list \<Rightarrow> bool \<Rightarrow> watch_state \<Rightarrow> watch_state option" where
  "batch_step i events ok s =
     (if pc_of i s \<noteq> Some Reading then None
      else if length events = 0 then Some s
      else (case KV (last events) of
        None \<Rightarrow> Some (s\<lparr>serve := Panicked\<rparr>)
      | Some kv \<Rightarrow>
          Some (set_pc i (if ok then Reading else Cancel_lock True)
            (log_send (Some i) (events_response i (ModRevision kv) events) ok s))))"

definition watch_step :: "watch_label \<Rightarrow> watch_state \<Rightarrow> watch_state option" where
  "watch_step l s =
     (if serve s = Panicked then None
      else case l of
        Recv_create key revision \<Rightarrow> if serve s = Receiving then Some (start_watch key revision s) else None
      | Recv_cancel i \<Rightarrow> if serve s = Receiving then Some (s\<lparr>serve := Cancel_request i\<rparr>) else None
      | Recv_other \<Rightarrow> if serve s = Receiving then Some s else None
      | Recv_fails \<Rightarrow> if serve s = Receiving then Some (s\<lparr>serve := Closing\<rparr>) else None
      | Other_stream \<Rightarrow> Some (s\<lparr>watchID := i64 (watchID s + 1)\<rparr>)
      | Serve ok \<Rightarrow> serve_step ok s
      | Go i ok \<Rightarrow> routine_step i ok s
      | Batch i events ok \<Rightarrow> batch_step i events ok s
      | Channel_closed i \<Rightarrow> if pc_of i s = Some Reading then Some (set_pc i (Cancel_lock False) s) else None)"

text \<open>Runs: what has happened so far, and the state it led to.\<close>

inductive watch_runs :: "int64 \<Rightarrow> watch_label list \<Rightarrow> watch_state \<Rightarrow> bool" for n where
  nothing: "watch_runs n [] (watch_init n)"
| step: "watch_runs n ls s \<Longrightarrow> watch_step l s = Some s' \<Longrightarrow> watch_runs n (ls @ [l]) s'"

inductive_cases watch_runs_snocE: "watch_runs n (ls @ [l]) s"

fun watch_exec :: "watch_label list \<Rightarrow> watch_state \<Rightarrow> watch_state option" where
  "watch_exec [] s = Some s"
| "watch_exec (l # ls) s = Option.bind (watch_step l s) (watch_exec ls)"

lemma watch_exec_runs:
  "watch_exec ls s = Some s' \<Longrightarrow> watch_runs n before s \<Longrightarrow> watch_runs n (before @ ls) s'"
proof (induction ls arbitrary: s before)
  case (Cons l ls)
  then obtain s1 where "watch_step l s = Some s1" "watch_exec ls s1 = Some s'" by (auto simp: bind_eq_Some_conv)
  with Cons.IH [of s1 "before @ [l]"] Cons.prems show ?case by (auto intro: watch_runs.step)
qed simp

lemma watch_exec_init: "watch_exec ls (watch_init n) = Some s \<Longrightarrow> watch_runs n ls s"
  using watch_exec_runs [of ls "watch_init n" s n "[]"] watch_runs.nothing by simp

section \<open>Invariants\<close>

text \<open>
  Watches have identifiers of their own, up to the counter. A watch that has left the map of cancel
  functions has been cancelled, after \<open>Close\<close> every one has, and \<open>Watch\<close> returns after all goroutines.
\<close>

definition watch_inv :: "watch_state \<Rightarrow> bool" where
  "watch_inv s \<longleftrightarrow>
     0 \<le> watchID s \<and> distinct (map rt_id (routines s)) \<and>
     (\<forall>r \<in> set (routines s). 0 < rt_id r \<and> rt_id r \<le> watchID s \<and> (rt_id r \<in> set (live s) \<or> rt_cancelled r)) \<and>
     (serve s \<in> {Waiting, Returned} \<longrightarrow> (\<forall>r \<in> set (routines s). rt_cancelled r)) \<and>
     (serve s = Returned \<longrightarrow> (\<forall>r \<in> set (routines s). rt_pc r = Ended))"

lemma watch_ids [simp]:
  "map rt_id (routines (set_pc i pc s)) = map rt_id (routines s)"
  "map rt_id (routines (cancel_watch i s)) = map rt_id (routines s)"
  "map rt_id (routines (close_watches s)) = map rt_id (routines s)"
  by (simp_all add: set_pc_def cancel_watch_def close_watches_def)

lemma watch_fields [simp]:
  "watchID (set_pc i pc s) = watchID s" "live (set_pc i pc s) = live s" "serve (set_pc i pc s) = serve s"
  "sends (set_pc i pc s) = sends s"
  "watchID (log_send w resp ok s) = watchID s" "live (log_send w resp ok s) = live s"
  "serve (log_send w resp ok s) = serve s" "routines (log_send w resp ok s) = routines s"
  "sends (log_send w resp ok s) = sends s @ [(w, resp, ok)]"
  "watchID (cancel_watch i s) = watchID s" "serve (cancel_watch i s) = serve s" "sends (cancel_watch i s) = sends s"
  "watchID (close_watches s) = watchID s" "serve (close_watches s) = serve s" "sends (close_watches s) = sends s"
  "live (close_watches s) = live s"
  by (simp_all add: set_pc_def log_send_def cancel_watch_def close_watches_def)

lemma pc_of_in: "pc_of i s = Some pc \<Longrightarrow> \<exists>r \<in> set (routines s). rt_id r = i \<and> rt_pc r = pc"
  by (auto simp: pc_of_def find_Some_iff)

lemma find_distinct: "distinct (map f xs) \<Longrightarrow> x \<in> set xs \<Longrightarrow> find (\<lambda>y. f y = f x) xs = Some x"
  by (induction xs) auto

lemma pc_of_routine:
  "distinct (map rt_id (routines s)) \<Longrightarrow> r \<in> set (routines s) \<Longrightarrow> pc_of (rt_id r) s = Some (rt_pc r)"
  by (simp add: pc_of_def find_distinct)

lemma set_pc_inv: "watch_inv s \<Longrightarrow> pc_of i s = Some pc0 \<Longrightarrow> pc0 \<noteq> Ended \<Longrightarrow> watch_inv (set_pc i pc s)"
proof -
  assume s: "watch_inv s" "pc_of i s = Some pc0" "pc0 \<noteq> Ended"
  then have "serve s \<noteq> Returned" using pc_of_in [OF s(2)] by (auto simp: watch_inv_def)
  moreover have "\<forall>r \<in> set (routines (set_pc i pc s)). \<exists>r0 \<in> set (routines s). rt_id r = rt_id r0 \<and> rt_cancelled r = rt_cancelled r0"
    by (auto simp: set_pc_def)
  ultimately show ?thesis using s(1) unfolding watch_inv_def by (simp only: watch_ids watch_fields) metis
qed

lemma log_send_inv [simp]: "watch_inv (log_send w resp ok s) = watch_inv s"
  by (simp add: watch_inv_def)

lemma pc_of_log_send [simp]: "pc_of i (log_send w resp ok s) = pc_of i s"
  by (simp add: pc_of_def)

lemma pc_of_cancel_watch [simp]: "pc_of i (cancel_watch j s) = pc_of i s"
proof -
  have "map_option rt_pc (find (\<lambda>r. rt_id r = i) (map (\<lambda>r. if rt_id r = j then r\<lparr>rt_cancelled := True\<rparr> else r) rs)) =
      map_option rt_pc (find (\<lambda>r. rt_id r = i) rs)" for rs :: "watch_routine list"
    by (induction rs) auto
  then show ?thesis by (simp add: pc_of_def cancel_watch_def)
qed

lemma cancel_watch_inv: "watch_inv s \<Longrightarrow> watch_inv (cancel_watch i s)"
proof -
  assume s: "watch_inv s"
  have "\<forall>r \<in> set (routines (cancel_watch i s)). \<exists>r0 \<in> set (routines s). rt_id r = rt_id r0 \<and> rt_pc r = rt_pc r0 \<and>
      (rt_cancelled r0 \<longrightarrow> rt_cancelled r) \<and> (rt_id r0 \<in> set (live s) \<longrightarrow> rt_id r \<in> set (live (cancel_watch i s)) \<or> rt_cancelled r)"
    by (auto simp: cancel_watch_def)
  then show ?thesis using s unfolding watch_inv_def by (simp only: watch_ids watch_fields) metis
qed

lemma close_watches_inv:
  "watch_inv s \<Longrightarrow> serve s = Closing \<Longrightarrow> watch_inv ((close_watches s)\<lparr>serve := Waiting\<rparr>)"
proof -
  assume s: "watch_inv s" "serve s = Closing"
  have "\<forall>r \<in> set (routines (close_watches s)). rt_cancelled r \<and> (\<exists>r0 \<in> set (routines s). rt_id r = rt_id r0)"
    using s(1) by (auto simp: close_watches_def watch_inv_def)
  then show ?thesis using s watch_ids(3) [of s] by (auto simp: watch_inv_def)
qed

lemma start_watch_inv:
  "watch_inv s \<Longrightarrow> watchID s < 2 ^ 63 - 1 \<Longrightarrow> serve s = Receiving \<Longrightarrow>
     watch_inv (start_watch key revision s) \<and> watchID (start_watch key revision s) = watchID s + 1"
  by (force simp: watch_inv_def start_watch_def i64_id Let_def)

lemma serve_step_inv:
  "serve_step ok s = Some s' \<Longrightarrow> watch_inv s \<Longrightarrow> watch_inv s' \<and> watchID s' = watchID s"
  using cancel_watch_inv [of s] close_watches_inv [of s]
  by (auto simp: serve_step_def list_all_iff split: serve_pc.splits if_splits) (auto simp: watch_inv_def log_send_def)

lemma watch_step_inv:
  assumes "watch_step l s = Some s'" "watch_inv s" "watchID s < 2 ^ 63 - 1"
  shows "watch_inv s' \<and> watchID s' \<le> watchID s + 1"
proof (cases l)
  case (Recv_create key rev)
  then show ?thesis using assms start_watch_inv by (auto simp: watch_step_def split: if_splits)
next
  case (Serve ok)
  then show ?thesis using assms serve_step_inv by (auto simp: watch_step_def split: if_splits)
next
  case (Go i ok)
  then show ?thesis using assms cancel_watch_inv set_pc_inv
    by (fastforce simp: watch_step_def routine_step_def split: if_splits option.splits watch_pc.splits)
next
  case (Batch i events ok)
  then show ?thesis using assms
    by (auto simp: watch_step_def batch_step_def intro: set_pc_inv split: if_splits option.splits)
       (auto simp: watch_inv_def)
next
  case (Channel_closed i)
  then show ?thesis using assms by (auto simp: watch_step_def intro: set_pc_inv split: if_splits)
next
  case Other_stream
  then show ?thesis using assms by (auto simp: watch_step_def watch_inv_def i64_id split: if_splits) force+
qed (use assms in \<open>auto simp: watch_step_def watch_inv_def split: if_splits\<close>)

lemma watch_runs_inv:
  "watch_runs n ls s \<Longrightarrow> 0 \<le> n \<Longrightarrow> n + int (length ls) < 2 ^ 63 \<Longrightarrow> watch_inv s \<and> watchID s \<le> n + int (length ls)"
proof (induction rule: watch_runs.induct)
  case nothing
  then show ?case by (simp add: watch_inv_def watch_init_def)
next
  case (step ls s l s')
  then show ?case using watch_step_inv [of l s s'] by simp
qed

section \<open>The end of the call\<close>

text \<open>How many steps the goroutine of a watch can need when its channel is closed.\<close>

fun steps_left :: "watch_pc \<Rightarrow> nat" where
  "steps_left Ended = 0"
| "steps_left (Cancel_answer False) = 1"
| "steps_left (Cancel_lock False) = 2"
| "steps_left Reading = 3"
| "steps_left Starting = 4"
| "steps_left (Cancel_answer True) = 4"
| "steps_left (Cancel_lock True) = 5"

definition watch_measure :: "watch_state \<Rightarrow> nat" where
  "watch_measure s = sum_list (map (\<lambda>r. steps_left (rt_pc r)) (routines s))"

lemma steps_left_le: "steps_left pc \<le> 5"
  by (cases pc rule: steps_left.cases) simp_all

lemma watch_measure_le: "watch_measure s \<le> 5 * length (routines s)"
proof -
  have "sum_list (map (\<lambda>r. steps_left (rt_pc r)) rs) \<le> 5 * length rs" for rs :: "watch_routine list"
    using steps_left_le by (induction rs) (auto intro: add_mono)
  then show ?thesis by (simp add: watch_measure_def)
qed

lemma set_pc_measure:
  assumes "distinct (map rt_id (routines s))" "r \<in> set (routines s)" "steps_left pc < steps_left (rt_pc r)"
  shows "watch_measure (set_pc (rt_id r) pc s) < watch_measure s"
proof -
  obtain xs ys where rs: "routines s = xs @ r # ys" using assms(2) split_list by fastforce
  let ?f = "\<lambda>x. if rt_id x = rt_id r then x\<lparr>rt_pc := pc\<rparr> else x"
  have "map ?f zs = zs" if "rt_id r \<notin> rt_id ` set zs" for zs
    using that by (induction zs) auto
  then have "routines (set_pc (rt_id r) pc s) = xs @ r\<lparr>rt_pc := pc\<rparr> # ys"
    using assms(1) by (auto simp: set_pc_def rs)
  then show ?thesis using assms(3) by (simp add: watch_measure_def rs)
qed

lemma cancel_watch_measure [simp]: "watch_measure (cancel_watch i s) = watch_measure s"
  by (simp add: watch_measure_def cancel_watch_def comp_def if_distrib cong: if_cong)

lemma log_send_measure [simp]:
  "watch_measure (log_send w resp ok s) = watch_measure s"
  "watch_measure (set_pc i pc (log_send w resp ok s)) = watch_measure (set_pc i pc s)"
  by (simp_all add: watch_measure_def set_pc_def)

text \<open>The steps that need no further request: those of the goroutines, and a channel that is closed.\<close>

definition own_steps :: "watch_label set" where
  "own_steps = {l. (\<exists>ok. l = Serve ok) \<or> (\<exists>i ok. l = Go i ok) \<or> (\<exists>i. l = Channel_closed i)}"

lemma own_stepsI [simp]: "Serve ok \<in> own_steps" "Go i ok \<in> own_steps" "Channel_closed i \<in> own_steps"
  by (auto simp: own_steps_def)

lemma waiting_progress:
  assumes "distinct (map rt_id (routines s))" "serve s = Waiting" "r \<in> set (routines s)" "rt_pc r \<noteq> Ended"
  shows "\<exists>l \<in> own_steps. \<exists>s'. watch_step l s = Some s' \<and> serve s' = Waiting \<and>
    map rt_id (routines s') = map rt_id (routines s) \<and> watch_measure s' < watch_measure s"
proof -
  have pc: "pc_of (rt_id r) s = Some (rt_pc r)" using assms(1,3) by (rule pc_of_routine)
  note less = set_pc_measure [OF assms(1,3)]
  show ?thesis
  proof (cases "rt_pc r")
    case Reading
    then show ?thesis using pc less [of "Cancel_lock False"] assms(2)
      by (intro bexI [of _ "Channel_closed (rt_id r)"]) (simp_all add: watch_step_def)
  next
    case Starting
    then show ?thesis using pc less [of Reading] assms(2)
      by (intro bexI [of _ "Go (rt_id r) True"]) (auto simp: watch_step_def routine_step_def)
  next
    case (Cancel_lock b)
    have d: "steps_left (Cancel_answer b) < steps_left (rt_pc r)" by (cases b) (simp_all add: Cancel_lock)
    obtain r' where r': "r' \<in> set (routines (cancel_watch (rt_id r) s))" "rt_id r' = rt_id r" "rt_pc r' = rt_pc r"
      using pc_of_in [of "rt_id r" "cancel_watch (rt_id r) s"] pc by auto
    have "watch_measure (set_pc (rt_id r) (Cancel_answer b) (cancel_watch (rt_id r) s)) < watch_measure s"
      using set_pc_measure [OF _ r'(1), of "Cancel_answer b"] r' d assms(1) by simp
    then show ?thesis using pc Cancel_lock assms(2)
      by (intro bexI [of _ "Go (rt_id r) True"]) (simp_all add: watch_step_def routine_step_def)
  next
    case (Cancel_answer b)
    have "steps_left (if b then Reading else Ended) < steps_left (rt_pc r)" by (cases b) (simp_all add: Cancel_answer)
    then show ?thesis
      using pc Cancel_answer assms(2) less [of "if b then Reading else Ended"]
      by (intro bexI [of _ "Go (rt_id r) True"]) (auto simp: watch_step_def routine_step_def)
  qed (use assms(4) in simp)
qed

lemma waiting_returns:
  assumes "distinct (map rt_id (routines s))" "serve s = Waiting"
  shows "\<exists>ls s'. set ls \<subseteq> own_steps \<and> length ls \<le> watch_measure s + 1 \<and> watch_exec ls s = Some s' \<and> serve s' = Returned"
  using assms
proof (induction "watch_measure s" arbitrary: s rule: less_induct)
  case less
  show ?case
  proof (cases "list_all (\<lambda>r. rt_pc r = Ended) (routines s)")
    case True
    then have "watch_step (Serve True) s = Some (s\<lparr>serve := Returned\<rparr>)"
      using less.prems(2) by (simp add: watch_step_def serve_step_def)
    then show ?thesis
      by (intro exI [of _ "[Serve True]"] exI [of _ "s\<lparr>serve := Returned\<rparr>"]) simp
  next
    case False
    then obtain r where "r \<in> set (routines s)" "rt_pc r \<noteq> Ended" by (auto simp: list_all_iff)
    then obtain l s1 where l: "l \<in> own_steps" "watch_step l s = Some s1" "serve s1 = Waiting"
      "map rt_id (routines s1) = map rt_id (routines s)" "watch_measure s1 < watch_measure s"
      using waiting_progress [OF less.prems] by blast
    obtain ls s' where "set ls \<subseteq> own_steps" "length ls \<le> watch_measure s1 + 1"
      "watch_exec ls s1 = Some s'" "serve s' = Returned"
      using less.hyps [OF l(5)] l less.prems(1) by metis
    with l show ?thesis by (intro exI [of _ "l # ls"] exI [of _ s']) auto
  qed
qed

section \<open>One watch among the others\<close>

text \<open>What the goroutine of a watch has sent, and the batches that it was given.\<close>

definition responses_of :: "int64 \<Rightarrow> watch_state \<Rightarrow> (WatchResponse \<times> bool) list" where
  "responses_of i s = map snd (filter (\<lambda>x. fst x = Some i) (sends s))"

definition batches_of :: "int64 \<Rightarrow> watch_label list \<Rightarrow> Event list list" where
  "batches_of i ls = concat (map (\<lambda>l. case l of Batch j b ok \<Rightarrow> if j = i then [b] else [] | _ \<Rightarrow> []) ls)"

text \<open>A stream whose answers are known in advance, and that remembers the responses.\<close>

definition scripted :: "(bool list \<times> WatchResponse list) sender" where
  "scripted resp w = (if hd (fst w) then None else Some (Errorf ''send''), (tl (fst w), snd w @ [resp]))"

lemma watcher_send_scripted [simp]:
  "watcher_send scripted resp \<lparr>stream = (ok # outs, log), watches = ws\<rparr> =
     (if ok then None else Some (Errorf ''send''), \<lparr>stream = (outs, log @ [resp]), watches = ws\<rparr>)"
  by (simp add: watcher_send_def scripted_def)

lemma watch_batches_append:
  "watch_batches send i (xs @ ys) wt = Option.bind (watch_batches send i xs wt) (watch_batches send i ys)"
proof (induction xs arbitrary: wt)
  case (Cons x xs)
  then show ?case by (cases "KV (last x)") (simp_all split: prod.split)
qed simp

text \<open>The sequential loop turns the batches into these responses, with these answers of the stream.\<close>

definition loop_sends :: "int64 \<Rightarrow> Event list list \<Rightarrow> (WatchResponse \<times> bool) list \<Rightarrow> bool" where
  "loop_sends i bs log \<longleftrightarrow>
     (\<forall>rest acc ws. \<exists>ws'. watch_batches scripted i bs \<lparr>stream = (map snd log @ rest, acc), watches = ws\<rparr> =
        Some \<lparr>stream = (rest, acc @ map fst log), watches = ws'\<rparr>)"

lemma loop_sends_Nil: "loop_sends i [] []"
  by (simp add: loop_sends_def)

lemma loop_sends_append:
  assumes "loop_sends i bs log" "loop_sends i bs' log'"
  shows "loop_sends i (bs @ bs') (log @ log')"
  unfolding loop_sends_def
proof (intro allI)
  fix rest acc ws
  obtain ws1 where "watch_batches scripted i bs \<lparr>stream = (map snd log @ map snd log' @ rest, acc), watches = ws\<rparr> =
      Some \<lparr>stream = (map snd log' @ rest, acc @ map fst log), watches = ws1\<rparr>"
    using assms(1) unfolding loop_sends_def by blast
  moreover obtain ws2 where "watch_batches scripted i bs' \<lparr>stream = (map snd log' @ rest, acc @ map fst log), watches = ws1\<rparr> =
      Some \<lparr>stream = (rest, (acc @ map fst log) @ map fst log'), watches = ws2\<rparr>"
    using assms(2) unfolding loop_sends_def by blast
  ultimately show "\<exists>ws'. watch_batches scripted i (bs @ bs') \<lparr>stream = (map snd (log @ log') @ rest, acc), watches = ws\<rparr> =
      Some \<lparr>stream = (rest, acc @ map fst (log @ log')), watches = ws'\<rparr>"
    by (simp add: watch_batches_append)
qed

lemma loop_sends_empty: "loop_sends i [[]] []"
  by (simp add: loop_sends_def)

lemma loop_sends_ok:
  "e \<noteq> [] \<Longrightarrow> KV (last e) = Some kv \<Longrightarrow> loop_sends i [e] [(events_response i (ModRevision kv) e, True)]"
  by (simp add: loop_sends_def)

lemma loop_sends_failed:
  "e \<noteq> [] \<Longrightarrow> KV (last e) = Some kv \<Longrightarrow>
     loop_sends i [e] [(events_response i (ModRevision kv) e, False), (canceled_response i, ok)]"
  by (simp add: loop_sends_def watcher_Cancel_def)

text \<open>What a goroutine has done at each of its places.\<close>

definition opened :: "int64 \<Rightarrow> Event list list \<Rightarrow> (WatchResponse \<times> bool) list \<Rightarrow> bool" where
  "opened i bs log \<longleftrightarrow> (\<exists>log'. log = (created_response i, True) # log' \<and> loop_sends i bs log')"

definition at_end :: "int64 \<Rightarrow> Event list list \<Rightarrow> (WatchResponse \<times> bool) list \<Rightarrow> bool" where
  "at_end i bs log \<longleftrightarrow> log = [(created_response i, False)] \<and> bs = [] \<or> opened i bs log"

definition send_failed :: "int64 \<Rightarrow> Event list list \<Rightarrow> (WatchResponse \<times> bool) list \<Rightarrow> bool" where
  "send_failed i bs log \<longleftrightarrow>
     (\<exists>bs' log' e kv. bs = bs' @ [e] \<and> log = log' @ [(events_response i (ModRevision kv) e, False)] \<and>
        opened i bs' log' \<and> e \<noteq> [] \<and> KV (last e) = Some kv)"

fun at_pc :: "int64 \<Rightarrow> watch_pc option \<Rightarrow> Event list list \<Rightarrow> (WatchResponse \<times> bool) list \<Rightarrow> bool" where
  "at_pc i None bs log \<longleftrightarrow> bs = [] \<and> log = []"
| "at_pc i (Some Starting) bs log \<longleftrightarrow> bs = [] \<and> log = []"
| "at_pc i (Some Reading) bs log \<longleftrightarrow> opened i bs log"
| "at_pc i (Some (Cancel_lock b)) bs log \<longleftrightarrow> (if b then send_failed i bs log else at_end i bs log)"
| "at_pc i (Some (Cancel_answer b)) bs log \<longleftrightarrow> (if b then send_failed i bs log else at_end i bs log)"
| "at_pc i (Some Ended) bs log \<longleftrightarrow> (\<exists>log' ok. log = log' @ [(canceled_response i, ok)] \<and> at_end i bs log')"

lemma opened_loop: "opened i bs log \<Longrightarrow> loop_sends i bs' log' \<Longrightarrow> opened i (bs @ bs') (log @ log')"
  unfolding opened_def using loop_sends_append by fastforce

lemma send_failed_answered: "send_failed i bs log \<Longrightarrow> opened i bs (log @ [(canceled_response i, ok)])"
proof -
  assume "send_failed i bs log"
  then obtain bs' log' e kv where e: "bs = bs' @ [e]" "log = log' @ [(events_response i (ModRevision kv) e, False)]"
    "opened i bs' log'" "e \<noteq> []" "KV (last e) = Some kv"
    unfolding send_failed_def by blast
  from opened_loop [OF e(3) loop_sends_failed [OF e(4,5)]] show ?thesis by (simp add: e(1,2))
qed

lemma pc_of_set_pc [simp]:
  "pc_of j (set_pc i pc s) = (if j = i then map_option (\<lambda>_. pc) (pc_of i s) else pc_of j s)"
proof -
  have "map_option rt_pc (find (\<lambda>r. rt_id r = j) (map (\<lambda>r. if rt_id r = i then r\<lparr>rt_pc := pc\<rparr> else r) rs)) =
      (if j = i then map_option (\<lambda>_. pc) (find (\<lambda>r. rt_id r = i) rs) else map_option rt_pc (find (\<lambda>r. rt_id r = j) rs))"
    for rs :: "watch_routine list"
    by (induction rs) auto
  then show ?thesis by (simp add: pc_of_def set_pc_def option.map_comp comp_def)
qed

lemma pc_of_fields [simp]:
  "pc_of i (s\<lparr>serve := x\<rparr>) = pc_of i s" "pc_of i (s\<lparr>watchID := n\<rparr>) = pc_of i s"
  "pc_of i (close_watches s) = pc_of i s"
proof -
  have "map_option rt_pc (find (\<lambda>r. rt_id r = i) (map (\<lambda>r. if rt_id r \<in> L then r\<lparr>rt_cancelled := True\<rparr> else r) rs)) =
      map_option rt_pc (find (\<lambda>r. rt_id r = i) rs)" for rs :: "watch_routine list" and L
    by (induction rs) auto
  then show "pc_of i (close_watches s) = pc_of i s" by (simp add: pc_of_def close_watches_def)
qed (simp_all add: pc_of_def)

lemma pc_of_start_watch:
  assumes "watch_inv s" "watchID s < 2 ^ 63 - 1"
  shows "pc_of i (start_watch key revision s) = (if i = watchID s + 1 then Some Starting else pc_of i s)"
proof -
  have "find (\<lambda>r. rt_id r = i) (rs @ [x]) = (case find (\<lambda>r. rt_id r = i) rs of None \<Rightarrow> if rt_id x = i then Some x else None | y \<Rightarrow> y)"
    for rs and x :: watch_routine
    by (induction rs) auto
  moreover have "find (\<lambda>r. rt_id r = watchID s + 1) (routines s) = None"
    using assms(1) by (fastforce simp: find_None_iff watch_inv_def)
  moreover have "i64 (watchID s + 1) = watchID s + 1" using assms by (intro i64_id) (auto simp: watch_inv_def)
  ultimately show ?thesis by (auto simp: pc_of_def start_watch_def Let_def split: option.split)
qed

lemma start_watch_fields [simp]: "sends (start_watch key revision s) = sends s" "serve (start_watch key revision s) = serve s"
  by (simp_all add: start_watch_def Let_def)

lemma responses_of_simps [simp]:
  "responses_of i (log_send w resp ok s) = responses_of i s @ (if w = Some i then [(resp, ok)] else [])"
  "responses_of i (set_pc j pc s) = responses_of i s" "responses_of i (cancel_watch j s) = responses_of i s"
  "responses_of i (close_watches s) = responses_of i s" "responses_of i (s\<lparr>serve := x\<rparr>) = responses_of i s"
  "responses_of i (s\<lparr>watchID := n\<rparr>) = responses_of i s" "responses_of i (start_watch key revision s) = responses_of i s"
  by (simp_all add: responses_of_def)

lemma batches_of_snoc [simp]:
  "batches_of i (ls @ [l]) = batches_of i ls @ (case l of Batch j b ok \<Rightarrow> if j = i then [b] else [] | _ \<Rightarrow> [])"
  by (simp add: batches_of_def)

lemma at_end_opened: "opened i bs log \<Longrightarrow> at_end i bs log"
  by (simp add: at_end_def)

text \<open>A goroutine goes on; the others are where they were.\<close>

lemma routine_step_at:
  assumes "routine_step j ok s = Some s'" "\<forall>i. at_pc i (pc_of i s) (batches_of i ls) (responses_of i s)"
  shows "at_pc i (pc_of i s') (batches_of i ls) (responses_of i s')"
proof (cases "i = j")
  case True
  have at: "at_pc j (pc_of j s) (batches_of j ls) (responses_of j s)" using assms(2) by blast
  obtain pc where pc: "pc_of j s = Some pc" using assms(1) by (cases "pc_of j s") (auto simp: routine_step_def)
  show ?thesis
  proof (cases pc)
    case Starting
    then show ?thesis using assms(1) at pc True
      by (auto simp: routine_step_def opened_def at_end_def loop_sends_Nil)
  next
    case (Cancel_lock b)
    then show ?thesis using assms(1) at pc True by (auto simp: routine_step_def)
  next
    case (Cancel_answer b)
    then show ?thesis using assms(1) at pc True send_failed_answered by (auto simp: routine_step_def)
  qed (use assms(1) pc in \<open>auto simp: routine_step_def\<close>)
next
  case False
  then show ?thesis using assms
    by (auto simp: routine_step_def split: option.splits watch_pc.splits if_splits)
qed

lemma batch_step_at:
  assumes "batch_step j e ok s = Some s'" "serve s' \<noteq> Panicked"
    and "\<forall>i. at_pc i (pc_of i s) (batches_of i ls) (responses_of i s)"
  shows "at_pc i (pc_of i s') (batches_of i (ls @ [Batch j e ok])) (responses_of i s')"
proof (cases "i = j")
  case True
  have pc: "pc_of j s = Some Reading" using assms(1) by (auto simp: batch_step_def split: if_splits)
  with assms(3) have at: "opened j (batches_of j ls) (responses_of j s)" by (metis at_pc.simps(3))
  show ?thesis
  proof (cases "e = []")
    case True
    then show ?thesis using assms(1) pc at \<open>i = j\<close> opened_loop [OF at loop_sends_empty] by (simp add: batch_step_def)
  next
    case False
    then obtain kv where kv: "KV (last e) = Some kv"
      using assms(1,2) pc by (auto simp: batch_step_def split: option.splits)
    have s': "s' = set_pc j (if ok then Reading else Cancel_lock True) (log_send (Some j) (events_response j (ModRevision kv) e) ok s)"
      using assms(1) pc False kv by (simp add: batch_step_def)
    show ?thesis
    proof (cases ok)
      case True
      then show ?thesis using pc at \<open>i = j\<close> opened_loop [OF at loop_sends_ok [OF False kv]] by (simp add: s')
    next
      case no: False
      have "send_failed j (batches_of j ls @ [e]) (responses_of j s @ [(events_response j (ModRevision kv) e, False)])"
        using at False kv unfolding send_failed_def by blast
      with no show ?thesis using pc \<open>i = j\<close> by (simp add: s')
    qed
  qed
next
  case False
  then show ?thesis using assms by (auto simp: batch_step_def split: if_splits option.splits)
qed

lemma watch_step_at:
  assumes "watch_step l s = Some s'" "watch_inv s" "watchID s < 2 ^ 63 - 1" "serve s' \<noteq> Panicked"
    and at: "\<forall>i. at_pc i (pc_of i s) (batches_of i ls) (responses_of i s)"
  shows "at_pc i (pc_of i s') (batches_of i (ls @ [l])) (responses_of i s')"
proof (cases l)
  case (Recv_create key rev)
  have "pc_of (watchID s + 1) s = None"
    using assms(2) by (fastforce simp: pc_of_def find_None_iff watch_inv_def)
  then have "at_pc (watchID s + 1) None (batches_of (watchID s + 1) ls) (responses_of (watchID s + 1) s)"
    using at by metis
  then show ?thesis using assms(1) at Recv_create pc_of_start_watch [OF assms(2,3)]
    by (auto simp: watch_step_def split: if_splits)
next
  case (Serve ok)
  then show ?thesis using assms(1) at
    by (auto simp: watch_step_def serve_step_def split: if_splits serve_pc.splits)
next
  case (Go j ok)
  then show ?thesis using assms(1) routine_step_at [OF _ at] by (auto simp: watch_step_def split: if_splits)
next
  case (Batch j e ok)
  then have "batch_step j e ok s = Some s'" using assms(1) by (simp add: watch_step_def split: if_splits)
  from batch_step_at [OF this assms(4) at] show ?thesis by (simp only: Batch)
next
  case (Channel_closed j)
  have "opened j (batches_of j ls) (responses_of j s)" if "pc_of j s = Some Reading"
    using at that by (metis at_pc.simps(3))
  then show ?thesis using assms(1) at Channel_closed
    by (auto simp: watch_step_def at_end_opened split: if_splits)
qed (use assms(1) at in \<open>auto simp: watch_step_def split: if_splits\<close>)

lemma watch_runs_at:
  assumes "watch_runs n ls s" "0 \<le> n" "n + int (length ls) < 2 ^ 63" "serve s \<noteq> Panicked"
  shows "at_pc i (pc_of i s) (batches_of i ls) (responses_of i s)"
  using assms
proof (induction arbitrary: i rule: watch_runs.induct)
  case nothing
  then show ?case by (simp add: pc_of_def watch_init_def batches_of_def responses_of_def)
next
  case (step ls s l s')
  have "serve s \<noteq> Panicked" using step.hyps(2) by (auto simp: watch_step_def)
  then have "\<forall>i. at_pc i (pc_of i s) (batches_of i ls) (responses_of i s)" using step by simp
  moreover have "watch_inv s" "watchID s < 2 ^ 63 - 1"
    using watch_runs_inv [OF step.hyps(1)] step.prems by simp_all
  ultimately show ?case using watch_step_at [OF step.hyps(2)] step.prems(3) by blast
qed

section \<open>Events after a cancellation\<close>

text \<open>
  A client that has been told that its watch is cancelled can still be sent its events: the answer to
  the request is sent by the receiving goroutine, while the goroutine of the watch may hold a batch that
  it has read before. It is told of the cancellation a second time.
\<close>

definition late_events :: "Event \<Rightarrow> watch_label list" where
  "late_events event =
     [Recv_create ''/a'' 0, Go 1 True, Recv_cancel 1, Serve True, Serve True, Batch 1 [event] True,
      Channel_closed 1, Go 1 True, Go 1 True]"

definition late_state :: "Event \<Rightarrow> int64 \<Rightarrow> watch_state" where
  "late_state event rv =
     \<lparr>watchID = 1, live = [],
      routines = [\<lparr>rt_id = 1, rt_key = ''/a'', rt_revision = 0, rt_cancelled = True, rt_pc = Ended\<rparr>],
      serve = Receiving,
      sends = [(Some 1, created_response 1, True), (None, canceled_response 1, True),
        (Some 1, events_response 1 rv [event], True), (Some 1, canceled_response 1, True)]\<rparr>"

lemma late_events_run:
  assumes "KV event = Some kv"
  shows "watch_runs 0 (late_events event) (late_state event (ModRevision kv))"
  using assms
  by (intro watch_exec_init)
     (simp add: late_events_def late_state_def watch_init_def watch_step_def serve_step_def routine_step_def
       batch_step_def start_watch_def cancel_watch_def set_pc_def log_send_def pc_of_def wrap_simps)

lemma events_after_cancellation:
  assumes "KV event = Some kv"
  shows "\<exists>s. watch_runs 0 (late_events event) s \<and> map (\<lambda>(w, resp, ok). resp) (sends s) =
    [created_response 1, canceled_response 1, events_response 1 (ModRevision kv) [event], canceled_response 1]"
  using late_events_run [OF assms] by (intro exI [of _ "late_state event (ModRevision kv)"]) (simp add: late_state_def)

section \<open>Properties\<close>

text \<open>
  C15: the end of a watch call. Once \<open>Close\<close> has taken the cancel functions every watch of the call has
  been cancelled, when the call returns every goroutine has ended, and the call can return: after at most
  five steps of each goroutine and two of its own, if the backend closes the channels of the watches.
\<close>

theorem watch_call_ends:
  assumes "watch_runs n ls s" "0 \<le> n" "n + int (length ls) < 2 ^ 63" "serve s \<in> {Closing, Waiting, Returned}"
  shows "(serve s \<noteq> Closing \<longrightarrow> (\<forall>r \<in> set (routines s). rt_cancelled r)) \<and>
    (serve s = Returned \<longrightarrow> (\<forall>r \<in> set (routines s). rt_pc r = Ended)) \<and>
    (\<exists>ls' s'. set ls' \<subseteq> own_steps \<and> length ls' \<le> 5 * length (routines s) + 2 \<and>
       watch_exec ls' s = Some s' \<and> serve s' = Returned)"
proof -
  have inv: "watch_inv s" using watch_runs_inv assms(1-3) by blast
  then have d: "distinct (map rt_id (routines s))" by (simp add: watch_inv_def)
  have "\<exists>ls' s'. set ls' \<subseteq> own_steps \<and> length ls' \<le> 5 * length (routines s) + 2 \<and>
      watch_exec ls' s = Some s' \<and> serve s' = Returned"
  proof (cases "serve s")
    case Waiting
    obtain ls' s' where "set ls' \<subseteq> own_steps" "length ls' \<le> watch_measure s + 1"
      "watch_exec ls' s = Some s'" "serve s' = Returned"
      using waiting_returns [OF d Waiting] by blast
    with watch_measure_le [of s] show ?thesis by (intro exI [of _ ls'] exI [of _ s']) auto
  next
    case Closing
    let ?s = "(close_watches s)\<lparr>serve := Waiting\<rparr>"
    have "length (routines ?s) = length (routines s)" by (simp add: close_watches_def)
    moreover have "distinct (map rt_id (routines ?s))" using d watch_ids(3) [of s] by simp
    then obtain ls' s' where "set ls' \<subseteq> own_steps" "length ls' \<le> watch_measure ?s + 1"
      "watch_exec ls' ?s = Some s'" "serve s' = Returned"
      using waiting_returns [of ?s] by auto
    moreover have "watch_step (Serve True) s = Some ?s" using Closing by (simp add: watch_step_def serve_step_def)
    ultimately show ?thesis using watch_measure_le [of ?s]
      by (intro exI [of _ "Serve True # ls'"] exI [of _ s']) auto
  next
    case Returned
    then show ?thesis by (intro exI [of _ "[]"] exI [of _ s]) simp
  qed (use assms(4) in auto)
  with inv assms(4) show ?thesis by (auto simp: watch_inv_def)
qed

theorem watch_call_ends_witness:
  "\<exists>s. watch_exec [Recv_create ''/a'' 0, Go 1 True, Recv_fails] (watch_init 0) = Some s \<and> serve s = Closing \<and>
    (\<exists>ls' s'. set ls' \<subseteq> own_steps \<and> length ls' \<le> 7 \<and> watch_exec ls' s = Some s' \<and> serve s' = Returned)"
proof -
  let ?ls = "[Recv_create ''/a'' 0, Go 1 True, Recv_fails]"
  obtain s where s: "watch_exec ?ls (watch_init 0) = Some s" "serve s = Closing" "length (routines s) = 1"
    by (simp add: watch_init_def watch_step_def routine_step_def start_watch_def set_pc_def log_send_def
        pc_of_def wrap_simps)
  from watch_call_ends [OF watch_exec_init [OF s(1)]] s show ?thesis by simp
qed

text \<open>
  C14: the goroutines of a call do not disturb each other. However the requests, the cancellations and the
  other watches interleave, what the goroutine of a watch has sent at its end is what \<open>watcher_Start\<close>
  sends when it runs alone, on the batches that this watch was given and with the answers that its own
  responses got from the stream.
\<close>

theorem watch_runs_as_alone:
  assumes "watch_runs n ls s" "0 \<le> n" "n + int (length ls) < 2 ^ 63" "serve s \<noteq> Panicked"
    and "r \<in> set (routines s)" "rt_pc r = Ended"
    and "b_Watch b (rt_key r) (rt_revision r) w = Some (batches_of (rt_id r) ls, w')"
  shows "\<exists>wt w''. watcher_Start b scripted (rt_id r) (rt_key r) (rt_revision r)
      \<lparr>stream = (map snd (responses_of (rt_id r) s), []), watches = []\<rparr> w = Some (wt, w'') \<and>
    stream wt = ([], map fst (responses_of (rt_id r) s))"
proof -
  let ?i = "rt_id r" and ?bs = "batches_of (rt_id r) ls"
  have "watch_inv s" using watch_runs_inv assms(1-3) by blast
  then have pc: "pc_of ?i s = Some Ended"
    using pc_of_routine [OF _ assms(5)] assms(6) by (simp add: watch_inv_def)
  obtain log ok where log: "responses_of ?i s = log @ [(canceled_response ?i, ok)]" "at_end ?i ?bs log"
    using watch_runs_at [OF assms(1-4), of ?i] pc by auto
  show ?thesis
  proof (cases "log = [(created_response ?i, False)]")
    case True
    then show ?thesis by (simp add: log(1) watcher_Start_def watcher_Cancel_def)
  next
    case False
    then obtain log' where l: "log = (created_response ?i, True) # log'" "loop_sends ?i ?bs log'"
      using log(2) by (auto simp: at_end_def opened_def)
    from l(2) obtain ws where "watch_batches scripted ?i ?bs
        \<lparr>stream = (map snd log' @ [ok], [created_response ?i]), watches = [?i]\<rparr> =
      Some \<lparr>stream = ([ok], [created_response ?i] @ map fst log'), watches = ws\<rparr>"
      unfolding loop_sends_def by blast
    with assms(7) show ?thesis by (simp add: log(1) l(1) watcher_Start_def watcher_Cancel_def)
  qed
qed

theorem watch_runs_as_alone_witness:
  "let e = put_event ''/a'' 9;
       b = three_backend\<lparr>b_Watch := \<lambda>p r w. Some ([[e]], w)\<rparr>
   in \<exists>wt w''. watcher_Start b scripted 1 ''/a'' 0 \<lparr>stream = ([True, True, True], []), watches = []\<rparr> [] = Some (wt, w'') \<and>
     stream wt = ([], [created_response 1, events_response 1 9 [e], canceled_response 1])"
proof -
  let ?e = "put_event ''/a'' 9"
  let ?b = "three_backend\<lparr>b_Watch := \<lambda>p r w. Some ([[?e]], w)\<rparr>"
  let ?r = "\<lparr>rt_id = 1, rt_key = ''/a'', rt_revision = 0, rt_cancelled = True, rt_pc = Ended\<rparr>"
  have "KV ?e = Some (KeyValue_zero\<lparr>Key := ''/a'', ModRevision := 9\<rparr>)" by (simp add: put_event_def)
  from late_events_run [OF this] have run: "watch_runs 0 (late_events ?e) (late_state ?e 9)" by simp
  have "responses_of 1 (late_state ?e 9) =
      [(created_response 1, True), (events_response 1 9 [?e], True), (canceled_response 1, True)]"
    by (simp add: late_state_def responses_of_def)
  moreover have "batches_of 1 (late_events ?e) = [[?e]]" by (simp add: batches_of_def late_events_def)
  ultimately show ?thesis
    using watch_runs_as_alone [OF run, of ?r ?b "[]" "[]"] by (simp add: late_state_def late_events_def Let_def)
qed

end
