(* ===== verification/Broadcaster.thy ===== *)
theory Broadcaster
  imports Messages
begin

text \<open>
  The broadcaster (\<open>pkg/broadcaster/broadcaster.go\<close>), which hands every batch of the poller to all
  watches. Its lock makes each operation atomic, so a run is a sequence of steps: subscribing,
  the arrival of an item, the end of the input, a consumer that receives, and the execution of the
  goroutines that remove a subscriber.
\<close>

section \<open>State\<close>

record 'a channel =
  buffer :: "'a list"
  closed :: bool

text \<open>
  A subscriber is the number of its channel. \<open>leaving\<close> holds the goroutines \<open>go b.unsub(sub, true)\<close>
  that have been started for slow consumers and have not run yet.
\<close>

record 'a broadcaster =
  running :: bool
  subs :: "nat list"
  channels :: "nat \<Rightarrow> 'a channel"
  next_sub :: nat
  leaving :: "nat list"

definition sub_capacity :: nat where
  "sub_capacity = 100"

definition init_broadcaster :: "'a broadcaster" where
  "init_broadcaster =
     \<lparr>running = False, subs = [], channels = (\<lambda>_. \<lparr>buffer = [], closed = False\<rparr>), next_sub = 0,
      leaving = []\<rparr>"

section \<open>Operations\<close>

text \<open>\<open>connect\<close> is the error of the connect function, if it is called.\<close>

definition broadcaster_start :: "go_error option \<Rightarrow> 'a broadcaster \<Rightarrow> go_error option \<times> 'a broadcaster" where
  "broadcaster_start connect b =
     (case connect of Some e \<Rightarrow> (Some e, b) | None \<Rightarrow> (None, b\<lparr>running := True\<rparr>))"

definition Subscribe :: "go_error option \<Rightarrow> 'a broadcaster \<Rightarrow> (go_error + nat) \<times> 'a broadcaster" where
  "Subscribe connect b =
     (case (if \<not> running b then broadcaster_start connect b else (None, b)) of
        (Some e, b) \<Rightarrow> (Inl e, b)
      | (None, b) \<Rightarrow>
          (let sub = next_sub b
           in (Inr sub, b\<lparr>subs := subs b @ [sub], next_sub := Suc sub,
                          channels := (channels b)(sub := \<lparr>buffer = [], closed = False\<rparr>)\<rparr>)))"

definition unsub :: "nat \<Rightarrow> 'a broadcaster \<Rightarrow> 'a broadcaster" where
  "unsub sub b =
     (if sub \<in> set (subs b)
      then b\<lparr>channels := (channels b)(sub := (channels b sub)\<lparr>closed := True\<rparr>),
             subs := filter (\<lambda>s. s \<noteq> sub) (subs b)\<rparr>
      else b)"

text \<open>The body of the loop of \<open>stream\<close> for one subscriber, and for all of them.\<close>

definition offer :: "'a \<Rightarrow> nat \<Rightarrow> 'a broadcaster \<Rightarrow> 'a broadcaster" where
  "offer item sub b =
     (if length (buffer (channels b sub)) < sub_capacity
      then b\<lparr>channels := (channels b)(sub :=
               (channels b sub)\<lparr>buffer := buffer (channels b sub) @ [item]\<rparr>)\<rparr>
      else b\<lparr>leaving := leaving b @ [sub]\<rparr>)"

definition stream_item :: "'a \<Rightarrow> 'a broadcaster \<Rightarrow> 'a broadcaster" where
  "stream_item item b = fold (offer item) (subs b) b"

definition stream_end :: "'a broadcaster \<Rightarrow> 'a broadcaster" where
  "stream_end b = (fold unsub (subs b) b)\<lparr>running := False\<rparr>"

text \<open>A consumer takes the first value of its channel.\<close>

definition receive :: "nat \<Rightarrow> 'a broadcaster \<Rightarrow> ('a \<times> 'a broadcaster) option" where
  "receive sub b =
     (case buffer (channels b sub) of
        [] \<Rightarrow> None
      | x # xs \<Rightarrow> Some (x, b\<lparr>channels := (channels b)(sub := (channels b sub)\<lparr>buffer := xs\<rparr>)\<rparr>))"

section \<open>Runs\<close>

text \<open>
  What a run remembers besides: \<open>offered\<close>, the items that arrived while a subscriber was
  registered, and \<open>received\<close>, the items it has taken from its channel.
\<close>

record 'a run =
  bc :: "'a broadcaster"
  offered :: "nat \<Rightarrow> 'a list"
  received :: "nat \<Rightarrow> 'a list"

definition init_run :: "'a run" where
  "init_run = \<lparr>bc = init_broadcaster, offered = (\<lambda>_. []), received = (\<lambda>_. [])\<rparr>"

inductive step :: "'a run \<Rightarrow> 'a run \<Rightarrow> bool" where
  subscribe: "Subscribe connect (bc r) = (res, b) \<Longrightarrow> step r (r\<lparr>bc := b\<rparr>)"
| item: "running (bc r) \<Longrightarrow> step r (r\<lparr>bc := stream_item x (bc r),
    offered := (\<lambda>s. if s \<in> set (subs (bc r)) then offered r s @ [x] else offered r s)\<rparr>)"
| close: "running (bc r) \<Longrightarrow> step r (r\<lparr>bc := stream_end (bc r)\<rparr>)"
| take: "receive s (bc r) = Some (x, b) \<Longrightarrow>
    step r (r\<lparr>bc := b, received := (received r)(s := received r s @ [x])\<rparr>)"
| drop_slow: "leaving (bc r) = xs @ s # ys \<Longrightarrow>
    step r (r\<lparr>bc := unsub s ((bc r)\<lparr>leaving := xs @ ys\<rparr>)\<rparr>)"
| cancel: "step r (r\<lparr>bc := unsub s (bc r)\<rparr>)"

inductive reachable :: "'a run \<Rightarrow> bool" where
  start: "reachable init_run"
| more: "reachable r \<Longrightarrow> step r r' \<Longrightarrow> reachable r'"

section \<open>Facts about the operations\<close>

lemma unsub_simps [simp]:
  "subs (unsub s b) = filter (\<lambda>x. x \<noteq> s) (subs b)" "running (unsub s b) = running b"
  "next_sub (unsub s b) = next_sub b" "leaving (unsub s b) = leaving b"
  "buffer (channels (unsub s b) x) = buffer (channels b x)"
  "closed (channels (unsub s b) x) \<longleftrightarrow> closed (channels b x) \<or> (x = s \<and> s \<in> set (subs b))"
proof -
  show "subs (unsub s b) = filter (\<lambda>x. x \<noteq> s) (subs b)"
    by (simp add: unsub_def) (metis (mono_tags, lifting) filter_True)
qed (auto simp: unsub_def)

lemma fold_unsub [simp]:
  "subs (fold unsub xs b) = filter (\<lambda>x. x \<notin> set xs) (subs b)"
  "running (fold unsub xs b) = running b" "next_sub (fold unsub xs b) = next_sub b"
  "leaving (fold unsub xs b) = leaving b"
  "buffer (channels (fold unsub xs b) x) = buffer (channels b x)"
  "closed (channels (fold unsub xs b) x) \<longleftrightarrow> closed (channels b x) \<or> (x \<in> set xs \<and> x \<in> set (subs b))"
  by (induction xs arbitrary: b) (auto simp: conj_commute)

lemma offer_simps [simp]:
  "subs (offer item s b) = subs b" "running (offer item s b) = running b"
  "next_sub (offer item s b) = next_sub b"
  "closed (channels (offer item s b) x) = closed (channels b x)"
  by (simp_all add: offer_def)

lemma offer_buffer:
  "buffer (channels (offer item s b) x) =
     (if x = s \<and> length (buffer (channels b s)) < sub_capacity
      then buffer (channels b x) @ [item] else buffer (channels b x))"
  by (simp add: offer_def)

lemma offer_leaving:
  "set (leaving (offer item s b)) =
     (if length (buffer (channels b s)) < sub_capacity then set (leaving b)
      else insert s (set (leaving b)))"
  by (simp add: offer_def)

lemma fold_offer [simp]:
  "subs (fold (offer item) xs b) = subs b" "running (fold (offer item) xs b) = running b"
  "next_sub (fold (offer item) xs b) = next_sub b"
  "closed (channels (fold (offer item) xs b) x) = closed (channels b x)"
  by (induction xs arbitrary: b) simp_all

lemma fold_offer_buffer:
  "distinct xs \<Longrightarrow> buffer (channels (fold (offer item) xs b) x) =
     (if x \<in> set xs \<and> length (buffer (channels b x)) < sub_capacity
      then buffer (channels b x) @ [item] else buffer (channels b x))"
  by (induction xs arbitrary: b) (auto simp: offer_buffer)

lemma fold_offer_leaving:
  "distinct xs \<Longrightarrow> set (leaving (fold (offer item) xs b)) =
     set (leaving b) \<union> {x \<in> set xs. \<not> length (buffer (channels b x)) < sub_capacity}"
  by (induction xs arbitrary: b) (auto simp: offer_buffer offer_leaving)


inductive_cases stepE: "step r r'"

section \<open>The invariant\<close>

text \<open>The items a subscriber has got: those it has taken and those that wait in its channel.\<close>

definition got :: "'a run \<Rightarrow> nat \<Rightarrow> 'a list" where
  "got r s = received r s @ buffer (channels (bc r) s)"

definition run_ok :: "'a run \<Rightarrow> bool" where
  "run_ok r \<longleftrightarrow>
     distinct (subs (bc r)) \<and> (\<forall>s \<in> set (subs (bc r)). s < next_sub (bc r)) \<and>
     (\<forall>s \<in> set (leaving (bc r)). s < next_sub (bc r)) \<and>
     (\<forall>s \<ge> next_sub (bc r). offered r s = [] \<and> got r s = []) \<and>
     (subs (bc r) \<noteq> [] \<longrightarrow> running (bc r))"

definition channels_ok :: "'a run \<Rightarrow> bool" where
  "channels_ok r \<longleftrightarrow>
     (\<forall>s \<in> set (subs (bc r)). \<not> closed (channels (bc r) s)) \<and>
     (\<forall>s. length (buffer (channels (bc r) s)) \<le> sub_capacity)"

definition lossless :: "'a run \<Rightarrow> bool" where
  "lossless r \<longleftrightarrow>
     (\<forall>s. subseq (got r s) (offered r s)) \<and>
     (\<forall>s \<in> set (subs (bc r)). s \<notin> set (leaving (bc r)) \<longrightarrow> got r s = offered r s)"

lemma Subscribe_cases:
  assumes "Subscribe connect b = (res, b')"
  obtains e where "res = Inl e" "b' = b"
  | "res = Inr (next_sub b)" "running b'" "subs b' = subs b @ [next_sub b]"
    "next_sub b' = Suc (next_sub b)" "leaving b' = leaving b"
    "channels b' = (channels b)(next_sub b := \<lparr>buffer = [], closed = False\<rparr>)"
proof -
  have "(\<exists>e. res = Inl e \<and> b' = b) \<or>
    res = Inr (next_sub b) \<and> running b' \<and> subs b' = subs b @ [next_sub b] \<and>
    next_sub b' = Suc (next_sub b) \<and> leaving b' = leaving b \<and>
    channels b' = (channels b)(next_sub b := \<lparr>buffer = [], closed = False\<rparr>)"
    using assms
    by (cases connect; cases "running b") (auto simp: Subscribe_def broadcaster_start_def Let_def)
  with that show thesis by blast
qed

lemma receive_cases:
  assumes "receive s b = Some (x, b')"
  obtains xs where "buffer (channels b s) = x # xs"
    "b' = b\<lparr>channels := (channels b)(s := (channels b s)\<lparr>buffer := xs\<rparr>)\<rparr>"
  using assms by (auto simp: receive_def split: list.splits)

lemma got_stream_item:
  assumes "distinct (subs (bc r))"
  shows "got (r\<lparr>bc := stream_item x (bc r), offered := off\<rparr>) s =
    (if s \<in> set (subs (bc r)) \<and> length (buffer (channels (bc r) s)) < sub_capacity
     then got r s @ [x] else got r s)"
  using assms by (simp add: got_def stream_item_def fold_offer_buffer)

lemma stream_item_simps [simp]:
  "subs (stream_item x b) = subs b" "running (stream_item x b) = running b"
  "next_sub (stream_item x b) = next_sub b" "closed (channels (stream_item x b) s) = closed (channels b s)"
  by (simp_all add: stream_item_def)

lemma stream_item_leaving:
  "distinct (subs b) \<Longrightarrow> set (leaving (stream_item x b)) =
     set (leaving b) \<union> {s \<in> set (subs b). \<not> length (buffer (channels b s)) < sub_capacity}"
  by (simp add: stream_item_def fold_offer_leaving)

lemma stream_end_simps [simp]:
  "subs (stream_end b) = []" "\<not> running (stream_end b)" "next_sub (stream_end b) = next_sub b"
  "leaving (stream_end b) = leaving b" "buffer (channels (stream_end b) s) = buffer (channels b s)"
  by (simp_all add: stream_end_def)

lemma step_run_ok: "step r r' \<Longrightarrow> run_ok r \<Longrightarrow> run_ok r'"
proof (erule stepE)
  fix connect res b assume ok: "run_ok r" and s: "Subscribe connect (bc r) = (res, b)" and r': "r' = r\<lparr>bc := b\<rparr>"
  from s show "run_ok r'"
    by (rule Subscribe_cases) (use ok r' in \<open>auto simp: run_ok_def got_def less_Suc_eq_le less_imp_le\<close>)
next
  fix x assume ok: "run_ok r" and r': "r' = r\<lparr>bc := stream_item x (bc r),
    offered := (\<lambda>s. if s \<in> set (subs (bc r)) then offered r s @ [x] else offered r s)\<rparr>"
  then show "run_ok r'"
    by (auto simp: run_ok_def got_stream_item stream_item_leaving)
next
  fix s x b assume ok: "run_ok r" and t: "receive s (bc r) = Some (x, b)"
    and r': "r' = r\<lparr>bc := b, received := (received r)(s := received r s @ [x])\<rparr>"
  from t show "run_ok r'"
    by (rule receive_cases) (use ok r' in \<open>auto simp: run_ok_def got_def\<close>)
qed (auto simp: run_ok_def got_def)

lemma step_channels_ok: "step r r' \<Longrightarrow> run_ok r \<Longrightarrow> channels_ok r \<Longrightarrow> channels_ok r'"
proof (erule stepE)
  fix connect res b assume ok: "run_ok r" "channels_ok r" and s: "Subscribe connect (bc r) = (res, b)"
    and r': "r' = r\<lparr>bc := b\<rparr>"
  from s show "channels_ok r'"
    by (rule Subscribe_cases) (use ok r' in \<open>auto simp: channels_ok_def run_ok_def\<close>)
next
  fix x assume ok: "run_ok r" "channels_ok r" and r': "r' = r\<lparr>bc := stream_item x (bc r),
    offered := (\<lambda>s. if s \<in> set (subs (bc r)) then offered r s @ [x] else offered r s)\<rparr>"
  then show "channels_ok r'"
    by (auto simp: channels_ok_def run_ok_def stream_item_def fold_offer_buffer Suc_leI)
next
  fix s x b assume ok: "channels_ok r" and t: "receive s (bc r) = Some (x, b)"
    and r': "r' = r\<lparr>bc := b, received := (received r)(s := received r s @ [x])\<rparr>"
  from t show "channels_ok r'"
  proof (rule receive_cases)
    fix xs assume "buffer (channels (bc r) s) = x # xs"
      and b: "b = (bc r)\<lparr>channels := (channels (bc r))(s := (channels (bc r) s)\<lparr>buffer := xs\<rparr>)\<rparr>"
    moreover from this ok have "length xs \<le> sub_capacity" by (metis Suc_leD channels_ok_def length_Cons)
    ultimately show ?thesis using ok r' by (auto simp: channels_ok_def)
  qed
qed (auto simp: channels_ok_def)

lemma step_lossless: "step r r' \<Longrightarrow> run_ok r \<Longrightarrow> lossless r \<Longrightarrow> lossless r'"
proof (erule stepE)
  fix connect res b assume ok: "run_ok r" "lossless r" and s: "Subscribe connect (bc r) = (res, b)"
    and r': "r' = r\<lparr>bc := b\<rparr>"
  from s show "lossless r'"
    by (rule Subscribe_cases) (use ok r' in \<open>auto simp: lossless_def run_ok_def got_def\<close>)
next
  fix x assume ok: "run_ok r" "lossless r" and r': "r' = r\<lparr>bc := stream_item x (bc r),
    offered := (\<lambda>s. if s \<in> set (subs (bc r)) then offered r s @ [x] else offered r s)\<rparr>"
  then have d: "distinct (subs (bc r))" by (simp add: run_ok_def)
  have "subseq (got r s) (offered r s @ [x])" "subseq (got r s @ [x]) (offered r s @ [x])" for s
    using ok(2) by (auto simp: lossless_def intro: list_emb_prefix list_emb_append_mono)
  then show "lossless r'"
    using ok d by (auto simp: r' lossless_def got_stream_item stream_item_leaving)
next
  fix s x b assume ok: "lossless r" and t: "receive s (bc r) = Some (x, b)"
    and r': "r' = r\<lparr>bc := b, received := (received r)(s := received r s @ [x])\<rparr>"
  from t show "lossless r'"
  proof (rule receive_cases)
    fix xs assume "buffer (channels (bc r) s) = x # xs"
      and b: "b = (bc r)\<lparr>channels := (channels (bc r))(s := (channels (bc r) s)\<lparr>buffer := xs\<rparr>)\<rparr>"
    then have "got r' y = got r y" for y by (simp add: got_def r')
    then show ?thesis using ok r' b by (simp add: lossless_def)
  qed
qed (auto simp: lossless_def got_def)

lemma reachable_ok: "reachable r \<Longrightarrow> run_ok r \<and> channels_ok r \<and> lossless r"
proof (induction rule: reachable.induct)
  case start
  show ?case
    by (simp add: run_ok_def channels_ok_def lossless_def got_def init_run_def init_broadcaster_def)
qed (auto intro: step_run_ok step_channels_ok step_lossless)


section \<open>A consumer that does not keep up\<close>

text \<open>A run with one subscriber, number 0, that is described by what it has taken and what waits.\<close>

definition one_sub :: "'a run \<Rightarrow> 'a list \<Rightarrow> 'a list \<Rightarrow> 'a list \<Rightarrow> nat list \<Rightarrow> bool" where
  "one_sub r taken waiting all lv \<longleftrightarrow>
     reachable r \<and> running (bc r) \<and> subs (bc r) = [0] \<and> leaving (bc r) = lv \<and>
     received r 0 = taken \<and> buffer (channels (bc r) 0) = waiting \<and> offered r 0 = all"

lemma one_sub_start: "\<exists>r. one_sub r [] [] [] []"
proof -
  let ?b = "snd (Subscribe None init_broadcaster)"
  have "step init_run (init_run\<lparr>bc := ?b\<rparr>)"
    by (rule step.subscribe, simp only: init_run_def run.select_convs, rule surjective_pairing)
  then have "reachable (init_run\<lparr>bc := ?b\<rparr>)" by (rule reachable.more [OF reachable.start])
  then show ?thesis
    by (intro exI [of _ "init_run\<lparr>bc := ?b\<rparr>"])
       (simp add: one_sub_def init_run_def init_broadcaster_def Subscribe_def broadcaster_start_def)
qed

lemma one_sub_item:
  assumes "one_sub r taken waiting all lv"
  shows "\<exists>r'. one_sub r' taken
    (if length waiting < sub_capacity then waiting @ [x] else waiting) (all @ [x])
    (if length waiting < sub_capacity then lv else lv @ [0])"
proof -
  let ?r = "r\<lparr>bc := stream_item x (bc r),
    offered := (\<lambda>s. if s \<in> set (subs (bc r)) then offered r s @ [x] else offered r s)\<rparr>"
  have "reachable r" "running (bc r)" using assms by (simp_all add: one_sub_def)
  then have "reachable ?r" by (intro reachable.more [OF _ step.item])
  then show ?thesis
    using assms by (intro exI [of _ ?r]) (auto simp: one_sub_def stream_item_def offer_def)
qed

lemma one_sub_items:
  "one_sub r taken waiting all lv \<Longrightarrow> length waiting + length xs \<le> sub_capacity \<Longrightarrow>
     \<exists>r'. one_sub r' taken (waiting @ xs) (all @ xs) lv"
proof (induction xs arbitrary: r waiting all)
  case (Cons x xs)
  from one_sub_item [OF Cons.prems(1), of x] Cons.prems(2) obtain r'
    where "one_sub r' taken (waiting @ [x]) (all @ [x]) lv" by auto
  from Cons.IH [OF this] Cons.prems(2) show ?case by simp
qed auto

lemma one_sub_take:
  assumes "one_sub r taken (x # waiting) all lv"
  shows "\<exists>r'. one_sub r' (taken @ [x]) waiting all lv"
proof -
  let ?b = "(bc r)\<lparr>channels := (channels (bc r))(0 := (channels (bc r) 0)\<lparr>buffer := waiting\<rparr>)\<rparr>"
  let ?r = "r\<lparr>bc := ?b, received := (received r)(0 := received r 0 @ [x])\<rparr>"
  have "step r ?r" using assms by (intro step.take) (simp add: one_sub_def receive_def)
  with assms have "reachable ?r" by (auto simp: one_sub_def intro: reachable.more)
  then show ?thesis using assms by (intro exI [of _ ?r]) (simp add: one_sub_def)
qed

section \<open>Properties\<close>



text \<open>
  C16: a subscriber gets the items that arrive while it is registered in their order and without
  repetition, and as long as no item was dropped for it, it gets all of them.
\<close>

theorem broadcaster_lossless:
  assumes "reachable r"
  shows "subseq (got r s) (offered r s) \<and>
     (s \<in> set (subs (bc r)) \<and> s \<notin> set (leaving (bc r)) \<longrightarrow> got r s = offered r s)"
  using reachable_ok [OF assms] by (simp add: lossless_def)

theorem broadcaster_lossless_witness:
  "\<exists>r. reachable r \<and> offered r 0 = ''ab'' \<and> got r 0 = ''ab''"
proof -
  obtain r0 :: "char run" where "one_sub r0 [] [] [] []" using one_sub_start by blast
  from one_sub_items [OF this, of "''ab''"] obtain r where "one_sub r [] ''ab'' ''ab'' []"
    by (auto simp: sub_capacity_def)
  then have "reachable r" "subs (bc r) = [0]" "leaving (bc r) = []" "offered r 0 = ''ab''"
    by (simp_all add: one_sub_def)
  with broadcaster_lossless [of r 0] show ?thesis by auto
qed

text \<open>
  A slow subscriber is removed by a goroutine of its own; until that runs it stays registered,
  and when it takes an item meanwhile, the next one is delivered: it then sees a gap in a channel
  that is still open.
\<close>

lemma slow_subscriber_sees_gap:
  "\<exists>r :: nat run. reachable r \<and> 0 \<in> set (subs (bc r)) \<and> \<not> closed (channels (bc r) 0) \<and>
     offered r 0 = [0..<102] \<and> got r 0 = [0..<100] @ [101]"
proof -
  obtain r0 :: "nat run" where "one_sub r0 [] [] [] []" using one_sub_start by blast
  from one_sub_items [OF this, of "[0..<100]"] obtain r1 :: "nat run"
    where r1: "one_sub r1 [] [0..<100] [0..<100] []" by (auto simp: sub_capacity_def)
  from one_sub_item [OF this, of 100] obtain r2 where "one_sub r2 [] [0..<100] ([0..<100] @ [100]) [0]"
    by (auto simp: sub_capacity_def)
  moreover have "[0..<100] = 0 # [1..<100]" by (simp add: upt_rec)
  ultimately obtain r3 where "one_sub r3 [0] [1..<100] ([0..<100] @ [100]) [0]"
    using one_sub_take [of r2 "[]" 0 "[1..<100]"] by auto
  from one_sub_item [OF this, of 101] obtain r4
    where r4: "one_sub r4 [0] ([1..<100] @ [101]) ([0..<100] @ [100, 101]) [0]"
    by (auto simp: sub_capacity_def)
  have up: "[0..<102] = [0..<100] @ [100, 101]" "[0..<100] = 0 # [1..<100 :: nat]"
    using upt_add_eq_append [of 0 100 2] by (simp_all add: upt_rec)
  have "channels_ok r4" using r4 reachable_ok [of r4] by (simp add: one_sub_def)
  with r4 show ?thesis
    by (intro exI [of _ r4]) (simp add: one_sub_def got_def channels_ok_def up)
qed

end
