(* ===== verification/Codec.thy ===== *)
theory Codec
  imports Messages
begin

text \<open>
  The key codec of the NATS driver (\<open>pkg/drivers/nats/kv/etcd_encoder.go\<close>): a path becomes a
  dotted subject whose parts are Base58 texts. The Base58 package is a parameter: \<open>enc\<close> and \<open>dec\<close>.
\<close>

section \<open>Splitting and joining\<close>

text \<open>\<open>strings.Split\<close> at a separator of one byte, and \<open>strings.Join\<close>.\<close>

fun Split :: "string \<Rightarrow> char \<Rightarrow> string list" where
  "Split [] sep = [[]]"
| "Split (c # s) sep =
     (if c = sep then [] # Split s sep
      else (case Split s sep of [] \<Rightarrow> [[c]] | part # parts \<Rightarrow> (c # part) # parts))"

fun Join :: "string list \<Rightarrow> char \<Rightarrow> string" where
  "Join [] sep = []"
| "Join [part] sep = part"
| "Join (part # parts) sep = part @ sep # Join parts sep"

lemma Split_nonempty [simp]: "Split s sep \<noteq> []"
  by (induction s) (auto split: list.split)

lemma Split_parts: "p \<in> set (Split s sep) \<Longrightarrow> sep \<notin> set p"
  by (induction s arbitrary: p) (auto split: if_splits list.splits)

lemma Join_Split: "Join (Split s sep) sep = s"
proof (induction s)
  case (Cons c s)
  then show ?case
    by (cases "Split s sep") (auto split: list.split, metis Join.simps(2,3) append_Cons list.exhaust)
qed simp

lemma Split_no_sep: "sep \<notin> set part \<Longrightarrow> Split part sep = [part]"
  by (induction part) auto

lemma Split_append: "sep \<notin> set part \<Longrightarrow> Split (part @ sep # s) sep = part # Split s sep"
  by (induction part) auto

lemma Split_Join:
  "parts \<noteq> [] \<Longrightarrow> \<forall>p \<in> set parts. sep \<notin> set p \<Longrightarrow> Split (Join parts sep) sep = parts"
proof (induction parts)
  case (Cons p parts)
  then show ?case by (cases parts) (simp_all add: Split_no_sep Split_append)
qed simp

section \<open>The codec\<close>

definition encode_part :: "(string \<Rightarrow> string) \<Rightarrow> string \<Rightarrow> string" where
  "encode_part enc part = (if part = ''>'' \<or> part = ''*'' then part else enc part)"

definition Encode :: "(string \<Rightarrow> string) \<Rightarrow> string \<Rightarrow> go_error + string" where
  "Encode enc key =
     (let parts = map (encode_part enc) (Split (TrimPrefix key ''/'') (CHR ''/''))
      in if length parts = 0 then Inl (Errorf ''nats: invalid key'') else Inr (Join parts (CHR ''.'')))"

definition EncodeRange :: "(string \<Rightarrow> string) \<Rightarrow> string \<Rightarrow> go_error + string" where
  "EncodeRange enc keys =
     (case Encode enc keys of
        Inl e \<Rightarrow> Inl e
      | Inr ek \<Rightarrow> Inr (if HasSuffix ek ''.'' then ek @ ''>'' else ek))"

text \<open>The loop of \<open>Decode\<close>: the first part that does not decode ends it.\<close>

fun decode_parts :: "(string \<Rightarrow> go_error + string) \<Rightarrow> string list \<Rightarrow> go_error + string list" where
  "decode_parts dec [] = Inr []"
| "decode_parts dec (s # ss) =
     (case dec s of
        Inl e \<Rightarrow> Inl e
      | Inr p \<Rightarrow> (case decode_parts dec ss of Inl e \<Rightarrow> Inl e | Inr ps \<Rightarrow> Inr (p # ps)))"

definition Decode :: "(string \<Rightarrow> go_error + string) \<Rightarrow> string \<Rightarrow> go_error + string" where
  "Decode dec key =
     (case decode_parts dec (Split key (CHR ''.'')) of
        Inl e \<Rightarrow> Inl e
      | Inr parts \<Rightarrow>
          (if length parts = 0 then Inl (Errorf ''nats: invalid key'')
           else Inr (CHR ''/'' # Join parts (CHR ''/''))))"

text \<open>
  What the codec relies on: Base58 texts decode to what they encode, and their alphabet has no dot.
\<close>

definition base58_ok :: "(string \<Rightarrow> string) \<Rightarrow> (string \<Rightarrow> go_error + string) \<Rightarrow> bool" where
  "base58_ok enc dec \<longleftrightarrow> (\<forall>s. dec (enc s) = Inr s \<and> CHR ''.'' \<notin> set (enc s))"

lemma decode_parts_map:
  "\<forall>p \<in> set parts. dec (enc p) = Inr p \<Longrightarrow> decode_parts dec (map enc parts) = Inr parts"
  by (induction parts) auto

text \<open>An encoding that stands in for Base58 in the example: a dot is escaped.\<close>

fun escape :: "string \<Rightarrow> string" where
  "escape [] = []"
| "escape (c # s) =
     (if c = CHR ''.'' then ''_d'' @ escape s else if c = CHR ''_'' then ''_u'' @ escape s else c # escape s)"

fun unescape :: "string \<Rightarrow> string" where
  "unescape (a # b # s) =
     (if a = CHR ''_'' then (if b = CHR ''d'' then CHR ''.'' else CHR ''_'') # unescape s
      else a # unescape (b # s))"
| "unescape s = s"

lemma unescape_plain: "c \<noteq> CHR ''_'' \<Longrightarrow> unescape (c # s) = c # unescape s"
  by (cases s) simp_all

lemma escape_ok: "base58_ok escape (\<lambda>s. Inr (unescape s))"
proof -
  have "unescape (escape s) = s" for s by (induction s) (simp_all add: unescape_plain)
  moreover have "CHR ''.'' \<notin> set (escape s)" for s by (induction s) auto
  ultimately show ?thesis by (simp add: base58_ok_def)
qed

text \<open>Paths that the codec maps one to one: a slash first, no part that is a wildcard.\<close>

definition path_ok :: "string \<Rightarrow> bool" where
  "path_ok key \<longleftrightarrow> key \<noteq> [] \<and> hd key = CHR ''/'' \<and>
     (\<forall>p \<in> set (Split (tl key) (CHR ''/'')). p \<noteq> ''>'' \<and> p \<noteq> ''*'')"

lemma Encode_path:
  assumes "path_ok key"
  shows "Encode enc key = Inr (Join (map enc (Split (tl key) (CHR ''/''))) (CHR ''.''))"
proof -
  obtain path where key: "key = CHR ''/'' # path"
    using assms by (cases key) (auto simp: path_ok_def)
  have "TrimPrefix key ''/'' = path" by (simp add: key TrimPrefix_def HasPrefix_def)
  moreover have "map (encode_part enc) (Split path (CHR ''/'')) = map enc (Split path (CHR ''/''))"
    using assms by (auto simp: encode_part_def path_ok_def key)
  ultimately show ?thesis by (simp only: Encode_def key Let_def list.sel) simp
qed

lemma Split_encoded:
  "base58_ok enc dec \<Longrightarrow> parts \<noteq> [] \<Longrightarrow> Split (Join (map enc parts) (CHR ''.'')) (CHR ''.'') = map enc parts"
  by (intro Split_Join) (auto simp: base58_ok_def)

lemma Decode_path:
  assumes "base58_ok enc dec" "path_ok key"
  shows "Decode dec (Join (map enc (Split (tl key) (CHR ''/''))) (CHR ''.'')) = Inr key"
proof -
  obtain path where key: "key = CHR ''/'' # path"
    using assms(2) by (cases key) (auto simp: path_ok_def)
  have "decode_parts dec (map enc (Split path (CHR ''/''))) = Inr (Split path (CHR ''/''))"
    using assms(1) by (intro decode_parts_map) (simp add: base58_ok_def)
  then show ?thesis by (simp add: Decode_def key Split_encoded [OF assms(1)] Join_Split)
qed

section \<open>Properties\<close>

text \<open>
  C26: a path that begins with a slash and has no wildcard among its parts is decoded from its
  subject as it was, and the subject has one part for each part of the path.
\<close>

theorem key_roundtrip:
  assumes "base58_ok enc dec" "\<forall>p \<in> set (Split path (CHR ''/'')). p \<noteq> ''>'' \<and> p \<noteq> ''*''"
  shows "\<exists>subject. Encode enc (CHR ''/'' # path) = Inr subject \<and> Decode dec subject = Inr (CHR ''/'' # path) \<and>
     length (Split subject (CHR ''.'')) = length (Split path (CHR ''/''))"
proof -
  have ok: "path_ok (CHR ''/'' # path)" using assms(2) by (simp add: path_ok_def)
  show ?thesis
    using Encode_path [OF ok, of enc] Decode_path [OF assms(1) ok] Split_encoded [OF assms(1), of "Split path (CHR ''/'')"]
    by simp
qed

theorem key_roundtrip_witness:
  "\<exists>subject. Encode escape ''/registry/a.b'' = Inr subject \<and>
     Decode (\<lambda>s. Inr (unescape s)) subject = Inr ''/registry/a.b''"
  using key_roundtrip [OF escape_ok, of "''registry/a.b''"] by auto

end
