(* ===== verification/Endpoint.thy ===== *)
theory Endpoint
  imports Bridge Codec Generic
begin

text \<open>
  The entry point of the server (\<open>pkg/endpoint/endpoint.go\<close>, \<open>http.go\<close>): the parsing of a
  storage endpoint, the choice of the driver, the listener and its URL, \<open>Listen\<close> up to the point
  where the servers run, and the handlers of the plain HTTP requests. The drivers' constructors,
  the operating system and the metrics registry are parameters.
\<close>

section \<open>Configuration\<close>

record tls_Config =
  CAFile :: string
  CertFile :: string
  KeyFile :: string

text \<open>
  \<open>cfg_GRPCServer\<close> and \<open>cfg_MetricsRegisterer\<close> say whether the pointer of that name is set.
\<close>

record Config =
  cfg_GRPCServer :: bool
  cfg_Listener :: string
  cfg_Endpoint :: string
  cfg_ConnectionPoolConfig :: ConnectionPoolConfig
  ServerTLSConfig :: tls_Config
  BackendTLSConfig :: tls_Config
  cfg_MetricsRegisterer :: bool

record ETCDConfig =
  Endpoints :: "string list"
  etcd_TLSConfig :: tls_Config
  LeaderElect :: bool

definition no_tls :: tls_Config where
  "no_tls = \<lparr>CAFile = [], CertFile = [], KeyFile = []\<rparr>"

text \<open>The condition \<open>CertFile != "" && KeyFile != ""\<close> of the sources.\<close>

definition has_tls :: "tls_Config \<Rightarrow> bool" where
  "has_tls c = (CertFile c \<noteq> [] \<and> KeyFile c \<noteq> [])"

section \<open>Endpoints\<close>

text \<open>\<open>strings.SplitN(s, sep, 2)\<close> for a separator that is not empty.\<close>

fun SplitN2 :: "string \<Rightarrow> string \<Rightarrow> string list" where
  "SplitN2 [] sep = [[]]"
| "SplitN2 (c # s) sep =
     (if HasPrefix (c # s) sep then [[], drop (length sep) (c # s)]
      else (case SplitN2 s sep of [] \<Rightarrow> [[c]] | p # ps \<Rightarrow> (c # p) # ps))"

definition networkAndAddress :: "string \<Rightarrow> string \<times> string" where
  "networkAndAddress str =
     (case SplitN2 str ''://'' of
        p0 # p1 # _ \<Rightarrow> (p0, p1)
      | [p0] \<Rightarrow> ([], p0)
      | [] \<Rightarrow> ([], []))"

definition ParseStorageEndpoint :: "string \<Rightarrow> string \<times> string" where
  "ParseStorageEndpoint storageEndpoint =
     (case networkAndAddress storageEndpoint of
        (network, address) \<Rightarrow>
          if network = [] then (''sqlite'', [])
          else if network = ''nats'' then (''nats'', storageEndpoint)
          else if network = ''http'' \<or> network = ''https'' then (''etcd3'', address)
          else (network, address))"

text \<open>The constructors of the drivers; each is given the data source name and the configuration.\<close>

record 'w drivers =
  sqlite_New :: "string \<Rightarrow> Config \<Rightarrow> ('w, 'w Backend \<times> go_error option) go"
  dqlite_New :: "string \<Rightarrow> Config \<Rightarrow> ('w, 'w Backend \<times> go_error option) go"
  pgsql_New :: "string \<Rightarrow> Config \<Rightarrow> ('w, 'w Backend \<times> go_error option) go"
  mysql_New :: "string \<Rightarrow> Config \<Rightarrow> ('w, 'w Backend \<times> go_error option) go"
  nats_NewLegacy :: "string \<Rightarrow> Config \<Rightarrow> ('w, 'w Backend \<times> go_error option) go"
  nats_New :: "string \<Rightarrow> Config \<Rightarrow> ('w, 'w Backend \<times> go_error option) go"

text \<open>The backend of an error result is not used; for an unknown driver it is nil.\<close>

definition getKineStorageBackend ::
  "'w drivers \<Rightarrow> string \<Rightarrow> string \<Rightarrow> Config \<Rightarrow> ('w, go_error + bool \<times> 'w Backend) go" where
  "getKineStorageBackend ds driver dsn cfg w =
     (let new = (if driver = ''sqlite'' then Some (False, sqlite_New ds)
          else if driver = ''dqlite'' then Some (True, dqlite_New ds)
          else if driver = ''postgres'' then Some (True, pgsql_New ds)
          else if driver = ''mysql'' then Some (True, mysql_New ds)
          else if driver = ''jetstream'' then Some (True, nats_NewLegacy ds)
          else if driver = ''nats'' then Some (True, nats_New ds)
          else None)
      in case new of
           None \<Rightarrow> Some (Inl (Errorf ''storage backend is not defined''), w)
         | Some (leaderElect, f) \<Rightarrow> do {
             ((backend, err), w) \<leftarrow> f dsn cfg w;
             Some (case err of Some e \<Rightarrow> Inl e | None \<Rightarrow> Inr (leaderElect, backend), w)
           })"

section \<open>The listener\<close>

definition KineSocket :: string where
  "KineSocket = ''unix://kine.sock''"

definition listener_of :: "Config \<Rightarrow> string" where
  "listener_of config = (if cfg_Listener config = [] then KineSocket else cfg_Listener config)"

definition endpointScheme :: "Config \<Rightarrow> string" where
  "endpointScheme config =
     (let network = fst (networkAndAddress (listener_of config));
          network = (if network \<noteq> ''unix'' then ''http'' else network)
      in if has_tls (ServerTLSConfig config) then network @ ''s'' else network)"

text \<open>
  The port that \<open>net.SplitHostPort\<close> finds in an address, \<open>None\<close> when it reports an error: the
  port follows the last colon, and a host with a colon stands in brackets.
\<close>

definition SplitHostPort_port :: "string \<Rightarrow> string option" where
  "SplitHostPort_port s =
     (if CHR '':'' \<notin> set s then None
      else let port = rev (takeWhile (\<lambda>c. c \<noteq> CHR '':'') (rev s));
               before = take (length s - length port - 1) s;
               host = takeWhile (\<lambda>c. c \<noteq> CHR '']'') (tl s)
           in if (if hd s = CHR ''[''
                  then before = CHR ''['' # host @ [CHR '']''] \<and> CHR ''['' \<notin> set (tl s) \<and>
                    CHR '']'' \<notin> set port
                  else CHR '':'' \<notin> set before \<and> CHR ''['' \<notin> set s \<and> CHR '']'' \<notin> set s)
              then Some port else None)"

text \<open>\<open>addr\<close> is the text of the listener's address.\<close>

definition endpointURL :: "Config \<Rightarrow> string \<Rightarrow> string" where
  "endpointURL config addr =
     (let scheme = endpointScheme config;
          port = (case SplitHostPort_port addr of Some p \<Rightarrow> p | None \<Rightarrow> ''2379'');
          address = (if HasPrefix scheme ''unix'' then addr else ''127.0.0.1:'' @ port)
      in scheme @ ''://'' @ address)"

text \<open>The calls of the operating system, the certificate loader and the metrics registry.\<close>

record 'w host =
  os_Remove :: "string \<Rightarrow> 'w \<Rightarrow> go_error option \<times> 'w"
  os_Chmod :: "string \<Rightarrow> 'w \<Rightarrow> go_error option \<times> 'w"
  net_Listen :: "string \<Rightarrow> string \<Rightarrow> 'w \<Rightarrow> (go_error + string) \<times> 'w"
  NewServerTLSFromFile :: "string \<Rightarrow> string \<Rightarrow> 'w \<Rightarrow> go_error option \<times> 'w"
  MustRegister :: "('w, unit) go"

text \<open>
  A unix socket is removed first, and its mode is set when the function returns, also after a
  failed \<open>net.Listen\<close>: an error of that deferred call replaces the result's error. The result is
  the address of the listener.
\<close>

definition createListener :: "'w host \<Rightarrow> Config \<Rightarrow> 'w \<Rightarrow> (go_error + string) \<times> 'w" where
  "createListener h config w =
     (case networkAndAddress (listener_of config) of
        (network, address) \<Rightarrow>
          if network = ''unix''
          then (let (_, w) = os_Remove h address w;
                    (ret, w) = net_Listen h network address w;
                    (err, w) = os_Chmod h address w
                in (case err of Some e \<Rightarrow> Inl e | None \<Rightarrow> ret, w))
          else net_Listen h ''tcp'' address w)"

definition grpcServer :: "'w host \<Rightarrow> Config \<Rightarrow> 'w \<Rightarrow> go_error option \<times> 'w" where
  "grpcServer h config w =
     (if cfg_GRPCServer config then (None, w)
      else if has_tls (ServerTLSConfig config)
      then NewServerTLSFromFile h (CertFile (ServerTLSConfig config)) (KeyFile (ServerTLSConfig config)) w
      else (None, w))"

section \<open>Listen\<close>

text \<open>
  The result of \<open>Listen\<close> with the backend that it serves; an etcd endpoint is handed to the caller
  as it is and served by nobody. The servers start in goroutines after the listener exists.
\<close>

definition Listen ::
  "'w drivers \<Rightarrow> 'w host \<Rightarrow> Config \<Rightarrow> ('w, go_error + ETCDConfig \<times> 'w Backend option) go" where
  "Listen ds h config w =
     (case ParseStorageEndpoint (cfg_Endpoint config) of
        (driver, dsn) \<Rightarrow>
          if driver = ''etcd3''
          then Some (Inr (\<lparr>Endpoints = Split (cfg_Endpoint config) (CHR '',''),
                           etcd_TLSConfig = BackendTLSConfig config, LeaderElect = True\<rparr>, None), w)
          else do {
            (r, w) \<leftarrow> getKineStorageBackend ds driver dsn config w;
            case r of
              Inl e \<Rightarrow> Some (Inl (Wrapped ''building kine'' e), w)
            | Inr (leaderelect, backend) \<Rightarrow> do {
                (_, w) \<leftarrow> (if cfg_MetricsRegisterer config then MustRegister h w else Some ((), w));
                (err, w) \<leftarrow> b_Start backend w;
                case err of
                  Some e \<Rightarrow> Some (Inl (Wrapped ''starting kine backend'' e), w)
                | None \<Rightarrow>
                    (let (err, w) = grpcServer h config w
                     in case err of
                          Some e \<Rightarrow> Some (Inl (Wrapped ''creating GRPC server'' e), w)
                        | None \<Rightarrow>
                            (let (l, w) = createListener h config w
                             in case l of
                                  Inl e \<Rightarrow> Some (Inl (Wrapped ''creating listener'' e), w)
                                | Inr addr \<Rightarrow>
                                    Some (Inr (\<lparr>Endpoints = [endpointURL config addr],
                                                etcd_TLSConfig = no_tls, LeaderElect = leaderelect\<rparr>,
                                               Some backend), w)))
              }
          })"

section \<open>Plain HTTP requests (http.go)\<close>

record http_Request =
  Method :: string
  URL_Path :: string
  ProtoMajor :: nat
  ContentType :: string

record http_Response =
  StatusCode :: nat
  Header :: "(string \<times> string) list"
  Body :: string

definition etcdVersion :: string where
  "etcdVersion =
     (let quote = (\<lambda>s. CHR 0x22 # s @ [CHR 0x22])
      in ''{'' @ quote ''etcdserver'' @ '':'' @ quote ''3.5.0'' @ '','' @
         quote ''etcdcluster'' @ '':'' @ quote ''3.5.0'' @ ''}'')"

text \<open>\<open>http.Error\<close> writes its text with a line feed, as plain text.\<close>

definition http_Error :: "string \<Rightarrow> nat \<Rightarrow> http_Response \<Rightarrow> http_Response" where
  "http_Error msg code resp =
     resp\<lparr>StatusCode := code, Body := msg @ [CHR 0x0A],
          Header := Header resp @ [(''Content-Type'', ''text/plain; charset=utf-8''),
                                   (''X-Content-Type-Options'', ''nosniff'')]\<rparr>"

definition allowMethod :: "http_Request \<Rightarrow> string \<Rightarrow> http_Response \<Rightarrow> bool \<times> http_Response" where
  "allowMethod r m resp =
     (if m = Method r then (True, resp)
      else (False, http_Error ''Method Not Allowed'' 405
              (resp\<lparr>Header := Header resp @ [(''Allow'', m)]\<rparr>)))"

definition serveVersion :: "http_Request \<Rightarrow> http_Response \<Rightarrow> http_Response" where
  "serveVersion r resp =
     (case allowMethod r ''GET'' resp of
        (False, resp) \<Rightarrow> resp
      | (True, resp) \<Rightarrow>
          resp\<lparr>Header := Header resp @ [(''Content-Type'', ''application/json'')],
               Body := Body resp @ etcdVersion\<rparr>)"

text \<open>The mux knows one path.\<close>

definition httpServer :: "http_Request \<Rightarrow> http_Response" where
  "httpServer r =
     (let resp = \<lparr>StatusCode = 200, Header = [], Body = []\<rparr>
      in if URL_Path r = ''/version'' then serveVersion r resp
         else http_Error ''404 page not found'' 404 resp)"

definition grpcHandlerFunc ::
  "(http_Request \<Rightarrow> 'a) \<Rightarrow> (http_Request \<Rightarrow> 'a) \<Rightarrow> http_Request \<Rightarrow> 'a" where
  "grpcHandlerFunc grpc http r =
     (if ProtoMajor r = 2 \<and> HasPrefix (ContentType r) ''application/grpc'' then grpc r else http r)"

section \<open>Opening the SQL database (generic.go)\<close>

text \<open>
  \<open>Open\<close> asks the driver for a connection and pings it. A dialect that could not be opened is
  nil, without an error: \<open>select\<close> returns from the function in both of its cases, so the loop of
  300 rounds ends in its first round. The result is the configuration of the pool.
\<close>

record 'w sql_driver =
  sql_Open :: "'w \<Rightarrow> go_error option \<times> 'w"
  sql_Ping :: "'w \<Rightarrow> go_error option \<times> 'w"
  sql_Close :: "'w \<Rightarrow> 'w"

fun ping_tries :: "nat \<Rightarrow> 'w sql_driver \<Rightarrow> 'w \<Rightarrow> go_error option \<times> 'w" where
  "ping_tries 0 d w = (None, w)"
| "ping_tries (Suc n) d w =
     (case sql_Ping d w of
        (Some e, w) \<Rightarrow> (Some e, sql_Close d w)
      | (None, w) \<Rightarrow> ping_tries n d w)"

definition openAndTest :: "'w sql_driver \<Rightarrow> 'w \<Rightarrow> go_error option \<times> 'w" where
  "openAndTest d w =
     (case sql_Open d w of
        (Some e, w) \<Rightarrow> (Some e, w)
      | (None, w) \<Rightarrow> ping_tries 3 d w)"

definition generic_Open ::
  "'w sql_driver \<Rightarrow> ConnectionPoolConfig \<Rightarrow> ('w, unit) go option \<Rightarrow> ('w, ConnectionPoolConfig option) go" where
  "generic_Open d cfg register w =
     (case openAndTest d w of
        (Some _, w) \<Rightarrow> Some (None, w)
      | (None, w) \<Rightarrow> do {
          (_, w) \<leftarrow> (case register of Some f \<Rightarrow> f w | None \<Rightarrow> Some ((), w));
          Some (Some (configureConnectionPooling cfg), w)
        })"

section \<open>Facts\<close>

lemma SplitN2_first:
  "CHR '':'' \<notin> set n \<Longrightarrow> SplitN2 (n @ ''://'' @ a) ''://'' = [n, a]"
  by (induction n) (auto simp: HasPrefix_def split: list.splits)

lemma networkAndAddress_scheme [simp]:
  "CHR '':'' \<notin> set n \<Longrightarrow> networkAndAddress (n @ ''://'' @ a) = (n, a)"
  using SplitN2_first [of n a] by (simp add: networkAndAddress_def)

lemma endpointScheme_cases:
  "endpointScheme config =
     (if fst (networkAndAddress (listener_of config)) = ''unix'' then ''unix'' else ''http'') @
     (if has_tls (ServerTLSConfig config) then ''s'' else [])"
  by (simp add: endpointScheme_def Let_def)

lemma endpointScheme_no_colon: "CHR '':'' \<notin> set (endpointScheme config)"
  by (simp add: endpointScheme_cases)

lemma endpointScheme_unix:
  "HasPrefix (endpointScheme config) ''unix'' \<longleftrightarrow> fst (networkAndAddress (listener_of config)) = ''unix''"
  by (simp add: endpointScheme_cases HasPrefix_def)

lemma SplitHostPort_plain:
  assumes "\<forall>c \<in> set host. c \<notin> set '':[]''" "\<forall>c \<in> set port. c \<notin> set '':[]''"
  shows "SplitHostPort_port (host @ CHR '':'' # port) = Some port"
proof -
  have "takeWhile (\<lambda>c. c \<noteq> CHR '':'') (rev (host @ CHR '':'' # port)) = rev port"
    using assms(2) by (simp add: takeWhile_append)
  moreover have "hd (host @ CHR '':'' # port) \<noteq> CHR ''[''"
    using assms(1) by (cases host) auto
  ultimately show ?thesis using assms by (auto simp: SplitHostPort_port_def Let_def)
qed

lemma SplitHostPort_bracketed:
  assumes "\<forall>c \<in> set host. c \<notin> set ''[]''" "\<forall>c \<in> set port. c \<notin> set '':[]''"
  shows "SplitHostPort_port (''['' @ host @ '']:'' @ port) = Some port"
proof -
  have "takeWhile (\<lambda>c. c \<noteq> CHR '':'') (rev (''['' @ host @ '']:'' @ port)) = rev port"
    using assms(2) by (simp add: takeWhile_append)
  moreover have "takeWhile (\<lambda>c. c \<noteq> CHR '']'') (host @ '']:'' @ port) = host"
    using assms(1) by (subst takeWhile_append2) auto
  ultimately show ?thesis using assms by (auto simp: SplitHostPort_port_def Let_def)
qed

lemma ParseStorageEndpoint_etcd:
  "fst (ParseStorageEndpoint e) = ''etcd3'' \<longleftrightarrow>
     fst (networkAndAddress e) \<in> {''http'', ''https'', ''etcd3''}"
  by (auto simp: ParseStorageEndpoint_def split: prod.splits if_splits)

text \<open>
  An endpoint with an HTTP scheme is an existing etcd: \<open>Listen\<close> gives its addresses back, in
  their order and with leader election, and starts nothing.
\<close>

lemma listen_etcd:
  assumes "scheme \<in> {''http'', ''https''}" "cfg_Endpoint cfg = scheme @ ''://'' @ address"
  shows "\<exists>ec. Listen ds h cfg w = Some (Inr (ec, None), w) \<and>
    Join (Endpoints ec) (CHR '','') = cfg_Endpoint cfg \<and> (\<forall>e \<in> set (Endpoints ec). CHR '','' \<notin> set e) \<and>
    LeaderElect ec \<and> etcd_TLSConfig ec = BackendTLSConfig cfg"
proof -
  have "CHR '':'' \<notin> set scheme" using assms(1) by auto
  then have "networkAndAddress (cfg_Endpoint cfg) = (scheme, address)"
    using assms(2) networkAndAddress_scheme by metis
  with assms(1) have "ParseStorageEndpoint (cfg_Endpoint cfg) = (''etcd3'', address)"
    by (auto simp: ParseStorageEndpoint_def)
  then show ?thesis
    by (simp add: Listen_def Join_Split Split_parts)
qed

text \<open>What has happened when \<open>Listen\<close> serves a backend.\<close>

lemma Listen_backend:
  assumes "Listen ds h cfg w = Some (Inr (ec, Some b), w')"
  obtains driver dsn leaderelect w1 addr where "ParseStorageEndpoint (cfg_Endpoint cfg) = (driver, dsn)"
    and "getKineStorageBackend ds driver dsn cfg w = Some (Inr (leaderelect, b), w1)"
    and "ec = \<lparr>Endpoints = [endpointURL cfg addr], etcd_TLSConfig = no_tls, LeaderElect = leaderelect\<rparr>"
proof -
  obtain driver dsn where p: "ParseStorageEndpoint (cfg_Endpoint cfg) = (driver, dsn)" by fastforce
  have ne: "driver \<noteq> ''etcd3''" using assms p by (auto simp: Listen_def)
  with assms p obtain r w1 where g0: "getKineStorageBackend ds driver dsn cfg w = Some (r, w1)"
    by (auto simp: Listen_def bind_Some_iff)
  obtain leaderelect b' where r: "r = Inr (leaderelect, b')"
    using assms p ne g0 by (cases r) (auto simp: Listen_def)
  obtain w2 w3 where m: "(if cfg_MetricsRegisterer cfg then MustRegister h w1 else Some ((), w1)) = Some ((), w2)"
    "b_Start b' w2 = Some (None, w3)"
    using assms p ne g0 r by (auto simp: Listen_def bind_Some_iff split: option.split_asm if_split_asm)
  obtain err w4 where gs: "grpcServer h cfg w3 = (err, w4)" by fastforce
  obtain l w5 where cl: "createListener h cfg w4 = (l, w5)" by fastforce
  obtain addr where b': "b' = b"
    and ec: "ec = \<lparr>Endpoints = [endpointURL cfg addr], etcd_TLSConfig = no_tls, LeaderElect = leaderelect\<rparr>"
    using assms p ne g0 r m gs cl
    by (cases err; cases l) (auto simp: Listen_def Let_def split: if_split_asm)
  with p g0 r show thesis by (intro that) simp_all
qed

section \<open>Properties\<close>

text \<open>
  C25: when \<open>Listen\<close> serves a backend, the storage endpoint named one of the six drivers, leader
  election is needed unless it is sqlite, and the one endpoint of the answer has the scheme of the
  listener and, unless the listener is a unix socket, an address on the loopback interface.
\<close>

theorem listen_serves:
  assumes "Listen ds h cfg w = Some (Inr (ec, Some b), w')"
  shows "\<exists>driver dsn address. ParseStorageEndpoint (cfg_Endpoint cfg) = (driver, dsn) \<and>
    driver \<in> {''sqlite'', ''dqlite'', ''postgres'', ''mysql'', ''jetstream'', ''nats''} \<and>
    (LeaderElect ec \<longleftrightarrow> driver \<noteq> ''sqlite'') \<and>
    Endpoints ec = [endpointScheme cfg @ ''://'' @ address] \<and>
    networkAndAddress (hd (Endpoints ec)) = (endpointScheme cfg, address) \<and>
    (endpointScheme cfg \<in> {''unix'', ''unixs''} \<or>
     endpointScheme cfg \<in> {''http'', ''https''} \<and> HasPrefix address ''127.0.0.1:'')"
proof -
  obtain driver dsn leaderelect w1 addr where p: "ParseStorageEndpoint (cfg_Endpoint cfg) = (driver, dsn)"
    and g: "getKineStorageBackend ds driver dsn cfg w = Some (Inr (leaderelect, b), w1)"
    and ec: "ec = \<lparr>Endpoints = [endpointURL cfg addr], etcd_TLSConfig = no_tls, LeaderElect = leaderelect\<rparr>"
    by (rule Listen_backend [OF assms])
  from g have d: "driver \<in> {''sqlite'', ''dqlite'', ''postgres'', ''mysql'', ''jetstream'', ''nats''}"
    "leaderelect \<longleftrightarrow> driver \<noteq> ''sqlite''"
    by (auto simp: getKineStorageBackend_def Let_def bind_Some_iff split: if_splits option.splits)
  obtain address where u: "endpointURL cfg addr = endpointScheme cfg @ ''://'' @ address"
    "HasPrefix (endpointScheme cfg) ''unix'' \<or> HasPrefix address ''127.0.0.1:''"
    by (auto simp: endpointURL_def Let_def HasPrefix_def split: if_splits)
  have "networkAndAddress (endpointURL cfg addr) = (endpointScheme cfg, address)"
    unfolding u(1) by (rule networkAndAddress_scheme [OF endpointScheme_no_colon])
  with p d ec u show ?thesis
    by (auto simp: endpointScheme_cases HasPrefix_def)
qed

text \<open>A host on which every call succeeds, and drivers that all give one backend.\<close>

definition calm_host :: "string \<Rightarrow> 'w host" where
  "calm_host addr =
     \<lparr>os_Remove = (\<lambda>_ w. (None, w)), os_Chmod = (\<lambda>_ w. (None, w)),
      net_Listen = (\<lambda>_ _ w. (Inr addr, w)), NewServerTLSFromFile = (\<lambda>_ _ w. (None, w)),
      MustRegister = (\<lambda>w. Some ((), w))\<rparr>"

definition one_backend :: "'w Backend \<Rightarrow> 'w drivers" where
  "one_backend b =
     (let new = (\<lambda>_ _ w. Some ((b, None), w))
      in \<lparr>sqlite_New = new, dqlite_New = new, pgsql_New = new, mysql_New = new,
          nats_NewLegacy = new, nats_New = new\<rparr>)"

definition plain_config :: "string \<Rightarrow> string \<Rightarrow> Config" where
  "plain_config listener e =
     \<lparr>cfg_GRPCServer = False, cfg_Listener = listener, cfg_Endpoint = e,
      cfg_ConnectionPoolConfig = \<lparr>MaxIdle = 0, MaxOpen = 0, MaxLifetime = 0\<rparr>,
      ServerTLSConfig = no_tls, BackendTLSConfig = no_tls, cfg_MetricsRegisterer = True\<rparr>"

theorem listen_serves_witness:
  "\<exists>ec. Listen (one_backend three_backend) (calm_host ''[::]:2379'')
      (plain_config ''tcp://0.0.0.0:2379'' ''postgres://user@db/kine'') [] =
      Some (Inr (ec, Some three_backend), []) \<and>
    ParseStorageEndpoint ''postgres://user@db/kine'' = (''postgres'', ''user@db/kine'') \<and>
    LeaderElect ec \<and> Endpoints ec = [''http://127.0.0.1:2379'']"
proof -
  let ?cfg = "plain_config ''tcp://0.0.0.0:2379'' ''postgres://user@db/kine''"
  have start: "b_Start three_backend [] = Some (None, [])" by (simp add: three_backend_def)
  have parse: "ParseStorageEndpoint ''postgres://user@db/kine'' = (''postgres'', ''user@db/kine'')" by code_simp
  have url: "endpointURL ?cfg ''[::]:2379'' = ''http://127.0.0.1:2379''" by code_simp
  let ?ec = "\<lparr>Endpoints = [''http://127.0.0.1:2379''], etcd_TLSConfig = no_tls, LeaderElect = True\<rparr>"
  have "createListener (calm_host ''[::]:2379'') ?cfg w = (Inr ''[::]:2379'', w)" for w :: "string list"
    by (simp add: createListener_def calm_host_def split: prod.splits)
  then have l: "Listen (one_backend three_backend) (calm_host ''[::]:2379'') ?cfg [] =
      Some (Inr (?ec, Some three_backend), [])"
    using start parse url
    by (simp add: Listen_def plain_config_def getKineStorageBackend_def one_backend_def grpcServer_def
        calm_host_def no_tls_def has_tls_def Let_def)
  from listen_serves [OF this] parse l show ?thesis by auto
qed

end
