(* ===== verification/NatsKv.thy ===== *)
theory NatsKv
  imports Codec Interfaces "HOL-Library.Sublist"
begin

text \<open>
  The key-value store of the NATS driver (\<open>pkg/drivers/nats/kv\<close>): the interface
  \<open>nats.KeyValue\<close> of the client library, whose bucket is a parameter, and \<open>EncodedKV\<close>, the
  wrapper of this repository that encodes keys as subjects and compresses values. The contract
  \<open>js_bucket\<close> states what the library documents of a bucket.
\<close>

section \<open>The interface\<close>

datatype KeyValueOp = KeyValuePut | KeyValueDelete | KeyValuePurge

text \<open>
  \<open>e_Value\<close> is a slice, \<open>None\<close> for nil; a revision is an unsigned 64-bit number; the time of
  creation counts nanoseconds.
\<close>

record KeyValueEntry =
  e_Key :: string
  e_Value :: "bytes option"
  e_Revision :: int
  e_Created :: int
  e_Operation :: KeyValueOp

text \<open>The fields of the bucket's status and of its stream's state that the driver reads.\<close>

record KeyValueStatus =
  st_Bytes :: int
  st_FirstSeq :: int
  st_LastSeq :: int

text \<open>
  A watcher is the sequence of its updates: the entries that the bucket holds, a nil, and then the
  entries that are written. The two flags of a watch are the options \<open>IgnoreDeletes\<close> and
  \<open>MetaOnly\<close>.
\<close>

record 'w nats_KeyValue =
  kv_Get :: "string \<Rightarrow> 'w \<Rightarrow> (go_error + KeyValueEntry) \<times> 'w"
  kv_GetRevision :: "string \<Rightarrow> int \<Rightarrow> 'w \<Rightarrow> (go_error + KeyValueEntry) \<times> 'w"
  kv_Put :: "string \<Rightarrow> bytes \<Rightarrow> 'w \<Rightarrow> (go_error + int) \<times> 'w"
  kv_Create :: "string \<Rightarrow> bytes \<Rightarrow> 'w \<Rightarrow> (go_error + int) \<times> 'w"
  kv_Update :: "string \<Rightarrow> bytes \<Rightarrow> int \<Rightarrow> 'w \<Rightarrow> (go_error + int) \<times> 'w"
  kv_Delete :: "string \<Rightarrow> 'w \<Rightarrow> go_error option \<times> 'w"
  kv_Purge :: "string \<Rightarrow> 'w \<Rightarrow> go_error option \<times> 'w"
  kv_Watch :: "string \<Rightarrow> bool \<Rightarrow> bool \<Rightarrow> 'w \<Rightarrow> (go_error + KeyValueEntry option list) \<times> 'w"
  kv_WatchAll :: "bool \<Rightarrow> bool \<Rightarrow> 'w \<Rightarrow> (go_error + KeyValueEntry option list) \<times> 'w"
  kv_Keys :: "'w \<Rightarrow> (go_error + string list) \<times> 'w"
  kv_History :: "string \<Rightarrow> 'w \<Rightarrow> (go_error + KeyValueEntry list) \<times> 'w"
  kv_PurgeDeletes :: "'w \<Rightarrow> go_error option \<times> 'w"
  kv_Status :: "'w \<Rightarrow> (go_error + KeyValueStatus) \<times> 'w"

section \<open>Codecs\<close>

record KeyCodec =
  kc_Encode :: "string \<Rightarrow> go_error + string"
  kc_Decode :: "string \<Rightarrow> go_error + string"
  kc_EncodeRange :: "string \<Rightarrow> go_error + string"

text \<open>
  A value codec writes into a buffer. Decoding yields the error and the content of the buffer, which
  is nil when nothing has been written.
\<close>

record ValueCodec =
  vc_Encode :: "bytes \<Rightarrow> go_error + bytes"
  vc_Decode :: "bytes \<Rightarrow> go_error option \<times> bytes option"

definition EtcdKeyCodec :: "(string \<Rightarrow> string) \<Rightarrow> (string \<Rightarrow> go_error + string) \<Rightarrow> KeyCodec" where
  "EtcdKeyCodec enc dec =
     \<lparr>kc_Encode = Encode enc, kc_Decode = Decode dec, kc_EncodeRange = EncodeRange enc\<rparr>"

definition PlainCodec :: ValueCodec where
  "PlainCodec =
     \<lparr>vc_Encode = Inr, vc_Decode = (\<lambda>b. (None, if b = [] then None else Some b))\<rparr>"

text \<open>
  The compression library is a parameter: whether it accepts a buffer, what has been written when its
  writer is closed, and what a reader of a text copies, with its error.
\<close>

record s2 =
  s2_EncodeBuffer :: "bytes \<Rightarrow> go_error option"
  s2_Close :: "bytes \<Rightarrow> go_error + bytes"
  s2_Copy :: "bytes \<Rightarrow> go_error option \<times> bytes"

definition S2ValueCodec :: "s2 \<Rightarrow> ValueCodec" where
  "S2ValueCodec s =
     \<lparr>vc_Encode = (\<lambda>src. case s2_EncodeBuffer s src of Some e \<Rightarrow> Inl e | None \<Rightarrow> s2_Close s src),
      vc_Decode = (\<lambda>b. case s2_Copy s b of (err, dst) \<Rightarrow> (err, if dst = [] then None else Some dst))\<rparr>"

section \<open>Entries and watchers\<close>

text \<open>An entry decodes its key and value when it is asked; errors are logged only.\<close>

definition entry_Key :: "KeyCodec \<Rightarrow> KeyValueEntry \<Rightarrow> string" where
  "entry_Key kc e = (case kc_Decode kc (e_Key e) of Inl _ \<Rightarrow> [] | Inr dk \<Rightarrow> dk)"

definition entry_Value :: "ValueCodec \<Rightarrow> KeyValueEntry \<Rightarrow> bytes option" where
  "entry_Value vc e = snd (vc_Decode vc (case e_Value e of None \<Rightarrow> [] | Some b \<Rightarrow> b))"

definition entry :: "KeyCodec \<Rightarrow> ValueCodec \<Rightarrow> KeyValueEntry \<Rightarrow> KeyValueEntry" where
  "entry kc vc e = e\<lparr>e_Key := entry_Key kc e, e_Value := entry_Value vc e\<rparr>"

lemma entry_simps [simp]:
  "e_Key (entry kc vc e) = entry_Key kc e" "e_Value (entry kc vc e) = entry_Value vc e"
  "e_Revision (entry kc vc e) = e_Revision e" "e_Created (entry kc vc e) = e_Created e"
  "e_Operation (entry kc vc e) = e_Operation e"
  by (simp_all add: entry_def)

definition newWatcher ::
  "KeyCodec \<Rightarrow> ValueCodec \<Rightarrow> KeyValueEntry option list \<Rightarrow> KeyValueEntry option list" where
  "newWatcher kc vc updates = map (map_option (entry kc vc)) updates"

section \<open>EncodedKV\<close>

definition EncodedKV_Get ::
  "'w nats_KeyValue \<Rightarrow> KeyCodec \<Rightarrow> ValueCodec \<Rightarrow> string \<Rightarrow> 'w \<Rightarrow> (go_error + KeyValueEntry) \<times> 'w" where
  "EncodedKV_Get B kc vc key w =
     (case kc_Encode kc key of
        Inl e \<Rightarrow> (Inl e, w)
      | Inr ek \<Rightarrow> (case kv_Get B ek w of (r, w) \<Rightarrow> (map_sum id (entry kc vc) r, w)))"

definition EncodedKV_GetRevision ::
  "'w nats_KeyValue \<Rightarrow> KeyCodec \<Rightarrow> ValueCodec \<Rightarrow> string \<Rightarrow> int \<Rightarrow> 'w \<Rightarrow>
   (go_error + KeyValueEntry) \<times> 'w" where
  "EncodedKV_GetRevision B kc vc key revision w =
     (case kc_Encode kc key of
        Inl e \<Rightarrow> (Inl e, w)
      | Inr ek \<Rightarrow>
          (case kv_GetRevision B ek revision w of (r, w) \<Rightarrow> (map_sum id (entry kc vc) r, w)))"

text \<open>The three writes share their shape: encode the key, encode the value, call the bucket.\<close>

definition EncodedKV_Put ::
  "'w nats_KeyValue \<Rightarrow> KeyCodec \<Rightarrow> ValueCodec \<Rightarrow> string \<Rightarrow> bytes \<Rightarrow> 'w \<Rightarrow> (go_error + int) \<times> 'w" where
  "EncodedKV_Put B kc vc key val w =
     (case kc_Encode kc key of
        Inl e \<Rightarrow> (Inl e, w)
      | Inr ek \<Rightarrow> (case vc_Encode vc val of Inl e \<Rightarrow> (Inl e, w) | Inr buf \<Rightarrow> kv_Put B ek buf w))"

definition EncodedKV_Create ::
  "'w nats_KeyValue \<Rightarrow> KeyCodec \<Rightarrow> ValueCodec \<Rightarrow> string \<Rightarrow> bytes \<Rightarrow> 'w \<Rightarrow> (go_error + int) \<times> 'w" where
  "EncodedKV_Create B kc vc key val w =
     (case kc_Encode kc key of
        Inl e \<Rightarrow> (Inl e, w)
      | Inr ek \<Rightarrow> (case vc_Encode vc val of Inl e \<Rightarrow> (Inl e, w) | Inr buf \<Rightarrow> kv_Create B ek buf w))"

definition EncodedKV_Update ::
  "'w nats_KeyValue \<Rightarrow> KeyCodec \<Rightarrow> ValueCodec \<Rightarrow> string \<Rightarrow> bytes \<Rightarrow> int \<Rightarrow> 'w \<Rightarrow>
   (go_error + int) \<times> 'w" where
  "EncodedKV_Update B kc vc key val lst w =
     (case kc_Encode kc key of
        Inl e \<Rightarrow> (Inl e, w)
      | Inr ek \<Rightarrow>
          (case vc_Encode vc val of Inl e \<Rightarrow> (Inl e, w) | Inr buf \<Rightarrow> kv_Update B ek buf lst w))"

definition EncodedKV_Delete ::
  "'w nats_KeyValue \<Rightarrow> KeyCodec \<Rightarrow> string \<Rightarrow> 'w \<Rightarrow> go_error option \<times> 'w" where
  "EncodedKV_Delete B kc key w =
     (case kc_Encode kc key of Inl e \<Rightarrow> (Some e, w) | Inr ek \<Rightarrow> kv_Delete B ek w)"

definition EncodedKV_Purge ::
  "'w nats_KeyValue \<Rightarrow> KeyCodec \<Rightarrow> string \<Rightarrow> 'w \<Rightarrow> go_error option \<times> 'w" where
  "EncodedKV_Purge B kc key w =
     (case kc_Encode kc key of Inl e \<Rightarrow> (Some e, w) | Inr ek \<Rightarrow> kv_Purge B ek w)"

definition EncodedKV_Watch ::
  "'w nats_KeyValue \<Rightarrow> KeyCodec \<Rightarrow> ValueCodec \<Rightarrow> string \<Rightarrow> bool \<Rightarrow> bool \<Rightarrow> 'w \<Rightarrow>
   (go_error + KeyValueEntry option list) \<times> 'w" where
  "EncodedKV_Watch B kc vc keys ignoreDeletes metaOnly w =
     (case kc_EncodeRange kc keys of
        Inl e \<Rightarrow> (Inl e, w)
      | Inr ek \<Rightarrow>
          (case kv_Watch B ek ignoreDeletes metaOnly w of (r, w) \<Rightarrow> (map_sum id (newWatcher kc vc) r, w)))"

definition EncodedKV_History ::
  "'w nats_KeyValue \<Rightarrow> KeyCodec \<Rightarrow> ValueCodec \<Rightarrow> string \<Rightarrow> 'w \<Rightarrow>
   (go_error + KeyValueEntry list) \<times> 'w" where
  "EncodedKV_History B kc vc key w =
     (case kc_Encode kc key of
        Inl e \<Rightarrow> (Inl e, w)
      | Inr ek \<Rightarrow> (case kv_History B ek w of (r, w) \<Rightarrow> (map_sum id (map (entry kc vc)) r, w)))"

text \<open>A key that does not decode stays in the result, as the empty string.\<close>

definition EncodedKV_Keys :: "'w nats_KeyValue \<Rightarrow> KeyCodec \<Rightarrow> 'w \<Rightarrow> (go_error + string list) \<times> 'w" where
  "EncodedKV_Keys B kc w =
     (case kv_Keys B w of
        (r, w) \<Rightarrow> (map_sum id (map (\<lambda>k. case kc_Decode kc k of Inl _ \<Rightarrow> [] | Inr dk \<Rightarrow> dk)) r, w))"

definition NewEncodedKV :: "'w nats_KeyValue \<Rightarrow> KeyCodec \<Rightarrow> ValueCodec \<Rightarrow> 'w nats_KeyValue" where
  "NewEncodedKV B kc vc =
     \<lparr>kv_Get = EncodedKV_Get B kc vc, kv_GetRevision = EncodedKV_GetRevision B kc vc,
      kv_Put = EncodedKV_Put B kc vc, kv_Create = EncodedKV_Create B kc vc,
      kv_Update = EncodedKV_Update B kc vc, kv_Delete = EncodedKV_Delete B kc,
      kv_Purge = EncodedKV_Purge B kc, kv_Watch = EncodedKV_Watch B kc vc,
      kv_WatchAll = kv_WatchAll B, kv_Keys = EncodedKV_Keys B kc,
      kv_History = EncodedKV_History B kc vc, kv_PurgeDeletes = kv_PurgeDeletes B,
      kv_Status = kv_Status B\<rparr>"

lemma NewEncodedKV_simps [simp]:
  "kv_Get (NewEncodedKV B kc vc) = EncodedKV_Get B kc vc"
  "kv_GetRevision (NewEncodedKV B kc vc) = EncodedKV_GetRevision B kc vc"
  "kv_Put (NewEncodedKV B kc vc) = EncodedKV_Put B kc vc"
  "kv_Create (NewEncodedKV B kc vc) = EncodedKV_Create B kc vc"
  "kv_Update (NewEncodedKV B kc vc) = EncodedKV_Update B kc vc"
  "kv_Delete (NewEncodedKV B kc vc) = EncodedKV_Delete B kc"
  "kv_Watch (NewEncodedKV B kc vc) = EncodedKV_Watch B kc vc"
  "kv_History (NewEncodedKV B kc vc) = EncodedKV_History B kc vc"
  "kv_Status (NewEncodedKV B kc vc) = kv_Status B"
  by (simp_all add: NewEncodedKV_def)

section \<open>The contract of a bucket\<close>

text \<open>A key is live when its last entry is a value and not a deletion.\<close>

definition live :: "KeyValueEntry list \<Rightarrow> bool" where
  "live h \<longleftrightarrow> h \<noteq> [] \<and> e_Operation (last h) = KeyValuePut"

definition live_last :: "KeyValueEntry list \<Rightarrow> go_error + KeyValueEntry" where
  "live_last h = (if live h then Inr (last h) else Inl ErrKeyNotFound)"

definition value_at :: "int \<Rightarrow> KeyValueEntry list \<Rightarrow> go_error + KeyValueEntry" where
  "value_at r h =
     (case find (\<lambda>e. e_Revision e = r) h of
        Some e \<Rightarrow> (if e_Operation e = KeyValuePut then Inr e else Inl ErrKeyNotFound)
      | None \<Rightarrow> Inl ErrKeyNotFound)"

text \<open>
  An entry that is appended to the history of a key: it gets the next sequence number, and the
  history may lose old entries at its start (a bucket keeps a fixed number of them).
\<close>

definition appended ::
  "('w \<Rightarrow> string \<Rightarrow> KeyValueEntry list) \<Rightarrow> ('w \<Rightarrow> int) \<Rightarrow> string \<Rightarrow> KeyValueEntry \<Rightarrow> 'w \<Rightarrow> 'w \<Rightarrow> bool" where
  "appended hist sq k e w w' \<longleftrightarrow>
     e_Key e = k \<and> e_Revision e = sq w + 1 \<and> sq w' = sq w + 1 \<and>
     (\<exists>h. suffix h (hist w k) \<and> hist w' = (hist w)(k := h @ [e]))"

text \<open>The entries of a watcher up to the nil that ends the content of the bucket.\<close>

definition initial_entries :: "KeyValueEntry option list \<Rightarrow> KeyValueEntry list" where
  "initial_entries updates = map the (takeWhile (\<lambda>u. u \<noteq> None) updates)"

lemma initial_entries_newWatcher [simp]:
  "initial_entries (newWatcher kc vc ups) = map (entry kc vc) (initial_entries ups)"
  by (induction ups) (auto simp: initial_entries_def newWatcher_def)

text \<open>The content of a watcher of a pattern that ignores deletions.\<close>

definition watches ::
  "('w \<Rightarrow> string \<Rightarrow> KeyValueEntry list) \<Rightarrow> (string \<Rightarrow> bool) \<Rightarrow> bool \<Rightarrow> 'w \<Rightarrow> KeyValueEntry option list \<Rightarrow> bool" where
  "watches hist sel metaOnly w ups \<longleftrightarrow>
     (let es = initial_entries ups
      in None \<in> set ups \<and> distinct (map e_Key es) \<and> e_Key ` set es = {k. live (hist w k) \<and> sel k} \<and>
        (\<not> metaOnly \<longrightarrow> (\<forall>e \<in> set es. e = last (hist w (e_Key e)))))"

locale js_bucket =
  fixes B :: "'w nats_KeyValue"
    and good :: "'w \<Rightarrow> bool"
    and hist :: "'w \<Rightarrow> string \<Rightarrow> KeyValueEntry list"
    and sq :: "'w \<Rightarrow> int"
    and key_ok :: "string \<Rightarrow> bool"
    and val_ok :: "bytes \<Rightarrow> bool"
    and selects :: "string \<Rightarrow> (string \<Rightarrow> bool) option"
  assumes get: "good w \<Longrightarrow> key_ok k \<Longrightarrow> kv_Get B k w = (live_last (hist w k), w)"
    and get_revision: "good w \<Longrightarrow> key_ok k \<Longrightarrow> kv_GetRevision B k r w = (value_at r (hist w k), w)"
    and history: "good w \<Longrightarrow> key_ok k \<Longrightarrow>
       kv_History B k w = (if hist w k = [] then Inl ErrKeyNotFound else Inr (hist w k), w)"
    and put: "good w \<Longrightarrow> sq w + 1 < 2 ^ 63 \<Longrightarrow> key_ok k \<Longrightarrow> val_ok v \<Longrightarrow>
       \<exists>w' e. kv_Put B k v w = (Inr (sq w + 1), w') \<and> good w' \<and> appended hist sq k e w w' \<and>
         e_Value e = Some v \<and> e_Operation e = KeyValuePut"
    and create: "good w \<Longrightarrow> sq w + 1 < 2 ^ 63 \<Longrightarrow> key_ok k \<Longrightarrow> val_ok v \<Longrightarrow> \<not> live (hist w k) \<Longrightarrow>
       \<exists>w' e. kv_Create B k v w = (Inr (sq w + 1), w') \<and> good w' \<and> appended hist sq k e w w' \<and>
         e_Value e = Some v \<and> e_Operation e = KeyValuePut"
    and create_live: "good w \<Longrightarrow> key_ok k \<Longrightarrow> val_ok v \<Longrightarrow> live (hist w k) \<Longrightarrow>
       \<exists>err w'. kv_Create B k v w = (Inl err, w') \<and> good w' \<and> hist w' = hist w \<and> sq w' = sq w"
    and delete: "good w \<Longrightarrow> sq w + 1 < 2 ^ 63 \<Longrightarrow> key_ok k \<Longrightarrow>
       \<exists>w' e. kv_Delete B k w = (None, w') \<and> good w' \<and> appended hist sq k e w w' \<and>
         e_Operation e = KeyValueDelete"
    and status: "good w \<Longrightarrow> \<exists>st. kv_Status B w = (Inr st, w) \<and> st_LastSeq st = sq w"
    and watch: "good w \<Longrightarrow> selects pat = Some sel \<Longrightarrow>
       \<exists>ups. kv_Watch B pat True metaOnly w = (Inr ups, w) \<and> watches hist sel metaOnly w ups"
    and entries: "good w \<Longrightarrow> e \<in> set (hist w k) \<Longrightarrow>
       key_ok k \<and> e_Key e = k \<and> 0 < e_Revision e \<and> e_Revision e \<le> sq w \<and>
       (if e_Operation e = KeyValuePut then e_Value e \<noteq> None else e_Value e \<in> {None, Some []})"
    and ascending: "good w \<Longrightarrow> sorted_wrt (<) (map e_Revision (hist w k))"
    and sq_range: "good w \<Longrightarrow> 0 \<le> sq w \<and> sq w < 2 ^ 63"
begin

lemma appended_live:
  "appended hist sq k e w w' \<Longrightarrow> e_Operation e = KeyValuePut \<Longrightarrow> live (hist w' k) \<and> last (hist w' k) = e"
  by (auto simp: appended_def live_def)

lemma appended_dead:
  "appended hist sq k e w w' \<Longrightarrow> e_Operation e = KeyValueDelete \<Longrightarrow> \<not> live (hist w' k)"
  by (auto simp: appended_def live_def)

lemma live_entry:
  "good w \<Longrightarrow> live (hist w k) \<Longrightarrow> \<exists>v. e_Value (last (hist w k)) = Some v \<and>
     e_Key (last (hist w k)) = k \<and> 0 < e_Revision (last (hist w k)) \<and> e_Revision (last (hist w k)) \<le> sq w"
  using entries [of w "last (hist w k)" k] by (auto simp: live_def)

end

end
