(* ===== verification/Nats.thy ===== *)
theory Nats
  imports NatsKv LogStructured "HOL-Library.List_Lexorder" "HOL-Library.Char_ord"
begin

text \<open>
  The NATS driver (\<open>pkg/drivers/nats/nats.go\<close>), a second implementation of \<open>server.Backend\<close>: every
  version of a key is a JSON value in a JetStream key-value bucket, and a revision is the sequence
  number that the bucket gives the value. The bucket, the JSON encoder and the clock are
  parameters. Logging and the measurement of slow methods are left out, and so is the locking of
  folders but for the choice of the lock.
\<close>

section \<open>Values\<close>

record JSValue =
  js_KV :: "KeyValue option"
  js_PrevRevision :: int64
  js_Create :: bool
  js_Delete :: bool

definition JSValue_zero :: JSValue where
  "JSValue_zero = \<lparr>js_KV = None, js_PrevRevision = 0, js_Create = False, js_Delete = False\<rparr>"

text \<open>\<open>json.Marshal\<close> and \<open>json.Unmarshal\<close> into a fresh value, which can be filled in part on an error.\<close>

record json =
  Marshal :: "JSValue \<Rightarrow> go_error + bytes"
  Unmarshal :: "bytes \<Rightarrow> JSValue \<times> go_error option"

text \<open>The driver: its store, its encoder, and \<open>time.Now\<close> in nanoseconds.\<close>

record 'w Driver =
  drv_kv :: "'w nats_KeyValue"
  drv_json :: json
  drv_Now :: "'w \<Rightarrow> int"

text \<open>
  The driver that \<open>newBackend\<close> returns once the bucket is open: the bucket behind \<open>EncodedKV\<close> with the
  key codec of etcd and compressed values.
\<close>

definition newDriver ::
  "'w nats_KeyValue \<Rightarrow> (string \<Rightarrow> string) \<Rightarrow> (string \<Rightarrow> go_error + string) \<Rightarrow> s2 \<Rightarrow> json \<Rightarrow> ('w \<Rightarrow> int) \<Rightarrow> 'w Driver" where
  "newDriver bucket enc dec s j now =
     \<lparr>drv_kv = NewEncodedKV bucket (EtcdKeyCodec enc dec) (S2ValueCodec s), drv_json = j, drv_Now = now\<rparr>"

lemma newDriver_simps [simp]:
  "drv_kv (newDriver bucket enc dec s j now) = NewEncodedKV bucket (EtcdKeyCodec enc dec) (S2ValueCodec s)"
  "drv_json (newDriver bucket enc dec s j now) = j" "drv_Now (newDriver bucket enc dec s j now) = now"
  by (simp_all add: newDriver_def)

text \<open>A decoded value without \<open>KV\<close> makes the assignment of the revision panic.\<close>

definition decode :: "json \<Rightarrow> KeyValueEntry \<Rightarrow> (JSValue \<times> go_error option) option" where
  "decode j e =
     (case e_Value e of
        None \<Rightarrow> Some (JSValue_zero, None)
      | Some b \<Rightarrow>
          (case Unmarshal j b of
             (v, Some err) \<Rightarrow> Some (v, Some err)
           | (v, None) \<Rightarrow>
               (case js_KV v of
                  None \<Rightarrow> None
                | Some kv \<Rightarrow> Some (v\<lparr>js_KV := Some (kv\<lparr>ModRevision := i64 (e_Revision e)\<rparr>)\<rparr>, None))))"

section \<open>Locks\<close>

text \<open>
  The first match of \<open>(/[^/]*/[^/]*)(/.*)?\<close> and its first group: the text from the first slash up to
  the third one.
\<close>

definition getTopLevelKey :: "string \<Rightarrow> string" where
  "getTopLevelKey key =
     (let slash = CHR ''/'';
          t = tl (dropWhile (\<lambda>c. c \<noteq> slash) key);
          u = dropWhile (\<lambda>c. c \<noteq> slash) t
      in if u = [] then []
         else slash # takeWhile (\<lambda>c. c \<noteq> slash) t @ slash # takeWhile (\<lambda>c. c \<noteq> slash) (tl u))"

text \<open>
  \<open>lockFolder\<close> makes the mutex of a folder when it is used for the first time; a key outside the
  folders locks nothing. The result names the mutex that is held until the operation ends.
\<close>

definition lockFolder :: "string \<Rightarrow> string set \<Rightarrow> string option \<times> string set" where
  "lockFolder key subMus =
     (let folder = getTopLevelKey key
      in if folder = [] then (None, subMus) else (Some folder, insert folder subMus))"

section \<open>Reading\<close>

definition nats_currentRevision :: "'w Driver \<Rightarrow> 'w \<Rightarrow> (int64 \<times> go_error option) \<times> 'w" where
  "nats_currentRevision d w =
     (case kv_Status (drv_kv d) w of
        (Inl e, w) \<Rightarrow> ((0, Some e), w)
      | (Inr st, w) \<Rightarrow> ((i64 (st_LastSeq st), None), w))"

definition nats_compactRevision :: "'w Driver \<Rightarrow> 'w \<Rightarrow> (int64 \<times> go_error option) \<times> 'w" where
  "nats_compactRevision d w =
     (case kv_Status (drv_kv d) w of
        (Inl e, w) \<Rightarrow> ((0, Some e), w)
      | (Inr st, w) \<Rightarrow> ((i64 (st_FirstSeq st), None), w))"

text \<open>An expired key is deleted by whoever finds it; an error of the deletion is logged.\<close>

definition isKeyExpired :: "'w Driver \<Rightarrow> int \<Rightarrow> JSValue \<Rightarrow> ('w, bool) go" where
  "isKeyExpired d createTime v w = do {
     kv \<leftarrow> js_KV v;
     if Lease kv > 0 \<and> drv_Now d w > createTime + i64 (1000000000 * Lease kv)
     then (case kv_Delete (drv_kv d) (Key kv) w of (_, w) \<Rightarrow> Some (True, w))
     else Some (False, w)
   }"

text \<open>What both branches of \<open>get\<close> do with the entry that they have found.\<close>

definition get_entry ::
  "'w Driver \<Rightarrow> KeyValueEntry \<Rightarrow> bool \<Rightarrow> ('w, int64 \<times> JSValue option \<times> go_error option) go" where
  "get_entry d e includeDeletes w = do {
     (v, err) \<leftarrow> decode (drv_json d) e;
     if err \<noteq> None then Some ((0, None, err), w)
     else if js_Delete v \<and> \<not> includeDeletes then Some ((0, None, Some ErrKeyNotFound), w)
     else do {
       (expired, w) \<leftarrow> isKeyExpired d (e_Created e) v w;
       if expired then Some ((0, None, Some ErrKeyNotFound), w)
       else do {
         kv \<leftarrow> js_KV v;
         Some ((ModRevision kv, Some v, None), w)
       }
     }
   }"

definition nats_get ::
  "'w Driver \<Rightarrow> string \<Rightarrow> int64 \<Rightarrow> bool \<Rightarrow> ('w, int64 \<times> JSValue option \<times> go_error option) go" where
  "nats_get d key revision includeDeletes w =
     (case nats_compactRevision d w of ((_, err), w) \<Rightarrow>
        if err \<noteq> None then Some ((0, None, err), w)
        else
          (case (if revision \<le> 0 then kv_Get (drv_kv d) key w
                 else kv_GetRevision (drv_kv d) key revision w) of
             (Inl e, w) \<Rightarrow> Some ((0, None, Some e), w)
           | (Inr e, w) \<Rightarrow> get_entry d e includeDeletes w))"

definition nats_Get ::
  "'w Driver \<Rightarrow> string \<Rightarrow> string \<Rightarrow> int64 \<Rightarrow> int64 \<Rightarrow>
   ('w, int64 \<times> KeyValue option \<times> go_error option) go" where
  "nats_Get d key rangeEnd limit revision w =
     (case nats_currentRevision d w of ((currentRev, err), w) \<Rightarrow>
        if err \<noteq> None then Some ((currentRev, None, err), w)
        else do {
          ((rv, v, err), w) \<leftarrow> nats_get d key revision False w;
          if err = None
          then (case v of None \<Rightarrow> Some ((currentRev, None, None), w)
                | Some v \<Rightarrow> Some ((rv, js_KV v, None), w))
          else if err = Some ErrKeyNotFound then Some ((currentRev, None, None), w)
          else Some ((rv, None, err), w)
        })"

section \<open>Writing\<close>

text \<open>
  What a creation writes: \<open>prev\<close> is the deleted value that it replaces, whose entry \<open>Put\<close> overwrites;
  without one, the store's \<open>Create\<close> fails if somebody else has written the key meanwhile.
\<close>

definition create_value :: "string \<Rightarrow> bytes \<Rightarrow> int64 \<Rightarrow> int64 \<Rightarrow> JSValue" where
  "create_value key val lease prevRevision =
     \<lparr>js_KV = Some \<lparr>Key = key, CreateRevision = 0, ModRevision = 0, Value = val, Lease = lease\<rparr>,
      js_PrevRevision = prevRevision, js_Create = True, js_Delete = False\<rparr>"

definition nats_Create :: "'w Driver \<Rightarrow> string \<Rightarrow> bytes \<Rightarrow> int64 \<Rightarrow> ('w, int64 \<times> go_error option) go" where
  "nats_Create d key val lease w = do {
     ((rv, prev, err), w) \<leftarrow> nats_get d key 0 True w;
     if err \<noteq> None \<and> err \<noteq> Some ErrKeyNotFound then Some ((0, err), w)
     else case prev of
       Some p \<Rightarrow>
         (if \<not> js_Delete p then Some ((0, Some ErrKeyExists), w)
          else do {
            kv \<leftarrow> js_KV p;
            case Marshal (drv_json d) (create_value key val lease (ModRevision kv)) of
              Inl e \<Rightarrow> Some ((0, Some e), w)
            | Inr event \<Rightarrow>
                (case kv_Put (drv_kv d) key event w of
                   (Inl e, w) \<Rightarrow> Some ((0, Some e), w)
                 | (Inr sq, w) \<Rightarrow> Some ((i64 sq, None), w))
          })
     | None \<Rightarrow>
         (case Marshal (drv_json d) (create_value key val lease rv) of
            Inl e \<Rightarrow> Some ((0, Some e), w)
          | Inr event \<Rightarrow>
              (case kv_Create (drv_kv d) key event w of
                 (Inl e, w) \<Rightarrow> Some ((0, Some e), w)
               | (Inr sq, w) \<Rightarrow> Some ((i64 sq, None), w)))
   }"

text \<open>A deletion writes a last value that says so, and then deletes the key in the store.\<close>

definition nats_Delete ::
  "'w Driver \<Rightarrow> string \<Rightarrow> int64 \<Rightarrow> ('w, int64 \<times> KeyValue option \<times> bool \<times> go_error option) go" where
  "nats_Delete d key revision w = do {
     ((rv, v, err), w) \<leftarrow> nats_get d key 0 True w;
     if err \<noteq> None
     then (if err = Some ErrKeyNotFound then Some ((rv, None, True, None), w)
           else Some ((rv, None, False, err), w))
     else case v of
       None \<Rightarrow> Some ((rv, None, True, None), w)
     | Some v \<Rightarrow>
         if js_Delete v then Some ((rv, js_KV v, True, None), w)
         else do {
           stale \<leftarrow> (if revision \<noteq> 0
                     then map_option (\<lambda>kv. ModRevision kv \<noteq> revision) (js_KV v)
                     else Some False);
           if stale then Some ((rv, js_KV v, False, None), w)
           else case Marshal (drv_json d)
                  \<lparr>js_KV = js_KV v, js_PrevRevision = rv, js_Create = False, js_Delete = True\<rparr> of
             Inl e \<Rightarrow> Some ((rv, None, False, Some e), w)
           | Inr event \<Rightarrow>
               (case kv_Put (drv_kv d) key event w of
                  (Inl e, w) \<Rightarrow> Some ((rv, js_KV v, False, None), w)
                | (Inr deleteRev, w) \<Rightarrow>
                    (case kv_Delete (drv_kv d) key w of
                       (Some e, w) \<Rightarrow> Some ((rv, js_KV v, False, None), w)
                     | (None, w) \<Rightarrow> Some ((i64 deleteRev, js_KV v, True, None), w)))
         }
   }"

definition update_value :: "string \<Rightarrow> bytes \<Rightarrow> int64 \<Rightarrow> int64 \<Rightarrow> KeyValue \<Rightarrow> JSValue" where
  "update_value key val lease rv prev =
     \<lparr>js_KV = Some \<lparr>Key = key,
        CreateRevision = (if CreateRevision prev = 0 then rv else CreateRevision prev),
        ModRevision = 0, Value = val, Lease = lease\<rparr>,
      js_PrevRevision = ModRevision prev, js_Create = False, js_Delete = False\<rparr>"

definition nats_Update ::
  "'w Driver \<Rightarrow> string \<Rightarrow> bytes \<Rightarrow> int64 \<Rightarrow> int64 \<Rightarrow>
   ('w, int64 \<times> KeyValue option \<times> bool \<times> go_error option) go" where
  "nats_Update d key val revision lease w = do {
     ((rv, v, err), w) \<leftarrow> nats_get d key 0 False w;
     if err \<noteq> None
     then (if err = Some ErrKeyNotFound then Some ((rv, None, False, None), w)
           else Some ((rv, None, False, err), w))
     else case v of
       None \<Rightarrow> Some ((0, None, False, None), w)
     | Some v \<Rightarrow> do {
         prev \<leftarrow> js_KV v;
         if ModRevision prev \<noteq> revision then Some ((rv, js_KV v, False, None), w)
         else case Marshal (drv_json d) (update_value key val lease rv prev) of
           Inl e \<Rightarrow> Some ((0, None, False, Some e), w)
         | Inr event \<Rightarrow>
             (case kv_Put (drv_kv d) key event w of
                (Inl e, w) \<Rightarrow> Some ((0, None, False, Some e), w)
              | (Inr sq, w) \<Rightarrow>
                  Some ((i64 sq,
                    map_option (\<lambda>kv. kv\<lparr>ModRevision := i64 sq\<rparr>) (js_KV (update_value key val lease rv prev)),
                    True, None), w))
       }
   }"

section \<open>Listing\<close>

definition getKeyValues ::
  "'w Driver \<Rightarrow> string \<Rightarrow> bool \<Rightarrow> 'w \<Rightarrow> (go_error + KeyValueEntry list) \<times> 'w" where
  "getKeyValues d pre sortResults w =
     (case kv_Watch (drv_kv d) pre True False w of
        (Inl e, w) \<Rightarrow> (Inl e, w)
      | (Inr updates, w) \<Rightarrow>
          (Inr (if sortResults then sort_key e_Key (initial_entries updates)
                else initial_entries updates), w))"

definition getKeys :: "'w Driver \<Rightarrow> string \<Rightarrow> bool \<Rightarrow> 'w \<Rightarrow> (go_error + string list) \<times> 'w" where
  "getKeys d pre sortResults w =
     (case kv_Watch (drv_kv d) pre True True w of
        (Inl e, w) \<Rightarrow> (Inl e, w)
      | (Inr updates, w) \<Rightarrow>
          (let keys = map e_Key (initial_entries updates)
           in (Inr (if sortResults then sort keys else keys), w)))"

text \<open>The last entry of a history that is not newer than a revision.\<close>

definition entry_at :: "int64 \<Rightarrow> KeyValueEntry list \<Rightarrow> KeyValueEntry option" where
  "entry_at revision h = find (\<lambda>e. i64 (e_Revision e) \<le> revision) (rev h)"

text \<open>A listing of the current values, \<open>count\<close> of which it has found already.\<close>

fun list_current ::
  "'w Driver \<Rightarrow> int64 \<Rightarrow> int64 \<Rightarrow> KeyValueEntry list \<Rightarrow> ('w, KeyValue option list) go" where
  "list_current d limit count [] w = Some ([], w)"
| "list_current d limit count (e # es) w =
     (if count < limit \<or> limit = 0
      then do {
        (v, err) \<leftarrow> decode (drv_json d) e;
        (expired, w) \<leftarrow> isKeyExpired d (e_Created e) v w;
        if \<not> expired \<and> err = None
        then do {
          (kvs, w) \<leftarrow> list_current d limit (count + 1) es w;
          Some (js_KV v # kvs, w)
        }
        else list_current d limit count es w
      }
      else Some ([], w))"

text \<open>A listing at a revision; a key without a history is skipped.\<close>

fun list_at ::
  "'w Driver \<Rightarrow> int64 \<Rightarrow> int64 \<Rightarrow> int64 \<Rightarrow> string list \<Rightarrow> ('w, KeyValue option list) go" where
  "list_at d limit revision count [] w = Some ([], w)"
| "list_at d limit revision count (key # keys) w =
     (if count < limit \<or> limit = 0
      then (case kv_History (drv_kv d) key w of
         (Inl _, w) \<Rightarrow> list_at d limit revision count keys w
       | (Inr history, w) \<Rightarrow>
           (case entry_at revision history of
              None \<Rightarrow> list_at d limit revision count keys w
            | Some e \<Rightarrow> do {
                (v, err) \<leftarrow> decode (drv_json d) e;
                if err \<noteq> None then list_at d limit revision count keys w
                else do {
                  (kvs, w) \<leftarrow> list_at d limit revision (count + 1) keys w;
                  Some (js_KV v # kvs, w)
                }
              }))
      else list_at d limit revision count keys w)"

text \<open>The histories of the keys after the start key, and one step of the search through them.\<close>

fun read_histories :: "'w Driver \<Rightarrow> string \<Rightarrow> string list \<Rightarrow> 'w \<Rightarrow> KeyValueEntry list list \<times> 'w" where
  "read_histories d startKey [] w = ([], w)"
| "read_histories d startKey (key # keys) w =
     (if key = startKey then read_histories d startKey keys w
      else (case kv_History (drv_kv d) key w of
         (Inl _, w) \<Rightarrow> read_histories d startKey keys w
       | (Inr h, w) \<Rightarrow> (case read_histories d startKey keys w of (hs, w) \<Rightarrow> (h # hs, w))))"

definition next_step ::
  "int64 \<Rightarrow> KeyValueEntry list \<Rightarrow> int64 \<times> KeyValueEntry option \<Rightarrow> int64 \<times> KeyValueEntry option" where
  "next_step revision h nxt =
     (let newer = (\<lambda>e. i64 (e_Revision e) > fst nxt \<and> i64 (e_Revision e) \<le> revision)
      in case find (\<lambda>e. newer e \<or> i64 (e_Revision e) \<le> fst nxt) (rev h) of
           None \<Rightarrow> nxt
         | Some e \<Rightarrow> (if newer e then (i64 (e_Revision e), Some e) else nxt))"

text \<open>
  The branch of \<open>List\<close> with a start key. Go's iteration over the map of histories has no fixed order;
  here the history of the start key is the first one.
\<close>

definition list_from ::
  "'w Driver \<Rightarrow> string \<Rightarrow> string \<Rightarrow> int64 \<Rightarrow> int64 \<Rightarrow>
   ('w, int64 \<times> KeyValue option list \<times> go_error option) go" where
  "list_from d pre startKey rv revision w =
     (case kv_History (drv_kv d) startKey w of
        (Inl e, w) \<Rightarrow> Some ((0, [], Some e), w)
      | (Inr entries, w) \<Rightarrow>
          (let minRev = (case entry_at revision entries of None \<Rightarrow> 0 | Some e \<Rightarrow> i64 (e_Revision e))
           in case getKeys d pre True w of
                (Inl e, w) \<Rightarrow> Some ((0, [], Some e), w)
              | (Inr keys, w) \<Rightarrow>
                  (case read_histories d startKey keys w of (hs, w) \<Rightarrow>
                     (case fold (next_step revision) (entries # hs) (minRev, None) of
                        (_, None) \<Rightarrow> Some ((rv, [], None), w)
                      | (_, Some e) \<Rightarrow> do {
                          (v, err) \<leftarrow> decode (drv_json d) e;
                          if err \<noteq> None then Some ((0, [], err), w)
                          else Some ((rv, [js_KV v], None), w)
                        }))))"

definition nats_List ::
  "'w Driver \<Rightarrow> string \<Rightarrow> string \<Rightarrow> int64 \<Rightarrow> int64 \<Rightarrow>
   ('w, int64 \<times> KeyValue option list \<times> go_error option) go" where
  "nats_List d pre startKey limit revision w =
     (let startKey = (if HasSuffix pre ''/'' \<and> (pre = startKey \<or> HasPrefix pre startKey) then []
                      else startKey)
      in case nats_currentRevision d w of ((rv, err), w) \<Rightarrow>
        if err \<noteq> None then Some ((0, [], err), w)
        else if startKey \<noteq> [] then list_from d pre startKey rv revision w
        else if revision = 0
        then (case getKeyValues d pre True w of
           (Inl e, w) \<Rightarrow> Some ((0, [], Some e), w)
         | (Inr entries, w) \<Rightarrow> do {
             (kvs, w) \<leftarrow> list_current d limit 0 entries w;
             Some ((rv, kvs, None), w)
           })
        else (case getKeys d pre True w of
           (Inl e, w) \<Rightarrow> Some ((0, [], Some e), w)
         | (Inr keys, w) \<Rightarrow> do {
             (kvs, w) \<leftarrow> list_at d limit revision 0 keys w;
             Some ((revision, kvs, None), w)
           }))"

definition nats_Count :: "'w Driver \<Rightarrow> string \<Rightarrow> ('w, int64 \<times> int64 \<times> go_error option) go" where
  "nats_Count d pre w =
     (case getKeys d pre False w of
        (Inl e, w) \<Rightarrow> Some ((0, 0, Some e), w)
      | (Inr keys, w) \<Rightarrow>
          (case nats_currentRevision d w of
             ((_, Some e), w) \<Rightarrow> Some ((0, 0, Some e), w)
           | ((currentRev, None), w) \<Rightarrow> Some ((currentRev, int (length keys), None), w)))"

section \<open>Watching\<close>

fun events_after :: "'w Driver \<Rightarrow> int64 \<Rightarrow> KeyValueEntry list \<Rightarrow> ('w, Event list) go" where
  "events_after d revision [] w = Some ([], w)"
| "events_after d revision (e # es) w = do {
     (v, err) \<leftarrow> decode (drv_json d) e;
     if err = None \<and> i64 (e_Revision e) > revision
     then do {
       kv \<leftarrow> js_KV v;
       ((_, prevKV, err), w) \<leftarrow> nats_Get d (Key kv) [] 1 (js_PrevRevision v) w;
       (events, w) \<leftarrow> events_after d revision es w;
       Some (\<lparr>Delete = js_Delete v, Create = js_Create v, KV = js_KV v,
              PrevKV = (if err = None \<and> prevKV \<noteq> None then prevKV else Some KeyValue_zero)\<rparr> # events, w)
     }
     else events_after d revision es w
   }"

definition listAfter ::
  "'w Driver \<Rightarrow> string \<Rightarrow> int64 \<Rightarrow> ('w, int64 \<times> Event list \<times> go_error option) go" where
  "listAfter d pre revision w =
     (case getKeyValues d pre False w of
        (Inl e, w) \<Rightarrow> Some ((0, [], Some e), w)
      | (Inr entries, w) \<Rightarrow>
          (case nats_currentRevision d w of
             ((_, Some e), w) \<Rightarrow> Some ((0, [], Some e), w)
           | ((rv, None), w) \<Rightarrow> do {
               (events, w) \<leftarrow> events_after d revision entries w;
               Some ((if revision \<noteq> 0 then revision else rv, events, None), w)
             }))"

text \<open>
  The updates of the watcher: one batch for each entry after the revision. The previous value is
  looked up even when the entry could not be decoded.
\<close>

fun watch_updates ::
  "'w Driver \<Rightarrow> int64 \<Rightarrow> KeyValueEntry option list \<Rightarrow> ('w, Event list list) go" where
  "watch_updates d revision [] w = Some ([], w)"
| "watch_updates d revision (None # us) w = watch_updates d revision us w"
| "watch_updates d revision (Some i # us) w =
     (if i64 (e_Revision i) > revision
      then do {
        (v, err) \<leftarrow> decode (drv_json d) i;
        ((_, prev, prevErr), w) \<leftarrow> nats_get d (e_Key i) (js_PrevRevision v) False w;
        (batches, w) \<leftarrow> watch_updates d revision us w;
        Some (if err = None
              then [\<lparr>Delete = js_Delete v, Create = js_Create v, KV = js_KV v,
                     PrevKV = (case prev of
                        Some p \<Rightarrow> (if prevErr = None then js_KV p else Some KeyValue_zero)
                      | None \<Rightarrow> Some KeyValue_zero)\<rparr>] # batches
              else batches, w)
      }
      else watch_updates d revision us w)"

text \<open>
  The batches that the channel delivers until its context is cancelled; the channel is never closed.
  A watcher that could not be made is nil, and the goroutine panics on it.
\<close>

definition nats_Watch :: "'w Driver \<Rightarrow> string \<Rightarrow> int64 \<Rightarrow> ('w, Event list list) go" where
  "nats_Watch d pre revision w =
     (case kv_Watch (drv_kv d) pre True False w of (watcher, w) \<Rightarrow>
        (let revision = (if revision > 0 then i64 (revision - 1) else revision) in do {
          ((_, events, _), w) \<leftarrow> listAfter d pre revision w;
          revision \<leftarrow> (if events \<noteq> [] then map_option ModRevision (KV (last events)) else Some revision);
          case watcher of
            Inl _ \<Rightarrow> None
          | Inr updates \<Rightarrow> do {
              (batches, w) \<leftarrow> watch_updates d revision updates w;
              Some (if events \<noteq> [] then events # batches else batches, w)
            }
        }))"

section \<open>The backend\<close>

definition nats_DbSize :: "'w Driver \<Rightarrow> ('w, int64 \<times> go_error option) go" where
  "nats_DbSize d w =
     (case kv_Status (drv_kv d) w of
        (Inl e, w) \<Rightarrow> Some ((-1, Some e), w)
      | (Inr st, w) \<Rightarrow> Some ((i64 (st_Bytes st), None), w))"

definition nats_Start :: "'w Driver \<Rightarrow> ('w, go_error option) go" where
  "nats_Start d w = do {
     (_, w) \<leftarrow> nats_Create d ''/registry/health'' health_value 0 w;
     Some (None, w)
   }"

text \<open>
  The entry before another one in the history of its key, if it is a value. The function has no
  caller.
\<close>

definition getPreviousEntry ::
  "'w Driver \<Rightarrow> KeyValueEntry \<Rightarrow> 'w \<Rightarrow> KeyValueEntry option \<times> 'w" where
  "getPreviousEntry d e w =
     (case kv_History (drv_kv d) (e_Key e) w of
        (Inl _, w) \<Rightarrow> (None, w)
      | (Inr entries, w) \<Rightarrow>
          (case dropWhile (\<lambda>x. e_Revision x \<noteq> e_Revision e) (rev entries) of
             _ # p # _ \<Rightarrow> (if e_Operation p = KeyValuePut then Some p else None, w)
           | _ \<Rightarrow> (None, w)))"

definition nats_backend :: "'w Driver \<Rightarrow> 'w Backend" where
  "nats_backend d =
     \<lparr>b_Start = nats_Start d, b_Get = nats_Get d, b_Create = nats_Create d, b_Delete = nats_Delete d,
      b_List = nats_List d, b_Count = nats_Count d, b_Update = nats_Update d, b_Watch = nats_Watch d,
      b_DbSize = nats_DbSize d\<rparr>"

end
