(* ===== verification/EncodedBucket.thy ===== *)
theory EncodedBucket
  imports NatsKv
begin

text \<open>
  \<open>EncodedKV\<close> on a bucket keeps the contract \<open>js_bucket\<close> of the bucket, for plain paths as keys and
  directories as patterns: a refinement of the bucket over subjects by the store over paths. The end
  of the theory holds a bucket in memory that keeps the contract, for the examples.
\<close>

section \<open>Subjects and paths\<close>

text \<open>
  What a subject may look like, and which subjects a pattern selects: all that continue the text
  before a final \<open>>\<close>, or the subject itself.
\<close>

definition is_alnum :: "char \<Rightarrow> bool" where
  "is_alnum c \<longleftrightarrow> (let n = of_char c :: nat
     in 48 \<le> n \<and> n \<le> 57 \<or> 65 \<le> n \<and> n \<le> 90 \<or> 97 \<le> n \<and> n \<le> 122)"

definition subject_ok :: "string \<Rightarrow> bool" where
  "subject_ok s \<longleftrightarrow> s \<noteq> [] \<and> hd s \<noteq> CHR ''.'' \<and> last s \<noteq> CHR ''.'' \<and>
     (\<forall>c \<in> set s. is_alnum c \<or> c \<in> set ''-/_=.'')"

definition subject_selects :: "string \<Rightarrow> (string \<Rightarrow> bool) option" where
  "subject_selects pat =
     (if HasSuffix pat ''.>'' \<and> subject_ok (TrimSuffix pat ''.>'')
      then Some (\<lambda>s. HasPrefix s (TrimSuffix pat ''>'') \<and> length s \<ge> length pat)
      else if subject_ok pat then Some (\<lambda>s. s = pat) else None)"

text \<open>What the codec relies on: the alphabet of Base58 has letters and digits only, and an empty part is encoded as an empty text.\<close>

definition base58_full :: "(string \<Rightarrow> string) \<Rightarrow> (string \<Rightarrow> go_error + string) \<Rightarrow> bool" where
  "base58_full enc dec \<longleftrightarrow>
     (\<forall>s. dec (enc s) = Inr s \<and> (\<forall>c \<in> set (enc s). is_alnum c)) \<and> enc [] = []"

definition values_ok :: "ValueCodec \<Rightarrow> bool" where
  "values_ok vc \<longleftrightarrow>
     (\<forall>v. v \<noteq> [] \<longrightarrow> (\<exists>b. vc_Encode vc v = Inr b \<and> vc_Decode vc b = (None, Some v))) \<and>
     snd (vc_Decode vc []) = None"

lemma PlainCodec_ok: "values_ok PlainCodec"
  by (simp add: values_ok_def PlainCodec_def)

definition s2_ok :: "s2 \<Rightarrow> bool" where
  "s2_ok s \<longleftrightarrow>
     (\<forall>v. s2_EncodeBuffer s v = None \<and> (\<exists>b. s2_Close s v = Inr b \<and> s2_Copy s b = (None, v))) \<and>
     s2_Copy s [] = (None, [])"

lemma S2ValueCodec_ok: "s2_ok s \<Longrightarrow> values_ok (S2ValueCodec s)"
  by (fastforce simp: s2_ok_def values_ok_def S2ValueCodec_def)

text \<open>The keys and the directories of the store: paths of parts that are neither empty nor wildcards.\<close>

definition parts_of :: "string \<Rightarrow> string list" where
  "parts_of key = Split (tl key) (CHR ''/'')"

definition plain_path :: "string \<Rightarrow> bool" where
  "plain_path key \<longleftrightarrow> path_ok key \<and> [] \<notin> set (parts_of key)"

definition plain_dir :: "string \<Rightarrow> bool" where
  "plain_dir p \<longleftrightarrow> HasSuffix p ''/'' \<and> plain_path (TrimSuffix p ''/'')"

definition path_selects :: "string \<Rightarrow> (string \<Rightarrow> bool) option" where
  "path_selects p =
     (if plain_dir p then Some (\<lambda>k. HasPrefix k p)
      else if plain_path p then Some (\<lambda>k. k = p) else None)"

definition subject_of :: "(string \<Rightarrow> string) \<Rightarrow> string \<Rightarrow> string" where
  "subject_of enc key = Join (map enc (parts_of key)) (CHR ''.'')"

lemma is_alnum_plain [simp]: "\<not> is_alnum CHR ''.''" "\<not> is_alnum CHR ''>''" "\<not> is_alnum CHR ''*''"
  by (simp_all add: is_alnum_def)

lemma base58_full_ok: "base58_full enc dec \<Longrightarrow> base58_ok enc dec"
  by (metis base58_full_def base58_ok_def is_alnum_plain(1))

lemma base58_inj: "base58_full enc dec \<Longrightarrow> enc s = enc t \<Longrightarrow> s = t"
  by (metis base58_full_def sum.inject(2))

lemma base58_Nil: "base58_full enc dec \<Longrightarrow> enc s = [] \<longleftrightarrow> s = []"
  by (metis base58_full_def base58_inj)

lemma Encode_plain [simp]: "plain_path k \<Longrightarrow> Encode enc k = Inr (subject_of enc k)"
  by (simp add: plain_path_def Encode_path subject_of_def parts_of_def)

lemma Decode_subject: "base58_full enc dec \<Longrightarrow> plain_path k \<Longrightarrow> Decode dec (subject_of enc k) = Inr k"
  by (simp add: plain_path_def Decode_path base58_full_ok subject_of_def parts_of_def)

lemma subject_inj:
  "base58_full enc dec \<Longrightarrow> plain_path k \<Longrightarrow> plain_path l \<Longrightarrow> subject_of enc k = subject_of enc l \<Longrightarrow> k = l"
  by (metis Decode_subject sum.inject(2))

lemma Split_Join_append:
  "parts \<noteq> [] \<Longrightarrow> \<forall>p \<in> set parts. sep \<notin> set p \<Longrightarrow>
     Split (Join parts sep @ sep # t) sep = parts @ Split t sep"
proof (induction parts)
  case (Cons p parts)
  then show ?case by (cases parts) (simp_all add: Split_append)
qed simp

lemma Join_append:
  "xs \<noteq> [] \<Longrightarrow> ys \<noteq> [] \<Longrightarrow> Join (xs @ ys) sep = Join xs sep @ sep # Join ys sep"
proof (induction xs)
  case (Cons x xs)
  then show ?case by (cases xs; cases ys) simp_all
qed simp

text \<open>A text of parts continues another one exactly when its parts do.\<close>

lemma prefix_parts:
  assumes "xs \<noteq> []" "ys \<noteq> []" "\<forall>p \<in> set xs. sep \<notin> set p" "\<forall>p \<in> set ys. sep \<notin> set p"
  shows "(\<exists>t. Join xs sep = Join ys sep @ sep # t) \<longleftrightarrow> (\<exists>zs. zs \<noteq> [] \<and> xs = ys @ zs)"
proof
  assume "\<exists>t. Join xs sep = Join ys sep @ sep # t"
  then obtain t where "Join xs sep = Join ys sep @ sep # t" by blast
  then have "xs = ys @ Split t sep"
    using Split_Join [OF assms(1,3)] Split_Join_append [OF assms(2,4), of t] by simp
  then show "\<exists>zs. zs \<noteq> [] \<and> xs = ys @ zs" by (intro exI [of _ "Split t sep"]) simp
next
  assume "\<exists>zs. zs \<noteq> [] \<and> xs = ys @ zs"
  then show "\<exists>t. Join xs sep = Join ys sep @ sep # t" using assms(2) by (auto simp: Join_append)
qed


text \<open>Characters, first and last of a joined text.\<close>

lemma set_Join: "set (Join parts sep) \<subseteq> \<Union> (set ` set parts) \<union> {sep}"
  by (induction parts sep rule: Join.induct) auto

lemma Join_ends:
  "parts \<noteq> [] \<Longrightarrow> [] \<notin> set parts \<Longrightarrow>
     Join parts sep \<noteq> [] \<and> hd (Join parts sep) = hd (hd parts) \<and> last (Join parts sep) = last (last parts)"
  by (induction parts sep rule: Join.induct) (auto simp: hd_append)

lemma parts_of_plain:
  assumes "plain_path k"
  shows "parts_of k \<noteq> []" "[] \<notin> set (parts_of k)" "\<forall>p \<in> set (parts_of k). CHR ''/'' \<notin> set p"
    "k = CHR ''/'' # Join (parts_of k) (CHR ''/'')"
  using assms Split_parts [of _ "tl k" "CHR ''/''"]
  by (cases k; auto simp: plain_path_def path_ok_def parts_of_def Join_Split)+

lemma enc_part:
  "base58_full enc dec \<Longrightarrow> c \<in> set (enc p) \<Longrightarrow> is_alnum c" "base58_full enc dec \<Longrightarrow> CHR ''.'' \<notin> set (enc p)"
  by (auto simp: base58_full_def) (metis is_alnum_plain(1))

lemma map_enc_plain:
  assumes "base58_full enc dec" "plain_path k"
  shows "map enc (parts_of k) \<noteq> []" "[] \<notin> set (map enc (parts_of k))"
    "\<forall>p \<in> set (map enc (parts_of k)). CHR ''.'' \<notin> set p"
  using parts_of_plain(1,2) [OF assms(2)] enc_part(2) [OF assms(1)]
  by (auto simp: base58_Nil [OF assms(1)] dest: sym)

lemma subject_ok_subject_of:
  assumes "base58_full enc dec" "plain_path k"
  shows "subject_ok (subject_of enc k)"
proof -
  note p = map_enc_plain [OF assms]
  let ?ps = "map enc (parts_of k)"
  have ends: "hd ?ps \<in> set ?ps" "last ?ps \<in> set ?ps" using p(1) by (rule hd_in_set, rule last_in_set)
  then have "hd (hd ?ps) \<noteq> CHR ''.''" "last (last ?ps) \<noteq> CHR ''.''"
    using p(2,3) by (metis hd_in_set, metis last_in_set)
  moreover have "\<forall>c \<in> set (subject_of enc k). is_alnum c \<or> c \<in> set ''-/_=.''"
    using set_Join [of ?ps "CHR ''.''"] enc_part(1) [OF assms(1)] by (fastforce simp: subject_of_def)
  ultimately show ?thesis
    using Join_ends [OF p(1,2), of "CHR ''.''"] unfolding subject_ok_def subject_of_def by simp
qed

lemma subject_last: "subject_ok s \<Longrightarrow> \<not> HasSuffix s ''.''"
  by (simp add: subject_ok_def HasSuffix_single)

lemma subject_no_wildcard: "subject_ok s \<Longrightarrow> \<not> HasSuffix s ''.>''"
proof
  assume "subject_ok s" "HasSuffix s ''.>''"
  then have "CHR ''>'' \<in> set s" and "\<forall>c \<in> set s. is_alnum c \<or> c \<in> set ''-/_=.''"
    by (auto simp: HasSuffix_iff subject_ok_def)
  then show False by (auto dest!: bspec)
qed

lemma EncodeRange_path:
  "base58_full enc dec \<Longrightarrow> plain_path k \<Longrightarrow> EncodeRange enc k = Inr (subject_of enc k)"
  using subject_last [OF subject_ok_subject_of] by (simp add: EncodeRange_def)

lemma TrimSuffix_append [simp]: "TrimSuffix (s @ p) p = s"
  by (simp add: TrimSuffix_def)

lemma plain_dirE:
  assumes "plain_dir p"
  obtains d where "p = d @ ''/''" "plain_path d"
  using assms by (auto simp: plain_dir_def HasSuffix_iff)

lemma Split_snoc_sep: "Split (s @ [sep]) sep = Split s sep @ [[]]"
proof (induction s)
  case (Cons c s)
  then show ?case by (cases "Split s sep") auto
qed simp

lemma EncodeRange_dir:
  assumes "base58_full enc dec" "plain_path d"
  shows "EncodeRange enc (d @ ''/'') = Inr (subject_of enc d @ ''.>'')"
proof -
  obtain t where d: "d = CHR ''/'' # t" using assms(2) by (cases d) (auto simp: plain_path_def path_ok_def)
  have split: "Split (tl (d @ ''/'')) (CHR ''/'') = parts_of d @ [[]]"
    by (simp add: d parts_of_def Split_snoc_sep)
  have "path_ok (d @ ''/'')"
    using assms(2) split by (auto simp: plain_path_def path_ok_def parts_of_def)
  then have "Encode enc (d @ ''/'') = Inr (Join (map enc (parts_of d) @ [[]]) (CHR ''.''))"
    using assms(1) by (simp add: Encode_path split base58_full_def)
  also have "Join (map enc (parts_of d) @ [[]]) (CHR ''.'') = subject_of enc d @ ''.''"
    using map_enc_plain(1) [OF assms] by (simp add: Join_append subject_of_def)
  finally show ?thesis by (simp add: EncodeRange_def HasSuffix_single)
qed

text \<open>The subjects below a directory are those of the paths below it.\<close>

lemma subjects_of_dir:
  assumes "base58_full enc dec" "plain_path d" "plain_path k"
  shows "HasPrefix (subject_of enc k) (subject_of enc d @ ''.'') \<longleftrightarrow> HasPrefix k (d @ ''/'')"
proof -
  note e = map_enc_plain [OF assms(1,2)] and f = map_enc_plain [OF assms(1,3)]
    and p = parts_of_plain [OF assms(2)] and q = parts_of_plain [OF assms(3)]
  have "HasPrefix (subject_of enc k) (subject_of enc d @ ''.'') \<longleftrightarrow>
      (\<exists>zs. zs \<noteq> [] \<and> map enc (parts_of k) = map enc (parts_of d) @ zs)"
    using prefix_parts [OF f(1) e(1) f(3) e(3)] by (simp add: HasPrefix_iff subject_of_def)
  also have "\<dots> \<longleftrightarrow> (\<exists>zs. zs \<noteq> [] \<and> parts_of k = parts_of d @ zs)"
  proof -
    have inj: "inj enc" using base58_inj [OF assms(1)] by (auto simp: inj_def)
    have "parts_of k = parts_of d @ us" if "parts_of k = us' @ us" "map enc (parts_of d) = map enc us'" for us' us
      using that inj by (auto simp: inj_map_eq_map)
    then show ?thesis by (fastforce simp: map_eq_append_conv)
  qed
  also have "\<dots> \<longleftrightarrow> (\<exists>t. Join (parts_of k) (CHR ''/'') = Join (parts_of d) (CHR ''/'') @ CHR ''/'' # t)"
    using prefix_parts [OF q(1) p(1) q(3) p(3)] by simp
  also have "\<dots> \<longleftrightarrow> HasPrefix k (d @ ''/'')"
  proof -
    have "HasPrefix (CHR ''/'' # a) ((CHR ''/'' # b) @ ''/'') \<longleftrightarrow> (\<exists>t. a = b @ CHR ''/'' # t)" for a b
      by (simp add: HasPrefix_iff)
    from this [of "Join (parts_of k) (CHR ''/'')" "Join (parts_of d) (CHR ''/'')"] show ?thesis
      unfolding q(4) [symmetric] p(4) [symmetric] by simp
  qed
  finally show ?thesis .
qed

lemma subject_below_longer:
  assumes "subject_ok s" "HasPrefix s (d @ ''.'')"
  shows "length d + 2 \<le> length s"
proof -
  obtain t where s: "s = (d @ ''.'') @ t" using assms(2) by (auto simp: HasPrefix_iff)
  then have "t \<noteq> []" using subject_last [OF assms(1)] by (auto simp: HasSuffix_single)
  then show ?thesis by (cases t) (simp_all add: s)
qed

text \<open>What a watched pattern selects of the bucket is what the path or directory selects of the keys.\<close>

lemma watched_pattern:
  assumes "base58_full enc dec" "path_selects p = Some sel"
  shows "\<exists>pat sel0. EncodeRange enc p = Inr pat \<and> subject_selects pat = Some sel0 \<and>
     (\<forall>k. plain_path k \<longrightarrow> sel0 (subject_of enc k) = sel k) \<and> (\<forall>k. sel k \<longrightarrow> \<not> plain_dir p \<longrightarrow> plain_path k)"
proof (cases "plain_dir p")
  case True
  then obtain d where p: "p = d @ ''/''" and d: "plain_path d" by (rule plain_dirE)
  let ?s = "subject_of enc d"
  have "TrimSuffix (?s @ ''.>'') ''>'' = ?s @ ''.''" using TrimSuffix_append [of "?s @ ''.''" "''>''"] by simp
  then have "subject_selects (?s @ ''.>'') = Some (\<lambda>s. HasPrefix s (?s @ ''.'') \<and> length ?s + 2 \<le> length s)"
    using subject_ok_subject_of [OF assms(1) d] by (simp add: subject_selects_def)
  then show ?thesis
    using assms True EncodeRange_dir [OF assms(1) d] subjects_of_dir [OF assms(1) d]
      subject_below_longer [OF subject_ok_subject_of [OF assms(1)]]
    by (auto simp: path_selects_def p)
next
  case False
  with assms(2) have "plain_path p" "sel = (\<lambda>k. k = p)" by (auto simp: path_selects_def split: if_splits)
  then show ?thesis
    using EncodeRange_path [OF assms(1)] subject_ok_subject_of [OF assms(1)] subject_no_wildcard
      subject_inj [OF assms(1)]
    by (fastforce simp: subject_selects_def False)
qed

section \<open>The contract\<close>

definition enc_good ::
  "('w \<Rightarrow> bool) \<Rightarrow> ('w \<Rightarrow> string \<Rightarrow> KeyValueEntry list) \<Rightarrow> (string \<Rightarrow> string) \<Rightarrow> ValueCodec \<Rightarrow> 'w \<Rightarrow> bool" where
  "enc_good good hist enc vc w \<longleftrightarrow> good w \<and>
     (\<forall>s. \<forall>e \<in> set (hist w s). (\<exists>k. plain_path k \<and> s = subject_of enc k) \<and>
        (e_Operation e = KeyValuePut \<longrightarrow>
          (\<exists>v b. v \<noteq> [] \<and> vc_Encode vc v = Inr b \<and> e_Value e = Some b)))"

definition enc_hist ::
  "('w \<Rightarrow> string \<Rightarrow> KeyValueEntry list) \<Rightarrow> (string \<Rightarrow> string) \<Rightarrow> (string \<Rightarrow> go_error + string) \<Rightarrow>
   ValueCodec \<Rightarrow> 'w \<Rightarrow> string \<Rightarrow> KeyValueEntry list" where
  "enc_hist hist enc dec vc w k =
     (if plain_path k then map (entry (EtcdKeyCodec enc dec) vc) (hist w (subject_of enc k)) else [])"

locale encoded_bucket = js_bucket B good hist sq subject_ok "\<lambda>_. True" subject_selects
  for B :: "'w nats_KeyValue" and good :: "'w \<Rightarrow> bool"
    and hist :: "'w \<Rightarrow> string \<Rightarrow> KeyValueEntry list" and sq :: "'w \<Rightarrow> int" +
  fixes enc :: "string \<Rightarrow> string"
    and dec :: "string \<Rightarrow> go_error + string"
    and vc :: ValueCodec
  assumes base58: "base58_full enc dec"
    and codec: "values_ok vc"
begin

lemma encoded_simps:
  "plain_path k \<Longrightarrow> kc_Encode (EtcdKeyCodec enc dec) k = Inr (subject_of enc k)"
  "kc_EncodeRange (EtcdKeyCodec enc dec) = EncodeRange enc"
  "plain_path k \<Longrightarrow> subject_ok (subject_of enc k)"
  using subject_ok_subject_of [OF base58] by (simp_all add: EtcdKeyCodec_def)

lemma enc_live: "plain_path k \<Longrightarrow> live (enc_hist hist enc dec vc w k) \<longleftrightarrow> live (hist w (subject_of enc k))"
  by (cases "hist w (subject_of enc k) = []") (simp_all add: enc_hist_def live_def last_map)

lemma enc_live_last:
  "plain_path k \<Longrightarrow> live_last (enc_hist hist enc dec vc w k) =
     map_sum id (entry (EtcdKeyCodec enc dec) vc) (live_last (hist w (subject_of enc k)))"
  using enc_live [of k w] by (auto simp: live_last_def enc_hist_def last_map live_def)

lemma enc_value_at:
  "plain_path k \<Longrightarrow> value_at r (enc_hist hist enc dec vc w k) =
     map_sum id (entry (EtcdKeyCodec enc dec) vc) (value_at r (hist w (subject_of enc k)))"
  by (simp add: value_at_def enc_hist_def find_map_option comp_def split: option.split)

lemma entry_key:
  "plain_path k \<Longrightarrow> e_Key e = subject_of enc k \<Longrightarrow> entry_Key (EtcdKeyCodec enc dec) e = k"
  using Decode_subject [OF base58] by (simp add: entry_Key_def EtcdKeyCodec_def)

lemma entry_value:
  "vc_Encode vc v = Inr b \<Longrightarrow> v \<noteq> [] \<Longrightarrow> e_Value e = Some b \<Longrightarrow> entry_Value vc e = Some v"
  using codec by (auto simp: values_ok_def entry_Value_def)

lemma no_value:
  assumes "good w" "e \<in> set (enc_hist hist enc dec vc w k)" "e_Operation e \<noteq> KeyValuePut"
  shows "e_Value e = None"
proof -
  obtain f where f: "f \<in> set (hist w (subject_of enc k))" "e = entry (EtcdKeyCodec enc dec) vc f"
    using assms(2) by (auto simp: enc_hist_def split: if_splits)
  then have "e_Value f \<in> {None, Some []}" using entries [OF assms(1) f(1)] assms(3) by simp
  then show ?thesis using codec by (auto simp: f(2) entry_Value_def values_ok_def)
qed

text \<open>An entry that the bucket appends to a subject is one that the store appends to the path.\<close>

lemma enc_appended:
  assumes w: "enc_good good hist enc vc w" "good w'" and k: "plain_path k"
    and app: "appended hist sq (subject_of enc k) e w w'"
    and val: "e_Operation e = KeyValuePut \<Longrightarrow> \<exists>v b. v \<noteq> [] \<and> vc_Encode vc v = Inr b \<and> e_Value e = Some b"
  shows "enc_good good hist enc vc w' \<and>
     appended (enc_hist hist enc dec vc) sq k (entry (EtcdKeyCodec enc dec) vc e) w w'"
proof -
  obtain h where h: "suffix h (hist w (subject_of enc k))"
      "hist w' = (hist w)(subject_of enc k := h @ [e])"
      and e: "e_Key e = subject_of enc k" "e_Revision e = sq w + 1" "sq w' = sq w + 1"
    using app by (auto simp: appended_def)
  have "set h \<subseteq> set (hist w (subject_of enc k))" using h(1) by (rule set_mono_suffix)
  then have "enc_good good hist enc vc w'"
    using w val k unfolding enc_good_def h(2) by (auto split: if_splits)
  moreover have "enc_hist hist enc dec vc w' =
      (enc_hist hist enc dec vc w)(k := map (entry (EtcdKeyCodec enc dec) vc) h @ [entry (EtcdKeyCodec enc dec) vc e])"
    using k subject_inj [OF base58 _ k] by (fastforce simp: enc_hist_def h(2))
  moreover have "suffix (map (entry (EtcdKeyCodec enc dec) vc) h) (enc_hist hist enc dec vc w k)"
    using h(1) k by (auto simp: enc_hist_def suffix_def)
  ultimately show ?thesis by (auto simp: appended_def entry_key k e)
qed

lemma enc_watches:
  assumes w: "enc_good good hist enc vc w" and sel: "path_selects p = Some sel"
    and sub: "subject_selects pat = Some sel0" "\<forall>k. plain_path k \<longrightarrow> sel0 (subject_of enc k) = sel k"
    and ups: "watches hist sel0 metaOnly w ups"
  shows "watches (enc_hist hist enc dec vc) sel metaOnly w (newWatcher (EtcdKeyCodec enc dec) vc ups)"
proof -
  let ?en = "entry (EtcdKeyCodec enc dec) vc" and ?es = "initial_entries ups"
  have keys: "e_Key ` set ?es = {s. live (hist w s) \<and> sel0 s}" and dist: "distinct (map e_Key ?es)"
    using ups by (simp_all add: watches_def Let_def)
  have key: "\<exists>k. plain_path k \<and> e_Key e = subject_of enc k \<and> e_Key (?en e) = k \<and> live (hist w (subject_of enc k))"
    if "e \<in> set ?es" for e
  proof -
    have lv: "live (hist w (e_Key e))" using keys that by blast
    then have "last (hist w (e_Key e)) \<in> set (hist w (e_Key e))" by (simp add: live_def)
    then obtain k where "plain_path k" "e_Key e = subject_of enc k" using w by (auto simp: enc_good_def)
    then show ?thesis using entry_key lv by auto
  qed
  have "map e_Key ?es = map (subject_of enc) (map (\<lambda>e. e_Key (?en e)) ?es)"
    using key by fastforce
  with dist have "distinct (map (\<lambda>e. e_Key (?en e)) ?es)" by (metis distinct_map)
  moreover have "(\<lambda>e. e_Key (?en e)) ` set ?es = {k. live (enc_hist hist enc dec vc w k) \<and> sel k}"
    (is "?A = ?B")
  proof (rule set_eqI)
    fix k
    have "k \<in> ?A \<longleftrightarrow> plain_path k \<and> subject_of enc k \<in> e_Key ` set ?es"
    proof
      assume "k \<in> ?A"
      then obtain e where e: "e \<in> set ?es" "k = e_Key (?en e)" by blast
      with key [OF e(1)] have "plain_path k" "e_Key e = subject_of enc k" by auto
      with e(1) show "plain_path k \<and> subject_of enc k \<in> e_Key ` set ?es" by (metis image_eqI)
    next
      assume k: "plain_path k \<and> subject_of enc k \<in> e_Key ` set ?es"
      then obtain e where e: "e \<in> set ?es" "subject_of enc k = e_Key e" by blast
      obtain l where l: "plain_path l" "e_Key e = subject_of enc l" "e_Key (?en e) = l" using key [OF e(1)] by auto
      have "l = k"
        by (rule subject_inj [OF base58 l(1) conjunct1 [OF k]]) (rule trans [OF l(2) [symmetric] e(2) [symmetric]])
      then show "k \<in> ?A" using e(1) l(3) by (metis image_eqI)
    qed
    also have "\<dots> \<longleftrightarrow> k \<in> ?B"
      unfolding keys using sub(2) enc_live [of k w] by (auto simp: live_def enc_hist_def)
    finally show "k \<in> ?A \<longleftrightarrow> k \<in> ?B" .
  qed
  moreover have "last (enc_hist hist enc dec vc w (e_Key (?en e))) = ?en e" if "\<not> metaOnly" "e \<in> set ?es" for e
  proof -
    from key [OF that(2)] obtain k where k: "plain_path k" "e_Key e = subject_of enc k"
      "e_Key (?en e) = k" "live (hist w (subject_of enc k))" by auto
    have "e = last (hist w (subject_of enc k))" using ups that k(2) by (auto simp: watches_def Let_def)
    then show ?thesis using k by (simp add: enc_hist_def live_def last_map)
  qed
  moreover have "None \<in> set (newWatcher (EtcdKeyCodec enc dec) vc ups)"
    using ups by (force simp: watches_def Let_def newWatcher_def)
  ultimately show ?thesis by (auto simp: watches_def Let_def comp_def image_image)
qed

end

text \<open>
  The refinement: with the histories of the paths read off those of the subjects, \<open>EncodedKV\<close> keeps
  every law of a bucket, without the restriction of keys to subjects.
\<close>

sublocale encoded_bucket \<subseteq> paths: js_bucket "NewEncodedKV B (EtcdKeyCodec enc dec) vc"
  "enc_good good hist enc vc" "enc_hist hist enc dec vc" sq plain_path "\<lambda>v. v \<noteq> []" path_selects
proof
  let ?E = "NewEncodedKV B (EtcdKeyCodec enc dec) vc"
  let ?good = "enc_good good hist enc vc" and ?hist = "enc_hist hist enc dec vc"
  have good: "good w" if asm: "?good w" for w using asm by (simp add: enc_good_def)
  have vEnc: "\<exists>b. vc_Encode vc v = Inr b" if asm: "v \<noteq> []" for v using codec asm by (auto simp: values_ok_def)
  have wrote: "\<exists>w' e. r = (Inr (sq w + 1), w') \<and> ?good w' \<and> appended ?hist sq k e w w' \<and>
        e_Value e = Some v \<and> e_Operation e = KeyValuePut"
    if w: "?good w" and k: "plain_path k" and v: "v \<noteq> []" "vc_Encode vc v = Inr b"
      and ex: "\<exists>w' e. r = (Inr (sq w + 1), w') \<and> good w' \<and> appended hist sq (subject_of enc k) e w w' \<and>
        e_Value e = Some b \<and> e_Operation e = KeyValuePut" for w k v b r
  proof -
    obtain w' e where r: "r = (Inr (sq w + 1), w')" "good w'"
      and app: "appended hist sq (subject_of enc k) e w w'" "e_Value e = Some b" "e_Operation e = KeyValuePut"
      using ex by blast
    then show ?thesis
      using enc_appended [OF w r(2) k app(1)] entry_value [OF v(2,1) app(2)] v
      by (intro exI [of _ w'] exI [of _ "entry (EtcdKeyCodec enc dec) vc e"]) auto
  qed
  show "kv_Get ?E k w = (live_last (?hist w k), w)" if asm: "?good w" "plain_path k" for w k
    using asm good by (simp add: EncodedKV_Get_def encoded_simps get enc_live_last)
  show "kv_GetRevision ?E k r w = (value_at r (?hist w k), w)" if asm: "?good w" "plain_path k" for w k r
    using asm good by (simp add: EncodedKV_GetRevision_def encoded_simps get_revision enc_value_at)
  show "kv_History ?E k w = (if ?hist w k = [] then Inl ErrKeyNotFound else Inr (?hist w k), w)"
    if asm: "?good w" "plain_path k" for w k
    using asm good by (simp add: EncodedKV_History_def encoded_simps history enc_hist_def)
  show "\<exists>w' e. kv_Put ?E k v w = (Inr (sq w + 1), w') \<and> ?good w' \<and> appended ?hist sq k e w w' \<and>
         e_Value e = Some v \<and> e_Operation e = KeyValuePut"
    if asm: "?good w" "sq w + 1 < 2 ^ 63" "plain_path k" "v \<noteq> []" for w k v
  proof -
    obtain b where b: "vc_Encode vc v = Inr b" using vEnc asm(4) by blast
    show ?thesis
      using wrote [OF asm(1,3,4) b put [OF good [OF asm(1)] asm(2), of "subject_of enc k" b]] asm
      by (simp add: EncodedKV_Put_def encoded_simps b)
  qed
  show "\<exists>w' e. kv_Create ?E k v w = (Inr (sq w + 1), w') \<and> ?good w' \<and> appended ?hist sq k e w w' \<and>
         e_Value e = Some v \<and> e_Operation e = KeyValuePut"
    if asm: "?good w" "sq w + 1 < 2 ^ 63" "plain_path k" "v \<noteq> []" "\<not> live (?hist w k)" for w k v
  proof -
    obtain b where b: "vc_Encode vc v = Inr b" using vEnc asm(4) by blast
    show ?thesis
      using wrote [OF asm(1,3,4) b create [OF good [OF asm(1)] asm(2), of "subject_of enc k" b]] asm
      by (simp add: EncodedKV_Create_def encoded_simps b enc_live)
  qed
  show "\<exists>err w'. kv_Create ?E k v w = (Inl err, w') \<and> ?good w' \<and> ?hist w' = ?hist w \<and> sq w' = sq w"
    if asm: "?good w" "plain_path k" "v \<noteq> []" "live (?hist w k)" for w k v
  proof -
    obtain b where b: "vc_Encode vc v = Inr b" using vEnc asm(3) by blast
    obtain err w' where "kv_Create B (subject_of enc k) b w = (Inl err, w')" "good w'" "hist w' = hist w" "sq w' = sq w"
      using create_live [OF good [OF asm(1)], of "subject_of enc k" b] asm by (auto simp: encoded_simps enc_live)
    then show ?thesis
      using asm by (auto simp: EncodedKV_Create_def encoded_simps b enc_good_def enc_hist_def)
  qed
  show "\<exists>w' e. kv_Delete ?E k w = (None, w') \<and> ?good w' \<and> appended ?hist sq k e w w' \<and>
         e_Operation e = KeyValueDelete"
    if asm: "?good w" "sq w + 1 < 2 ^ 63" "plain_path k" for w k
  proof -
    obtain w' e where del: "kv_Delete B (subject_of enc k) w = (None, w')" "good w'"
        "appended hist sq (subject_of enc k) e w w'" "e_Operation e = KeyValueDelete"
      using delete [OF good [OF asm(1)] asm(2)] encoded_simps(3) [OF asm(3)] by blast
    then show ?thesis
      using enc_appended [OF asm(1) del(2) asm(3) del(3)] asm(3)
      by (intro exI [of _ w'] exI [of _ "entry (EtcdKeyCodec enc dec) vc e"])
        (auto simp: EncodedKV_Delete_def encoded_simps)
  qed
  show "\<exists>st. kv_Status ?E w = (Inr st, w) \<and> st_LastSeq st = sq w" if asm: "?good w" for w
    using status [OF good [OF asm]] by simp
  show "\<exists>ups. kv_Watch ?E p True metaOnly w = (Inr ups, w) \<and> watches ?hist sel metaOnly w ups"
    if asm: "?good w" "path_selects p = Some sel" for w p sel metaOnly
  proof -
    obtain pat sel0 where pat: "EncodeRange enc p = Inr pat" "subject_selects pat = Some sel0"
        "\<forall>k. plain_path k \<longrightarrow> sel0 (subject_of enc k) = sel k"
      using watched_pattern [OF base58 asm(2)] by blast
    obtain ups where "kv_Watch B pat True metaOnly w = (Inr ups, w)" "watches hist sel0 metaOnly w ups"
      using watch [OF good [OF asm(1)] pat(2)] by blast
    then show ?thesis
      using enc_watches [OF asm(1,2) pat(2,3)] by (simp add: EncodedKV_Watch_def encoded_simps pat)
  qed
  show "plain_path k \<and> e_Key e = k \<and> 0 < e_Revision e \<and> e_Revision e \<le> sq w \<and>
       (if e_Operation e = KeyValuePut then e_Value e \<noteq> None else e_Value e \<in> {None, Some []})"
    if asm: "?good w" "e \<in> set (?hist w k)" for w e k
  proof -
    have k: "plain_path k" using asm(2) by (auto simp: enc_hist_def split: if_splits)
    then obtain f where f: "f \<in> set (hist w (subject_of enc k))" "e = entry (EtcdKeyCodec enc dec) vc f"
      using asm(2) by (auto simp: enc_hist_def)
    have "e_Operation f = KeyValuePut \<longrightarrow> (\<exists>v b. v \<noteq> [] \<and> vc_Encode vc v = Inr b \<and> e_Value f = Some b)"
      using asm(1) f(1) by (auto simp: enc_good_def)
    then show ?thesis
      using k entries [OF good [OF asm(1)] f(1)] entry_key [OF k] no_value [OF good [OF asm(1)] asm(2)]
      by (auto simp: f(2) dest: entry_value)
  qed
  show "sorted_wrt (<) (map e_Revision (?hist w k))" if asm: "?good w" for w k
    using ascending [OF good [OF asm]] by (simp add: enc_hist_def comp_def)
  show "0 \<le> sq w \<and> sq w < 2 ^ 63" if asm: "?good w" for w
    using sq_range [OF good [OF asm]] .
qed

context encoded_bucket
begin

lemmas paths_bucket = paths.js_bucket_axioms

end

section \<open>A bucket in memory\<close>

text \<open>
  A bucket that keeps the contract, for the examples: the written values, the newest one first, with
  \<open>None\<close> for a deletion. It keeps every entry.
\<close>

type_synonym mem = "(string \<times> bytes option) list"

fun mem_hist :: "mem \<Rightarrow> string \<Rightarrow> KeyValueEntry list" where
  "mem_hist [] k = []"
| "mem_hist ((l, v) # xs) k =
     (if l = k
      then mem_hist xs k @ [\<lparr>e_Key = k, e_Value = v, e_Revision = int (length xs) + 1, e_Created = 0,
        e_Operation = (if v = None then KeyValueDelete else KeyValuePut)\<rparr>]
      else mem_hist xs k)"

definition mem_sq :: "mem \<Rightarrow> int" where
  "mem_sq w = int (length w)"

definition mem_good :: "mem \<Rightarrow> bool" where
  "mem_good w \<longleftrightarrow> mem_sq w < 2 ^ 63 \<and> list_all (\<lambda>(k, v). subject_ok k) w"

definition mem_watch :: "(string \<Rightarrow> bool) \<Rightarrow> bool \<Rightarrow> mem \<Rightarrow> KeyValueEntry option list" where
  "mem_watch sel ign w =
     map (\<lambda>k. Some (last (mem_hist w k)))
       (filter (\<lambda>k. sel k \<and> (ign \<longrightarrow> live (mem_hist w k))) (remdups (map fst w))) @ [None]"

definition mem_bucket :: "mem nats_KeyValue" where
  "mem_bucket =
     \<lparr>kv_Get = \<lambda>k w. (live_last (mem_hist w k), w),
      kv_GetRevision = \<lambda>k r w. (value_at r (mem_hist w k), w),
      kv_Put = \<lambda>k v w. (Inr (mem_sq w + 1), (k, Some v) # w),
      kv_Create = \<lambda>k v w. (if live (mem_hist w k) then (Inl ErrKeyExists, w) else (Inr (mem_sq w + 1), (k, Some v) # w)),
      kv_Update = \<lambda>k v r w.
        (if mem_hist w k \<noteq> [] \<and> e_Revision (last (mem_hist w k)) = r then (Inr (mem_sq w + 1), (k, Some v) # w)
         else (Inl (Errorf ''wrong last sequence''), w)),
      kv_Delete = \<lambda>k w. (None, (k, None) # w),
      kv_Purge = \<lambda>k w. (None, (k, None) # w),
      kv_Watch = \<lambda>pat ign meta w.
        (case subject_selects pat of None \<Rightarrow> (Inl (Errorf ''invalid subject''), w) | Some sel \<Rightarrow> (Inr (mem_watch sel ign w), w)),
      kv_WatchAll = \<lambda>ign meta w. (Inr (mem_watch (\<lambda>_. True) ign w), w),
      kv_Keys = \<lambda>w. (Inr (filter (\<lambda>k. live (mem_hist w k)) (remdups (map fst w))), w),
      kv_History = \<lambda>k w. (if mem_hist w k = [] then Inl ErrKeyNotFound else Inr (mem_hist w k), w),
      kv_PurgeDeletes = \<lambda>w. (None, w),
      kv_Status = \<lambda>w. (Inr \<lparr>st_Bytes = 0, st_FirstSeq = 1, st_LastSeq = mem_sq w\<rparr>, w)\<rparr>"

lemma mem_hist_entries:
  "e \<in> set (mem_hist w k) \<Longrightarrow> k \<in> fst ` set w \<and> e_Key e = k \<and> 0 < e_Revision e \<and> e_Revision e \<le> mem_sq w \<and>
     (if e_Operation e = KeyValuePut then e_Value e \<noteq> None else e_Value e = None)"
  by (induction w) (auto simp: mem_sq_def split: if_splits)

lemma mem_hist_key: "k \<in> fst ` set w \<longleftrightarrow> mem_hist w k \<noteq> []"
  by (induction w k rule: mem_hist.induct) auto

lemma mem_hist_ascending: "sorted_wrt (<) (map e_Revision (mem_hist w k))"
proof (induction w)
  case (Cons x w)
  then show ?case
    using mem_hist_entries [of _ w k] by (cases x) (force simp: sorted_wrt_append mem_sq_def)
qed simp

lemma mem_append:
  "appended mem_hist mem_sq k
     \<lparr>e_Key = k, e_Value = v, e_Revision = mem_sq w + 1, e_Created = 0,
      e_Operation = (if v = None then KeyValueDelete else KeyValuePut)\<rparr> w ((k, v) # w)"
  unfolding appended_def by (auto simp: mem_sq_def intro!: exI [of _ "mem_hist w k"])

lemma mem_watches: "watches mem_hist sel metaOnly w (mem_watch sel True w)"
proof -
  let ?ks = "filter (\<lambda>k. sel k \<and> live (mem_hist w k)) (remdups (map fst w))"
  have "initial_entries (mem_watch sel True w) = map (\<lambda>k. last (mem_hist w k)) ?ks"
    unfolding initial_entries_def mem_watch_def by (subst takeWhile_append2) (auto simp: comp_def)
  moreover have key: "e_Key (last (mem_hist w k)) = k" if "live (mem_hist w k)" for k
    using that mem_hist_entries [of "last (mem_hist w k)" w k] by (simp add: live_def)
  then have "map e_Key (map (\<lambda>k. last (mem_hist w k)) ?ks) = ?ks"
    by (auto intro: map_idI)
  moreover have "set ?ks = {k. live (mem_hist w k) \<and> sel k}"
    using mem_hist_key [of _ w] by (auto simp: live_def)
  moreover have "None \<in> set (mem_watch sel True w)" by (simp add: mem_watch_def)
  ultimately show ?thesis
    unfolding watches_def Let_def
    by (metis (no_types, lifting) distinct_filter distinct_remdups image_set in_set_conv_nth key length_map nth_map nth_mem)
qed

text \<open>Every byte as two letters, in the place of Base58; values are not compressed.\<close>

definition stored_s2 :: s2 where
  "stored_s2 = \<lparr>s2_EncodeBuffer = \<lambda>_. None, s2_Close = Inr, s2_Copy = Pair None\<rparr>"

lemma stored_s2_ok: "s2_ok stored_s2"
  by (simp add: s2_ok_def stored_s2_def)

fun letters :: "string \<Rightarrow> string" where
  "letters [] = []"
| "letters (c # s) = char_of (97 + of_char c div 16 :: nat) # char_of (97 + of_char c mod 16 :: nat) # letters s"

fun unletters :: "string \<Rightarrow> string" where
  "unletters (a # b # s) = char_of (16 * (of_char a - 97) + (of_char b - 97) :: nat) # unletters s"
| "unletters s = []"

lemma letters_ok: "base58_full letters (\<lambda>s. Inr (unletters s))"
proof -
  have "is_alnum (char_of (97 + n :: nat)) \<and> (of_char (char_of (97 + n :: nat) :: char) :: nat) = 97 + n" if "n < 16" for n
    using that by (simp add: is_alnum_def)
  moreover have c: "of_char c div 16 < (16 :: nat)" "of_char c mod 16 < (16 :: nat)" for c :: char
    using nat_of_char_less_256 [of c] by linarith+
  moreover have "(97 + of_char c div 16) mod 256 = (97 + of_char c div 16 :: nat)" for c :: char
    using c(1) [of c] by simp
  ultimately have "unletters (letters s) = s \<and> (\<forall>c \<in> set (letters s). is_alnum c)" for s
    by (induction s) simp_all
  then show ?thesis by (simp add: base58_full_def)
qed

interpretation mem: encoded_bucket mem_bucket mem_good mem_hist mem_sq letters "\<lambda>s. Inr (unletters s)" "S2ValueCodec stored_s2"
proof
  have good: "mem_good ((k, v) # w)" if "mem_good w" "mem_sq w + 1 < 2 ^ 63" "subject_ok k" for w k v
    using that by (simp add: mem_good_def mem_sq_def)
  show "\<exists>w' e. kv_Put mem_bucket k v w = (Inr (mem_sq w + 1), w') \<and> mem_good w' \<and>
          appended mem_hist mem_sq k e w w' \<and> e_Value e = Some v \<and> e_Operation e = KeyValuePut"
    if "mem_good w" "mem_sq w + 1 < 2 ^ 63" "subject_ok k" for w k v
    using good [OF that] mem_append [of k "Some v" w]
    by (intro exI conjI) (auto simp: mem_bucket_def)
  show "\<exists>w' e. kv_Create mem_bucket k v w = (Inr (mem_sq w + 1), w') \<and> mem_good w' \<and>
          appended mem_hist mem_sq k e w w' \<and> e_Value e = Some v \<and> e_Operation e = KeyValuePut"
    if "mem_good w" "mem_sq w + 1 < 2 ^ 63" "subject_ok k" "\<not> live (mem_hist w k)" for w k v
    using good [OF that(1-3)] mem_append [of k "Some v" w] that(4)
    by (intro exI conjI) (auto simp: mem_bucket_def)
  show "\<exists>w' e. kv_Delete mem_bucket k w = (None, w') \<and> mem_good w' \<and>
          appended mem_hist mem_sq k e w w' \<and> e_Operation e = KeyValueDelete"
    if "mem_good w" "mem_sq w + 1 < 2 ^ 63" "subject_ok k" for w k
    using good [OF that] mem_append [of k None w]
    by (intro exI conjI) (auto simp: mem_bucket_def)
  show "\<exists>ups. kv_Watch mem_bucket pat True metaOnly w = (Inr ups, w) \<and> watches mem_hist sel metaOnly w ups"
    if "subject_selects pat = Some sel" for w pat sel metaOnly
    using mem_watches [of sel metaOnly w] that by (simp add: mem_bucket_def)
  show "subject_ok k \<and> e_Key e = k \<and> 0 < e_Revision e \<and> e_Revision e \<le> mem_sq w \<and>
       (if e_Operation e = KeyValuePut then e_Value e \<noteq> None else e_Value e \<in> {None, Some []})"
    if "mem_good w" "e \<in> set (mem_hist w k)" for w e k
    using mem_hist_entries [OF that(2)] that(1) by (auto simp: mem_good_def list_all_iff)
qed (auto simp: mem_bucket_def mem_good_def mem_sq_def mem_hist_ascending letters_ok stored_s2_ok S2ValueCodec_ok)

section \<open>Properties\<close>

text \<open>
  C28: the wrapper refines the bucket: whenever a JetStream bucket keeps its contract over subjects,
  \<open>EncodedKV\<close> with the path codec keeps the same contract over paths, every history being that of the
  key's subject with keys and values decoded, and a directory selecting exactly the paths below it.
\<close>

theorem encoded_refines:
  assumes "encoded_bucket B good hist sq enc dec vc"
  shows "js_bucket (NewEncodedKV B (EtcdKeyCodec enc dec) vc) (enc_good good hist enc vc)
     (enc_hist hist enc dec vc) sq plain_path (\<lambda>v. v \<noteq> []) path_selects"
  by (rule encoded_bucket.paths_bucket [OF assms])

theorem encoded_refines_witness:
  "js_bucket (NewEncodedKV mem_bucket (EtcdKeyCodec letters (\<lambda>s. Inr (unletters s))) (S2ValueCodec stored_s2))
     (enc_good mem_good mem_hist letters (S2ValueCodec stored_s2)) (enc_hist mem_hist letters (\<lambda>s. Inr (unletters s)) (S2ValueCodec stored_s2))
     mem_sq plain_path (\<lambda>v. v \<noteq> []) path_selects"
  by (rule encoded_refines [OF mem.encoded_bucket_axioms])

end
