(* ===== verification/NatsStore.thy ===== *)
theory NatsStore
  imports Nats EncodedBucket
begin

text \<open>
  What the NATS driver makes of a bucket: the invariant of the stored values, the abstract content of
  the store, and the effect of every operation on it. The locale \<open>nats_store\<close> states what the driver
  relies on; a bucket behind \<open>EncodedKV\<close> provides it (\<open>nats_bucket\<close>).
\<close>

section \<open>The contract of the driver\<close>

definition ascii :: "string \<Rightarrow> bool" where
  "ascii s \<longleftrightarrow> (\<forall>c \<in> set s. (of_char c :: nat) < 128)"

text \<open>What the driver relies on of the JSON encoder, for the values that it writes.\<close>

definition json_ok :: "json \<Rightarrow> bool" where
  "json_ok j \<longleftrightarrow> (\<forall>v kv. js_KV v = Some kv \<longrightarrow> ascii (Key kv) \<longrightarrow>
     (\<exists>b. b \<noteq> [] \<and> Marshal j v = Inr b \<and> Unmarshal j b = (v, None)))"

text \<open>
  A stored value decodes to its key, was created before it was written, and refers to a version before
  it; only a created value has the create revision 0.
\<close>

definition entry_typed :: "json \<Rightarrow> string \<Rightarrow> KeyValueEntry \<Rightarrow> bool" where
  "entry_typed j k e \<longleftrightarrow> ascii k \<and> (e_Operation e = KeyValuePut \<longrightarrow>
     (\<exists>b v kv. e_Value e = Some b \<and> Unmarshal j b = (v, None) \<and> js_KV v = Some kv \<and> Key kv = k \<and>
       0 \<le> js_PrevRevision v \<and> js_PrevRevision v < e_Revision e \<and>
       0 \<le> CreateRevision kv \<and> CreateRevision kv < e_Revision e \<and>
       (js_Create v \<longrightarrow> CreateRevision kv = 0 \<and> \<not> js_Delete v)))"

definition typed :: "json \<Rightarrow> ('w \<Rightarrow> string \<Rightarrow> KeyValueEntry list) \<Rightarrow> 'w \<Rightarrow> bool" where
  "typed j hist w \<longleftrightarrow> (\<forall>k. \<forall>e \<in> set (hist w k). entry_typed j k e)"

text \<open>The current value of a key, whether it has expired, and the abstract content of the store.\<close>

definition current :: "json \<Rightarrow> KeyValueEntry list \<Rightarrow> JSValue option" where
  "current j h =
     (if live h then (case decode j (last h) of Some (v, None) \<Rightarrow> Some v | _ \<Rightarrow> None) else None)"

definition expired :: "int \<Rightarrow> int \<Rightarrow> JSValue \<Rightarrow> bool" where
  "expired now created v =
     (case js_KV v of None \<Rightarrow> False | Some kv \<Rightarrow> Lease kv > 0 \<and> now > created + i64 (1000000000 * Lease kv))"

definition nats_view :: "'w Driver \<Rightarrow> ('w \<Rightarrow> string \<Rightarrow> KeyValueEntry list) \<Rightarrow> 'w \<Rightarrow> string \<Rightarrow> KeyValue option" where
  "nats_view d hist w k =
     (case current (drv_json d) (hist w k) of
        None \<Rightarrow> None
      | Some v \<Rightarrow> (if js_Delete v \<or> expired (drv_Now d w) (e_Created (last (hist w k))) v then None else js_KV v))"

text \<open>A step that writes at most one key.\<close>

definition wrote ::
  "json \<Rightarrow> ('w \<Rightarrow> bool) \<Rightarrow> ('w \<Rightarrow> string \<Rightarrow> KeyValueEntry list) \<Rightarrow> ('w \<Rightarrow> int) \<Rightarrow> string \<Rightarrow> 'w \<Rightarrow> 'w \<Rightarrow> bool" where
  "wrote j good hist sq k w w' \<longleftrightarrow>
     good w' \<and> typed j hist w' \<and> (\<forall>l. l \<noteq> k \<longrightarrow> hist w' l = hist w l) \<and> sq w \<le> sq w'"

locale nats_store = js_bucket "drv_kv d" good hist sq plain_path "\<lambda>v. v \<noteq> []" path_selects
  for d :: "'w Driver" and good :: "'w \<Rightarrow> bool"
    and hist :: "'w \<Rightarrow> string \<Rightarrow> KeyValueEntry list" and sq :: "'w \<Rightarrow> int" +
  assumes json: "json_ok (drv_json d)"
    and no_value: "good w \<Longrightarrow> e \<in> set (hist w k) \<Longrightarrow> e_Operation e \<noteq> KeyValuePut \<Longrightarrow> e_Value e = None"
begin

abbreviation "fine w \<equiv> good w \<and> typed (drv_json d) hist w"
abbreviation "wrt \<equiv> wrote (drv_json d) good hist sq"

lemma wrote_refl [simp]: "fine w \<Longrightarrow> wrt k w w"
  by (simp add: wrote_def)

lemma wrote_trans: "wrt k w w' \<Longrightarrow> wrt k w' w'' \<Longrightarrow> wrt k w w''"
  by (auto simp: wrote_def)

lemma wrote_appended:
  assumes "fine w" "good w'" "appended hist sq k e w w'" "entry_typed (drv_json d) k e"
  shows "wrt k w w'"
proof -
  obtain h where h: "suffix h (hist w k)" "hist w' = (hist w)(k := h @ [e])" "sq w' = sq w + 1"
    using assms(3) by (auto simp: appended_def)
  have "set h \<subseteq> set (hist w k)" using h(1) by (rule set_mono_suffix)
  then show ?thesis using assms h(2,3) by (auto simp: wrote_def typed_def)
qed

lemma revision_i64: "good w \<Longrightarrow> e \<in> set (hist w k) \<Longrightarrow> i64 (e_Revision e) = e_Revision e"
  using entries [of w e k] sq_range [of w] by (auto intro!: i64_id)

lemma sq_i64: "good w \<Longrightarrow> i64 (sq w) = sq w"
  using sq_range [of w] by (auto intro!: i64_id)

text \<open>Every stored value decodes, with the revision of its entry.\<close>

lemma decode_typed:
  assumes "fine w" "e \<in> set (hist w k)" "e_Operation e = KeyValuePut"
  shows "\<exists>v kv. decode (drv_json d) e = Some (v, None) \<and> js_KV v = Some kv \<and> Key kv = k \<and>
     ModRevision kv = e_Revision e \<and> 0 \<le> js_PrevRevision v \<and> js_PrevRevision v < e_Revision e \<and>
     0 \<le> CreateRevision kv \<and> CreateRevision kv < e_Revision e \<and>
     (js_Create v \<longrightarrow> CreateRevision kv = 0 \<and> \<not> js_Delete v)"
proof -
  have "entry_typed (drv_json d) k e" using assms(1,2) by (simp add: typed_def)
  with assms(3) show ?thesis
    using revision_i64 [of w e k] assms(1,2) by (auto simp: entry_typed_def decode_def)
qed

lemma current_live:
  assumes "fine w" "live (hist w k)"
  shows "\<exists>v kv. decode (drv_json d) (last (hist w k)) = Some (v, None) \<and>
     current (drv_json d) (hist w k) = Some v \<and> js_KV v = Some kv \<and> Key kv = k \<and>
     ModRevision kv = e_Revision (last (hist w k)) \<and> 0 < ModRevision kv \<and> ModRevision kv \<le> sq w \<and>
     0 \<le> CreateRevision kv \<and> CreateRevision kv < ModRevision kv \<and>
     (js_Create v \<longrightarrow> CreateRevision kv = 0 \<and> \<not> js_Delete v)"
proof -
  have l: "last (hist w k) \<in> set (hist w k)" "e_Operation (last (hist w k)) = KeyValuePut"
    using assms(2) by (simp_all add: live_def)
  show ?thesis
    using decode_typed [OF assms(1) l] entries [of w _ k, OF _ l(1)] assms by (auto simp: current_def)
qed

lemma current_None: "fine w \<Longrightarrow> current (drv_json d) (hist w k) = None \<longleftrightarrow> \<not> live (hist w k)"
  using current_live [of w k] by (auto simp: current_def)

lemma key_ascii: "fine w \<Longrightarrow> live (hist w k) \<Longrightarrow> ascii k"
  unfolding typed_def entry_typed_def live_def using last_in_set [of "hist w k"] by blast

lemma currentRevision: "good w \<Longrightarrow> nats_currentRevision d w = ((sq w, None), w)"
  using status [of w] sq_i64 [of w] by (auto simp: nats_currentRevision_def)

lemma compactRevision: "good w \<Longrightarrow> \<exists>c. nats_compactRevision d w = ((c, None), w)"
  using status [of w] by (auto simp: nats_compactRevision_def)

text \<open>Deleting the key of an expired value.\<close>

lemma drop_key:
  assumes "fine w" "sq w + 1 < 2 ^ 63" "plain_path k" "ascii k"
  shows "\<exists>w'. kv_Delete (drv_kv d) k w = (None, w') \<and> wrt k w w' \<and> sq w' = sq w + 1 \<and> \<not> live (hist w' k)"
proof -
  obtain w' e where w': "kv_Delete (drv_kv d) k w = (None, w')" "good w'" "appended hist sq k e w w'"
      "e_Operation e = KeyValueDelete"
    using delete [OF _ assms(2,3)] assms(1) by blast
  moreover have "entry_typed (drv_json d) k e" using w'(4) assms(4) by (simp add: entry_typed_def)
  ultimately show ?thesis
    using wrote_appended [OF assms(1) w'(2,3)] appended_dead [OF w'(3,4)] by (auto simp: appended_def)
qed

lemma isKeyExpired_typed:
  assumes "fine w" "sq w + 1 < 2 ^ 63" "plain_path k" "ascii k" "js_KV v = Some kv" "Key kv = k"
  shows "(expired (drv_Now d w) t v \<longrightarrow> (\<exists>w'. isKeyExpired d t v w = Some (True, w') \<and>
      wrt k w w' \<and> sq w' = sq w + 1 \<and> \<not> live (hist w' k))) \<and>
    (\<not> expired (drv_Now d w) t v \<longrightarrow> isKeyExpired d t v w = Some (False, w))"
  using drop_key [OF assms(1-4)] assms(5,6) by (auto simp: isKeyExpired_def expired_def)

text \<open>Reading: \<open>get\<close> answers with the last entry, or with that of the exact revision.\<close>

lemma get_latest:
  "good w \<Longrightarrow> plain_path k \<Longrightarrow> nats_get d k 0 incl w =
     (if live (hist w k) then get_entry d (last (hist w k)) incl w else Some ((0, None, Some ErrKeyNotFound), w))"
  using compactRevision [of w] by (auto simp: nats_get_def get live_last_def)

lemma get_at:
  "good w \<Longrightarrow> plain_path k \<Longrightarrow> 0 < r \<Longrightarrow> nats_get d k r incl w =
     (case value_at r (hist w k) of
        Inl e \<Rightarrow> Some ((0, None, Some e), w) | Inr e \<Rightarrow> get_entry d e incl w)"
  using compactRevision [of w] by (auto simp: nats_get_def get_revision split: sum.split)

lemma get_entry_typed:
  assumes "fine w" "sq w + 1 < 2 ^ 63" "plain_path k" "ascii k"
    and "decode (drv_json d) e = Some (v, None)" "js_KV v = Some kv" "Key kv = k"
  shows "(if js_Delete v \<and> \<not> incl then get_entry d e incl w = Some ((0, None, Some ErrKeyNotFound), w)
     else if expired (drv_Now d w) (e_Created e) v
     then \<exists>w'. get_entry d e incl w = Some ((0, None, Some ErrKeyNotFound), w') \<and> wrt k w w' \<and>
        sq w' = sq w + 1 \<and> \<not> live (hist w' k)
     else get_entry d e incl w = Some ((ModRevision kv, Some v, None), w))"
  using isKeyExpired_typed [OF assms(1-4,6,7), of "e_Created e"] by (auto simp: get_entry_def assms(5,6))

lemma view_cases:
  assumes "fine w"
  obtains (absent) "\<not> live (hist w k)" "nats_view d hist w k = None"
  | (present) v kv where "live (hist w k)" "decode (drv_json d) (last (hist w k)) = Some (v, None)"
      "current (drv_json d) (hist w k) = Some v" "js_KV v = Some kv" "Key kv = k" "0 < ModRevision kv"
      "ModRevision kv \<le> sq w" "0 \<le> CreateRevision kv" "CreateRevision kv < ModRevision kv"
      "nats_view d hist w k =
         (if js_Delete v \<or> expired (drv_Now d w) (e_Created (last (hist w k))) v then None else Some kv)"
  using current_live [OF assms, of k] current_None [OF assms, of k]
  by (cases "live (hist w k)") (auto simp: nats_view_def)

lemma get_present:
  assumes "fine w" "sq w + 1 < 2 ^ 63" "plain_path k" "nats_view d hist w k = Some kv"
  shows "\<exists>v. nats_get d k 0 incl w = Some ((ModRevision kv, Some v, None), w) \<and> js_KV v = Some kv \<and>
     \<not> js_Delete v \<and> Key kv = k \<and> 0 < ModRevision kv \<and> ModRevision kv \<le> sq w \<and>
     0 \<le> CreateRevision kv \<and> CreateRevision kv < ModRevision kv \<and> ascii k"
  using assms(1)
proof (cases rule: view_cases [where k = k])
  case (present v l)
  with assms(4) have l: "l = kv" "\<not> js_Delete v" "\<not> expired (drv_Now d w) (e_Created (last (hist w k))) v"
    by (auto split: if_splits)
  note a = key_ascii [OF assms(1) present(1)]
  show ?thesis
    using get_entry_typed [OF assms(1-3) a present(2,4,5), of incl] present assms(1,3) l a
    by (auto simp: get_latest)
qed (use assms(4) in simp)

lemma get_absent:
  assumes "fine w" "sq w + 1 < 2 ^ 63" "plain_path k" "nats_view d hist w k = None"
  shows "\<exists>w'. nats_get d k 0 False w = Some ((0, None, Some ErrKeyNotFound), w') \<and> wrt k w w' \<and> sq w' \<le> sq w + 1"
  using assms(1)
proof (cases rule: view_cases [where k = k])
  case absent
  then show ?thesis using assms by (simp add: get_latest)
next
  case (present v kv)
  note a = key_ascii [OF assms(1) present(1)]
  show ?thesis
    using get_entry_typed [OF assms(1-3) a present(2,4,5), of False] present assms
    by (auto simp: get_latest split: if_splits)
qed

lemma get_absent_deleted:
  assumes "fine w" "sq w + 1 < 2 ^ 63" "plain_path k" "nats_view d hist w k = None"
  shows "(\<exists>w'. nats_get d k 0 True w = Some ((0, None, Some ErrKeyNotFound), w') \<and> wrt k w w' \<and>
       sq w' \<le> sq w + 1 \<and> \<not> live (hist w' k)) \<or>
     (\<exists>v kv. nats_get d k 0 True w = Some ((ModRevision kv, Some v, None), w) \<and> js_Delete v \<and>
       js_KV v = Some kv \<and> 0 < ModRevision kv \<and> ModRevision kv \<le> sq w)"
  using assms(1)
proof (cases rule: view_cases [where k = k])
  case absent
  then show ?thesis using assms by (simp add: get_latest)
next
  case (present v kv)
  note a = key_ascii [OF assms(1) present(1)]
  show ?thesis
    using get_entry_typed [OF assms(1-3) a present(2,4,5), of True] present assms
    by (auto simp: get_latest split: if_splits)
qed

text \<open>Writing a value: it becomes the current one, with the revision of its entry.\<close>

lemma marshal:
  "js_KV v = Some kv \<Longrightarrow> ascii (Key kv) \<Longrightarrow>
     \<exists>b. b \<noteq> [] \<and> Marshal (drv_json d) v = Inr b \<and> Unmarshal (drv_json d) b = (v, None)"
  using json by (simp add: json_ok_def)

lemma written:
  assumes "fine w" "good w'" "appended hist sq k e w w'" "e_Operation e = KeyValuePut" "e_Value e = Some b"
    and "Unmarshal (drv_json d) b = (v, None)" "js_KV v = Some kv" "Key kv = k" "ascii k"
    and "0 \<le> js_PrevRevision v" "js_PrevRevision v \<le> sq w" "0 \<le> CreateRevision kv" "CreateRevision kv \<le> sq w"
    and "js_Create v \<Longrightarrow> CreateRevision kv = 0 \<and> \<not> js_Delete v"
  shows "wrt k w w' \<and> sq w' = sq w + 1 \<and> live (hist w' k) \<and>
     current (drv_json d) (hist w' k) = Some (v\<lparr>js_KV := Some (kv\<lparr>ModRevision := sq w'\<rparr>)\<rparr>)"
proof -
  have e: "e_Revision e = sq w + 1" "sq w' = sq w + 1" using assms(3) by (auto simp: appended_def)
  have "entry_typed (drv_json d) k e" using assms(4-) e by (auto simp: entry_typed_def)
  then have "wrt k w w'" by (rule wrote_appended [OF assms(1-3)])
  moreover have "live (hist w' k)" "last (hist w' k) = e" using appended_live [OF assms(3,4)] by simp_all
  moreover have "i64 (e_Revision e) = sq w'" using sq_i64 [OF assms(2)] e by simp
  ultimately show ?thesis using assms(5-7) e by (simp add: current_def decode_def)
qed

end

section \<open>The driver over a JetStream bucket\<close>

locale nats_bucket = encoded_bucket B good hist sq enc dec "S2ValueCodec z"
  for B :: "'w nats_KeyValue" and good :: "'w \<Rightarrow> bool"
    and hist :: "'w \<Rightarrow> string \<Rightarrow> KeyValueEntry list" and sq :: "'w \<Rightarrow> int"
    and enc :: "string \<Rightarrow> string" and dec :: "string \<Rightarrow> go_error + string" and z :: s2 +
  fixes j :: json and now :: "'w \<Rightarrow> int"
  assumes encoder: "json_ok j"
begin

lemma store: "nats_store (newDriver B enc dec z j now) (enc_good good hist enc (S2ValueCodec z))
    (enc_hist hist enc dec (S2ValueCodec z)) sq"
proof -
  have "\<forall>w e k. enc_good good hist enc (S2ValueCodec z) w \<longrightarrow> e \<in> set (enc_hist hist enc dec (S2ValueCodec z) w k) \<longrightarrow>
      e_Operation e \<noteq> KeyValuePut \<longrightarrow> e_Value e = None"
    using no_value by (metis enc_good_def)
  then show ?thesis
    using paths_bucket encoder unfolding nats_store_def nats_store_axioms_def newDriver_simps by blast
qed

end

sublocale nats_bucket \<subseteq> kine: nats_store "newDriver B enc dec z j now"
  "enc_good good hist enc (S2ValueCodec z)" "enc_hist hist enc dec (S2ValueCodec z)" sq
  by (rule store)

section \<open>An encoder for the examples\<close>

text \<open>A number is written in unary after its sign, a text with its dots escaped.\<close>

definition int_text :: "int \<Rightarrow> string" where
  "int_text n = (if n < 0 then CHR ''-'' else CHR ''+'') # replicate (nat \<bar>n\<bar>) (CHR ''1'')"

definition text_int :: "string \<Rightarrow> int" where
  "text_int s = (if hd s = CHR ''-'' then - int (length (tl s)) else int (length (tl s)))"

definition bool_text :: "bool \<Rightarrow> string" where
  "bool_text b = (if b then ''t'' else ''f'')"

definition field_json :: json where
  "field_json =
     \<lparr>Marshal = (\<lambda>v. case js_KV v of
        None \<Rightarrow> Inr ''null''
      | Some kv \<Rightarrow> Inr (Join
          [int_text (js_PrevRevision v), bool_text (js_Create v), bool_text (js_Delete v), escape (Key kv),
           int_text (CreateRevision kv), int_text (ModRevision kv), escape (Value kv), int_text (Lease kv)]
          (CHR ''.''))),
      Unmarshal = (\<lambda>b. case Split b (CHR ''.'') of
        [p, c, d, k, cr, mr, val, l] \<Rightarrow>
          (\<lparr>js_KV = Some \<lparr>Key = unescape k, CreateRevision = text_int cr, ModRevision = text_int mr,
              Value = unescape val, Lease = text_int l\<rparr>,
            js_PrevRevision = text_int p, js_Create = (c = ''t''), js_Delete = (d = ''t'')\<rparr>, None)
      | _ \<Rightarrow> (JSValue_zero, Some (Errorf ''invalid character'')))\<rparr>"

lemma text_int_text [simp]: "text_int (int_text n) = n"
  by (simp add: text_int_def int_text_def)

lemma field_text [simp]:
  "CHR ''.'' \<notin> set (int_text n)" "CHR ''.'' \<notin> set (bool_text b)" "CHR ''.'' \<notin> set (escape s)"
  "unescape (escape s) = s" "bool_text b = ''t'' \<longleftrightarrow> b"
  using escape_ok by (auto simp: int_text_def bool_text_def base58_ok_def)

lemma field_json_ok: "json_ok field_json"
  unfolding json_ok_def
proof (intro allI impI)
  fix v :: JSValue and kv :: KeyValue assume v: "js_KV v = Some kv"
  define fs where "fs = [int_text (js_PrevRevision v), bool_text (js_Create v), bool_text (js_Delete v), escape (Key kv),
    int_text (CreateRevision kv), int_text (ModRevision kv), escape (Value kv), int_text (Lease kv)]"
  have "Split (Join fs (CHR ''.'')) (CHR ''.'') = fs"
    by (rule Split_Join) (simp_all add: fs_def)
  then have "Unmarshal field_json (Join fs (CHR ''.'')) = (v, None)"
    using v by (simp add: field_json_def) (simp add: fs_def)
  moreover have "Marshal field_json v = Inr (Join fs (CHR ''.''))"
    unfolding field_json_def fs_def by (simp add: v del: Join.simps)
  moreover have "Join fs (CHR ''.'') \<noteq> []" by (simp add: fs_def int_text_def)
  ultimately show "\<exists>b. b \<noteq> [] \<and> Marshal field_json v = Inr b \<and> Unmarshal field_json b = (v, None)" by blast
qed

interpretation mem_nats: nats_bucket mem_bucket mem_good mem_hist mem_sq letters "\<lambda>s. Inr (unletters s)"
  stored_s2 field_json "\<lambda>_. 0"
  by unfold_locales (rule field_json_ok)

text \<open>The driver and the histories of the examples.\<close>

definition mem_driver :: "mem Driver" where
  "mem_driver = newDriver mem_bucket letters (\<lambda>s. Inr (unletters s)) stored_s2 field_json (\<lambda>_. 0)"

definition mem_store_good :: "mem \<Rightarrow> bool" where
  "mem_store_good = enc_good mem_good mem_hist letters (S2ValueCodec stored_s2)"

definition mem_paths :: "mem \<Rightarrow> string \<Rightarrow> KeyValueEntry list" where
  "mem_paths = enc_hist mem_hist letters (\<lambda>s. Inr (unletters s)) (S2ValueCodec stored_s2)"

lemma mem_store: "nats_store mem_driver mem_store_good mem_paths mem_sq"
  unfolding mem_driver_def mem_store_good_def mem_paths_def by (rule mem_nats.store)

lemma mem_empty: "mem_store_good []" "typed field_json mem_paths []" "mem_sq [] = 0"
  by (simp_all add: mem_store_good_def enc_good_def mem_good_def mem_sq_def typed_def mem_paths_def enc_hist_def)

end
