(* ===== verification/NatsSpec.thy ===== *)
theory NatsSpec
  imports NatsStore
begin

text \<open>
  The operations of the NATS driver on a single key, over the abstract content of the store: reads,
  creation, update and deletion as compare-and-swap.
\<close>

section \<open>Operations on a single key\<close>

text \<open>What a creation and an update leave as the current value at a revision.\<close>

definition created :: "string \<Rightarrow> bytes \<Rightarrow> int64 \<Rightarrow> int64 \<Rightarrow> int64 \<Rightarrow> JSValue" where
  "created k val lease prev r =
     \<lparr>js_KV = Some \<lparr>Key = k, CreateRevision = 0, ModRevision = r, Value = val, Lease = lease\<rparr>,
      js_PrevRevision = prev, js_Create = True, js_Delete = False\<rparr>"

definition updated :: "string \<Rightarrow> bytes \<Rightarrow> int64 \<Rightarrow> KeyValue \<Rightarrow> int64 \<Rightarrow> KeyValue" where
  "updated k val lease prev r =
     \<lparr>Key = k, CreateRevision = (if CreateRevision prev = 0 then ModRevision prev else CreateRevision prev),
      ModRevision = r, Value = val, Lease = lease\<rparr>"

context nats_store
begin

lemma Get_spec:
  assumes "fine w" "sq w + 1 < 2 ^ 63" "plain_path k"
  shows "(case nats_view d hist w k of
      Some kv \<Rightarrow> nats_Get d k rangeEnd limit 0 w = Some ((ModRevision kv, Some kv, None), w)
    | None \<Rightarrow> \<exists>w'. nats_Get d k rangeEnd limit 0 w = Some ((sq w, None, None), w') \<and> wrt k w w' \<and> sq w' \<le> sq w + 1)"
  using get_present [OF assms, of _ False] get_absent [OF assms] currentRevision [of w] assms(1)
  by (fastforce simp: nats_Get_def split: option.split)

lemma write_created:
  assumes "fine w" "plain_path k" "ascii k" "0 \<le> prev" "prev \<le> sq w"
    and b: "b \<noteq> []" "Unmarshal (drv_json d) b = (create_value k val lease prev, None)"
    and w': "good w'" "appended hist sq k e w w'" "e_Value e = Some b" "e_Operation e = KeyValuePut"
  shows "wrt k w w' \<and> sq w' = sq w + 1 \<and> current (drv_json d) (hist w' k) = Some (created k val lease prev (sq w'))"
  using written [OF assms(1) w'(1,2,4,3) b(2), of "the (js_KV (create_value k val lease prev))"] assms(3-5) assms(1) sq_range [of w]
  by (simp add: create_value_def created_def)

lemma Create_spec:
  assumes "fine w" "sq w + 2 < 2 ^ 63" "plain_path k" "ascii k"
  shows "(case nats_view d hist w k of
      Some kv \<Rightarrow> nats_Create d k val lease w = Some ((0, Some ErrKeyExists), w)
    | None \<Rightarrow> \<exists>w' prev. nats_Create d k val lease w = Some ((sq w', None), w') \<and> wrt k w w' \<and> sq w < sq w' \<and>
        sq w' \<le> sq w + 2 \<and> current (drv_json d) (hist w' k) = Some (created k val lease prev (sq w')))"
proof (cases "nats_view d hist w k")
  case (Some kv)
  with get_present [OF assms(1) _ assms(3) Some, of True] assms(2) show ?thesis
    by (auto simp: nats_Create_def)
next
  case None
  have m: "\<exists>b. b \<noteq> [] \<and> Marshal (drv_json d) (create_value k val lease p) = Inr b \<and>
      Unmarshal (drv_json d) b = (create_value k val lease p, None)" for p
    using marshal [of "create_value k val lease p"] assms(4) by (simp add: create_value_def)
  have "sq w + 1 < 2 ^ 63" using assms(2) by simp
  from get_absent_deleted [OF assms(1) this assms(3) None] show ?thesis
  proof (elim disjE exE conjE)
    fix w1 assume g: "nats_get d k 0 True w = Some ((0, None, Some ErrKeyNotFound), w1)"
      and w1: "wrt k w w1" "sq w1 \<le> sq w + 1" "\<not> live (hist w1 k)"
    have f1: "fine w1" using w1(1) by (simp add: wrote_def)
    obtain b where b: "b \<noteq> []" "Marshal (drv_json d) (create_value k val lease 0) = Inr b"
      "Unmarshal (drv_json d) b = (create_value k val lease 0, None)" using m by blast
    obtain w' e where w': "kv_Create (drv_kv d) k b w1 = (Inr (sq w1 + 1), w')" "good w'" "appended hist sq k e w1 w'"
        "e_Value e = Some b" "e_Operation e = KeyValuePut"
      using create [OF _ _ assms(3) b(1) w1(3)] f1 w1(2) assms(2) by fastforce
    have wc: "wrt k w1 w' \<and> sq w' = sq w1 + 1 \<and> current (drv_json d) (hist w' k) = Some (created k val lease 0 (sq w'))"
      using write_created [OF f1 assms(3,4) _ _ b(1,3) w'(2,3,4,5)] sq_range [of w1] f1 by simp
    moreover have "nats_Create d k val lease w = Some ((i64 (sq w1 + 1), None), w')"
      using g b(2) w'(1) by (simp add: nats_Create_def)
    moreover have "i64 (sq w1 + 1) = sq w'" using wc sq_i64 [OF w'(2)] by simp
    moreover have "sq w < sq w'" "sq w' \<le> sq w + 2" using wc w1(1,2) by (simp_all add: wrote_def)
    ultimately show ?thesis using None wrote_trans [OF w1(1)] by auto
  next
    fix v kv assume g: "nats_get d k 0 True w = Some ((ModRevision kv, Some v, None), w)"
      and v: "js_Delete v" "js_KV v = Some kv" "0 < ModRevision kv" "ModRevision kv \<le> sq w"
    obtain b where b: "b \<noteq> []" "Marshal (drv_json d) (create_value k val lease (ModRevision kv)) = Inr b"
      "Unmarshal (drv_json d) b = (create_value k val lease (ModRevision kv), None)" using m by blast
    obtain w' e where w': "kv_Put (drv_kv d) k b w = (Inr (sq w + 1), w')" "good w'" "appended hist sq k e w w'"
        "e_Value e = Some b" "e_Operation e = KeyValuePut"
      using put [OF _ _ assms(3) b(1), of w] assms(1,2) by fastforce
    have "wrt k w w' \<and> sq w' = sq w + 1 \<and>
        current (drv_json d) (hist w' k) = Some (created k val lease (ModRevision kv) (sq w'))"
      using write_created [OF assms(1,3,4) _ _ b(1,3) w'(2,3,4,5)] v by simp
    moreover have "nats_Create d k val lease w = Some ((i64 (sq w + 1), None), w')"
      using g v b(2) w'(1) by (simp add: nats_Create_def)
    ultimately show ?thesis using None sq_i64 [OF w'(2)] by auto
  qed
qed

lemma Update_spec:
  assumes "fine w" "sq w + 2 < 2 ^ 63" "plain_path k"
  shows "(case nats_view d hist w k of
      Some kv \<Rightarrow>
        (if ModRevision kv = r
         then \<exists>w'. nats_Update d k val r lease w = Some ((sq w', Some (updated k val lease kv (sq w')), True, None), w') \<and>
           wrt k w w' \<and> sq w' = sq w + 1 \<and> current (drv_json d) (hist w' k) =
             Some \<lparr>js_KV = Some (updated k val lease kv (sq w')), js_PrevRevision = r, js_Create = False, js_Delete = False\<rparr>
         else nats_Update d k val r lease w = Some ((ModRevision kv, Some kv, False, None), w))
    | None \<Rightarrow> \<exists>w'. nats_Update d k val r lease w = Some ((0, None, False, None), w') \<and> wrt k w w' \<and> sq w' \<le> sq w + 1)"
proof (cases "nats_view d hist w k")
  case (Some kv)
  have "sq w + 1 < 2 ^ 63" using assms(2) by simp
  from get_present [OF assms(1) this assms(3) Some, of False] obtain v where
    g: "nats_get d k 0 False w = Some ((ModRevision kv, Some v, None), w)" and v: "js_KV v = Some kv" "Key kv = k"
      "0 < ModRevision kv" "ModRevision kv \<le> sq w" "0 \<le> CreateRevision kv" "CreateRevision kv < ModRevision kv" "ascii k"
    by blast
  show ?thesis
  proof (cases "ModRevision kv = r")
    case True
    let ?v = "update_value k val lease (ModRevision kv) kv"
    obtain b where b: "b \<noteq> []" "Marshal (drv_json d) ?v = Inr b" "Unmarshal (drv_json d) b = (?v, None)"
      using marshal [of ?v] v(7) by (auto simp: update_value_def)
    obtain w' e where w': "kv_Put (drv_kv d) k b w = (Inr (sq w + 1), w')" "good w'" "appended hist sq k e w w'"
        "e_Value e = Some b" "e_Operation e = KeyValuePut"
      using put [OF _ _ assms(3) b(1), of w] assms(1,2) by fastforce
    have "wrt k w w' \<and> sq w' = sq w + 1 \<and> current (drv_json d) (hist w' k) =
        Some \<lparr>js_KV = Some (updated k val lease kv (sq w')), js_PrevRevision = r, js_Create = False, js_Delete = False\<rparr>"
      using written [OF assms(1) w'(2,3,5,4) b(3), of "the (js_KV ?v)"] v True
      by (simp add: update_value_def updated_def)
    moreover have "nats_Update d k val r lease w =
        Some ((i64 (sq w + 1), Some (updated k val lease kv (i64 (sq w + 1))), True, None), w')"
      using g v True b(2) w'(1) by (simp add: nats_Update_def update_value_def updated_def)
    ultimately show ?thesis using Some True sq_i64 [OF w'(2)] by auto
  qed (use Some g v in \<open>simp add: nats_Update_def\<close>)
next
  case None
  with get_absent [OF assms(1) _ assms(3) None] assms(2) show ?thesis by (auto simp: nats_Update_def)
qed

lemma Delete_spec:
  assumes "fine w" "sq w + 2 < 2 ^ 63" "plain_path k"
  shows "(case nats_view d hist w k of
      Some kv \<Rightarrow>
        (if r = 0 \<or> ModRevision kv = r
         then \<exists>w'. nats_Delete d k r w = Some ((sq w + 1, Some kv, True, None), w') \<and> wrt k w w' \<and>
           sq w' = sq w + 2 \<and> \<not> live (hist w' k)
         else nats_Delete d k r w = Some ((ModRevision kv, Some kv, False, None), w))
    | None \<Rightarrow> \<exists>rv kv w'. nats_Delete d k r w = Some ((rv, kv, True, None), w') \<and> wrt k w w' \<and> sq w' \<le> sq w + 1)"
proof (cases "nats_view d hist w k")
  case (Some kv)
  have "sq w + 1 < 2 ^ 63" using assms(2) by simp
  from get_present [OF assms(1) this assms(3) Some, of True] obtain v where
    g: "nats_get d k 0 True w = Some ((ModRevision kv, Some v, None), w)" and v: "js_KV v = Some kv" "\<not> js_Delete v" "Key kv = k"
      "0 < ModRevision kv" "ModRevision kv \<le> sq w" "0 \<le> CreateRevision kv" "CreateRevision kv < ModRevision kv" "ascii k"
    by blast
  show ?thesis
  proof (cases "r = 0 \<or> ModRevision kv = r")
    case True
    let ?v = "\<lparr>js_KV = Some kv, js_PrevRevision = ModRevision kv, js_Create = False, js_Delete = True\<rparr>"
    obtain b where b: "b \<noteq> []" "Marshal (drv_json d) ?v = Inr b" "Unmarshal (drv_json d) b = (?v, None)"
      using marshal [of ?v] v(3,8) by auto
    obtain w1 e where w1: "kv_Put (drv_kv d) k b w = (Inr (sq w + 1), w1)" "good w1" "appended hist sq k e w w1"
        "e_Value e = Some b" "e_Operation e = KeyValuePut"
      using put [OF _ _ assms(3) b(1), of w] assms(1,2) by fastforce
    have wc: "wrt k w w1 \<and> sq w1 = sq w + 1"
      using written [OF assms(1) w1(2,3,5,4) b(3), of kv] v by simp
    then have f1: "fine w1" by (simp add: wrote_def)
    obtain w' where w': "kv_Delete (drv_kv d) k w1 = (None, w')" "wrt k w1 w'" "sq w' = sq w1 + 1" "\<not> live (hist w' k)"
      using drop_key [OF f1 _ assms(3) v(8)] wc assms(2) by auto
    have "nats_Delete d k r w = Some ((i64 (sq w + 1), Some kv, True, None), w')"
      using g v True b(2) w1(1) w'(1) by (auto simp: nats_Delete_def)
    moreover have "i64 (sq w + 1) = sq w + 1" using wc sq_i64 [OF w1(2)] by simp
    ultimately show ?thesis using Some True wc w' wrote_trans [of k w w1 w'] by auto
  qed (use Some g v in \<open>auto simp: nats_Delete_def\<close>)
next
  case None
  have "sq w + 1 < 2 ^ 63" using assms(2) by simp
  from get_absent_deleted [OF assms(1) this assms(3) None] None assms(1) show ?thesis
    by (auto simp: nats_Delete_def)
qed

end

end
