(* ===== verification/NatsList.thy ===== *)
theory NatsList
  imports NatsSpec
begin

text \<open>
  The listings, counts and watches of the NATS driver, and the invariant of the stored values under
  every operation.
\<close>

section \<open>Listings and counts\<close>

text \<open>What a listing shows of a key at a revision, and the first entries up to a limit, 0 for none.\<close>

definition shown_at :: "json \<Rightarrow> int64 \<Rightarrow> KeyValueEntry list \<Rightarrow> KeyValue option option" where
  "shown_at j r h =
     (case entry_at r h of
        None \<Rightarrow> None
      | Some e \<Rightarrow> (case decode j e of Some (v, None) \<Rightarrow> Some (js_KV v) | _ \<Rightarrow> None))"

definition limited :: "int64 \<Rightarrow> 'a list \<Rightarrow> 'a list" where
  "limited n xs = (if n = 0 then xs else take (nat n) xs)"

definition dir_keys :: "('w \<Rightarrow> string \<Rightarrow> KeyValueEntry list) \<Rightarrow> string \<Rightarrow> 'w \<Rightarrow> string set" where
  "dir_keys hist p w = {k. live (hist w k) \<and> HasPrefix k p}"

context nats_store
begin

lemma watched:
  assumes "good w" "plain_dir p"
  shows "finite (dir_keys hist p w)"
    "getKeyValues d p True w = (Inr (map (\<lambda>k. last (hist w k)) (sorted_list_of_set (dir_keys hist p w))), w)"
    "getKeys d p True w = (Inr (sorted_list_of_set (dir_keys hist p w)), w)"
    "\<exists>ks. getKeys d p False w = (Inr ks, w) \<and> length ks = card (dir_keys hist p w)"
proof -
  let ?K = "dir_keys hist p w"
  have sel: "path_selects p = Some (\<lambda>k. HasPrefix k p)" using assms(2) by (simp add: path_selects_def)
  obtain ups where ups: "kv_Watch (drv_kv d) p True False w = (Inr ups, w)" "watches hist (\<lambda>k. HasPrefix k p) False w ups"
    using watch [OF assms(1) sel] by blast
  obtain ups' where ups': "kv_Watch (drv_kv d) p True True w = (Inr ups', w)" "watches hist (\<lambda>k. HasPrefix k p) True w ups'"
    using watch [OF assms(1) sel] by blast
  let ?es = "initial_entries ups" and ?es' = "initial_entries ups'"
  have es: "distinct (map e_Key ?es)" "e_Key ` set ?es = ?K" "\<forall>e \<in> set ?es. last (hist w (e_Key e)) = e"
    using ups(2) by (auto simp: watches_def Let_def dir_keys_def)
  have es': "distinct (map e_Key ?es')" "e_Key ` set ?es' = ?K"
    using ups'(2) by (auto simp: watches_def Let_def dir_keys_def)
  show "finite ?K" using es(2) finite_imageI [OF finite_set] by metis
  have "map e_Key (sort_key e_Key ?es) = sorted_list_of_set ?K"
    using es(1,2) \<open>finite ?K\<close>
    by (intro sorted_distinct_set_unique) (auto simp: distinct_map distinct_sort)
  then have "map (\<lambda>k. last (hist w k)) (sorted_list_of_set ?K) = map (\<lambda>e. last (hist w (e_Key e))) (sort_key e_Key ?es)"
    by (metis (mono_tags, lifting) comp_apply list.map_comp map_eq_conv)
  also have "\<dots> = sort_key e_Key ?es" using es(3) by (intro map_idI) simp
  finally show "getKeyValues d p True w = (Inr (map (\<lambda>k. last (hist w k)) (sorted_list_of_set ?K)), w)"
    by (simp add: getKeyValues_def ups(1))
  have "sort (map e_Key ?es') = sorted_list_of_set ?K"
    using es' \<open>finite ?K\<close> by (intro sorted_distinct_set_unique) auto
  then show "getKeys d p True w = (Inr (sorted_list_of_set ?K), w)"
    by (simp add: getKeys_def ups'(1))
  show "\<exists>ks. getKeys d p False w = (Inr ks, w) \<and> length ks = card ?K"
    using distinct_card [OF es'(1)] es'(2) by (simp add: getKeys_def ups'(1))
qed

lemma Count_spec:
  "fine w \<Longrightarrow> plain_dir p \<Longrightarrow> nats_Count d p w = Some ((sq w, int (card (dir_keys hist p w)), None), w)"
  using watched(4) [of w p] currentRevision [of w] by (auto simp: nats_Count_def)

text \<open>The loop over current values when no lease can expire.\<close>

lemma list_current_spec:
  assumes "fine w" "\<forall>k \<in> set ks. live (hist w k) \<and>
      (\<forall>v kv. current (drv_json d) (hist w k) = Some v \<longrightarrow> js_KV v = Some kv \<longrightarrow> Lease kv \<le> 0)" "0 \<le> n" "0 \<le> c"
  shows "list_current d n c (map (\<lambda>k. last (hist w k)) ks) w =
     Some (map (\<lambda>k. js_KV (the (current (drv_json d) (hist w k))))
       (if n = 0 then ks else take (nat (n - c)) ks), w)"
  using assms(2,4)
proof (induction ks arbitrary: c)
  case (Cons k ks)
  obtain v kv where v: "decode (drv_json d) (last (hist w k)) = Some (v, None)"
      "current (drv_json d) (hist w k) = Some v" "js_KV v = Some kv" "Lease kv \<le> 0"
    using current_live [OF assms(1), of k] Cons.prems by auto
  have "isKeyExpired d t v w = Some (False, w)" for t using v by (simp add: isKeyExpired_def)
  moreover have "nat (n - c) = Suc (nat (n - (c + 1)))" if "c < n" using that by simp
  ultimately show ?case using Cons.IH [of "c + 1"] Cons.prems v by (auto simp: take_Cons')
qed simp

lemma List_current_spec:
  assumes "fine w" "plain_dir p" "HasPrefix p start" "0 \<le> n"
    and "\<forall>k \<in> dir_keys hist p w. \<forall>v kv. current (drv_json d) (hist w k) = Some v \<longrightarrow> js_KV v = Some kv \<longrightarrow> Lease kv \<le> 0"
  shows "nats_List d p start n 0 w =
     Some ((sq w, limited n (map (\<lambda>k. js_KV (the (current (drv_json d) (hist w k))))
       (sorted_list_of_set (dir_keys hist p w))), None), w)"
proof -
  note ws = watched [OF conjunct1 [OF assms(1)] assms(2)]
  have "\<forall>k \<in> dir_keys hist p w. live (hist w k)" by (simp add: dir_keys_def)
  then have "list_current d n 0 (map (\<lambda>k. last (hist w k)) (sorted_list_of_set (dir_keys hist p w))) w =
      Some (limited n (map (\<lambda>k. js_KV (the (current (drv_json d) (hist w k)))) (sorted_list_of_set (dir_keys hist p w))), w)"
    using list_current_spec [OF assms(1) _ assms(4), of "sorted_list_of_set (dir_keys hist p w)" 0] assms(5) ws(1)
    by (simp add: limited_def take_map)
  moreover have "HasSuffix p ''/''" using assms(2) by (simp add: plain_dir_def)
  ultimately show ?thesis
    using currentRevision [of w] assms(1,3) by (simp add: nats_List_def ws)
qed

text \<open>The loop over histories.\<close>

lemma entry_at_mem: "entry_at r h = Some e \<Longrightarrow> e \<in> set h"
  by (auto simp: entry_at_def find_Some_iff) (metis nth_mem set_rev length_rev)

lemma decode_stored:
  assumes "fine w" "e \<in> set (hist w k)"
  shows "\<exists>v. decode (drv_json d) e = Some (v, None)"
  using decode_typed [OF assms] no_value [OF _ assms(2)] assms(1)
  by (cases "e_Operation e = KeyValuePut") (auto simp: decode_def)

lemma list_at_spec:
  assumes "fine w" "\<forall>k \<in> set ks. hist w k \<noteq> [] \<and> plain_path k" "0 \<le> n" "0 \<le> c"
  shows "list_at d n r c ks w =
     Some (let xs = List.map_filter (\<lambda>k. shown_at (drv_json d) r (hist w k)) ks
       in if n = 0 then xs else take (nat (n - c)) xs, w)"
  using assms(2,4)
proof (induction ks arbitrary: c)
  case (Cons k ks)
  have h: "kv_History (drv_kv d) k w = (Inr (hist w k), w)" using Cons.prems history [of w k] assms(1) by simp
  show ?case
  proof (cases "entry_at r (hist w k)")
    case None
    then show ?thesis using Cons h by (simp add: List.map_filter_simps shown_at_def)
  next
    case (Some e)
    then obtain v where v: "decode (drv_json d) e = Some (v, None)"
      using decode_stored [OF assms(1)] entry_at_mem by blast
    have "nat (n - c) = Suc (nat (n - (c + 1)))" if "c < n" using that by simp
    then show ?thesis
      using Cons.IH [of "c + 1"] Cons.IH [of c] Cons.prems h Some v
      by (auto simp: List.map_filter_simps shown_at_def Let_def)
  qed
qed (simp add: List.map_filter_simps)

lemma List_at_spec:
  assumes "fine w" "plain_dir p" "HasPrefix p start" "0 \<le> n" "r \<noteq> 0"
  shows "nats_List d p start n r w =
     Some ((r, limited n (List.map_filter (\<lambda>k. shown_at (drv_json d) r (hist w k))
       (sorted_list_of_set (dir_keys hist p w))), None), w)"
proof -
  note ws = watched [OF conjunct1 [OF assms(1)] assms(2)]
  have "\<forall>k \<in> set (sorted_list_of_set (dir_keys hist p w)). hist w k \<noteq> [] \<and> plain_path k"
  proof
    fix k assume "k \<in> set (sorted_list_of_set (dir_keys hist p w))"
    then have "hist w k \<noteq> []" using ws(1) by (simp add: dir_keys_def live_def)
    then show "hist w k \<noteq> [] \<and> plain_path k" using entries [of w "last (hist w k)" k] assms(1) by simp
  qed
  then have "list_at d n r 0 (sorted_list_of_set (dir_keys hist p w)) w =
      Some (limited n (List.map_filter (\<lambda>k. shown_at (drv_json d) r (hist w k)) (sorted_list_of_set (dir_keys hist p w))), w)"
    using list_at_spec [OF assms(1) _ assms(4), of _ 0 r] by (simp add: limited_def Let_def)
  moreover have "HasSuffix p ''/''" using assms(2) by (simp add: plain_dir_def)
  ultimately show ?thesis
    using currentRevision [of w] assms(1,3,5) by (simp add: nats_List_def ws)
qed

end

section \<open>The invariant of the stored values\<close>

text \<open>The operations of the backend, the states they lead to, and how many revisions one can use.\<close>

datatype nats_op =
    OpGet string int64
  | OpCreate string bytes int64
  | OpDelete string int64
  | OpUpdate string bytes int64 int64
  | OpList string int64 int64
  | OpCount string

fun run_op :: "'w Driver \<Rightarrow> nats_op \<Rightarrow> 'w \<Rightarrow> 'w option" where
  "run_op d (OpGet k r) w = map_option snd (nats_Get d k [] 0 r w)"
| "run_op d (OpCreate k val lease) w = map_option snd (nats_Create d k val lease w)"
| "run_op d (OpDelete k r) w = map_option snd (nats_Delete d k r w)"
| "run_op d (OpUpdate k val r lease) w = map_option snd (nats_Update d k val r lease w)"
| "run_op d (OpList p n r) w = map_option snd (nats_List d p p n r w)"
| "run_op d (OpCount p) w = map_option snd (nats_Count d p w)"

fun op_ok :: "nats_op \<Rightarrow> bool" where
  "op_ok (OpGet k r) \<longleftrightarrow> plain_path k"
| "op_ok (OpCreate k val lease) \<longleftrightarrow> plain_path k \<and> ascii k"
| "op_ok (OpDelete k r) \<longleftrightarrow> plain_path k"
| "op_ok (OpUpdate k val r lease) \<longleftrightarrow> plain_path k"
| "op_ok (OpList p n r) \<longleftrightarrow> plain_dir p \<and> 0 \<le> n"
| "op_ok (OpCount p) \<longleftrightarrow> plain_dir p"

fun op_cost :: "('w \<Rightarrow> string \<Rightarrow> KeyValueEntry list) \<Rightarrow> nats_op \<Rightarrow> 'w \<Rightarrow> int" where
  "op_cost hist (OpList p n r) w = int (card (dir_keys hist p w))"
| "op_cost hist op w = 2"

lemma HasPrefix_self [simp]: "HasPrefix p p"
  by (simp add: HasPrefix_def)

lemma value_at_mem: "value_at r h = Inr e \<Longrightarrow> e \<in> set h \<and> e_Operation e = KeyValuePut \<and> e_Revision e = r"
  by (auto simp: value_at_def find_Some_iff split: option.splits if_splits)

context nats_store
begin

lemma entry_ascii: "fine w \<Longrightarrow> e \<in> set (hist w k) \<Longrightarrow> ascii k"
  by (auto simp: typed_def entry_typed_def)

lemma Get_steps:
  assumes "fine w" "sq w + 1 < 2 ^ 63" "plain_path k"
  shows "\<exists>r w'. nats_Get d k rangeEnd limit rv w = Some (r, w') \<and> fine w' \<and> sq w \<le> sq w' \<and> sq w' \<le> sq w + 1"
proof (cases "rv \<le> 0")
  case True
  then have "nats_get d k rv incl u = nats_get d k 0 incl u" for incl u
    by (simp add: nats_get_def split: prod.split)
  then have "nats_Get d k rangeEnd limit rv w = nats_Get d k rangeEnd limit 0 w"
    by (simp add: nats_Get_def split: prod.split)
  then show ?thesis
    using Get_spec [OF assms, of rangeEnd limit] assms(1) by (auto simp: wrote_def split: option.splits)
next
  case False
  show ?thesis
  proof (cases "value_at rv (hist w k)")
    case (Inl e)
    then show ?thesis using False assms currentRevision [of w] by (auto simp: nats_Get_def get_at)
  next
    case (Inr e)
    note e = value_at_mem [OF this]
    obtain v kv where v: "decode (drv_json d) e = Some (v, None)" "js_KV v = Some kv" "Key kv = k"
      using decode_typed [OF assms(1)] e by blast
    have a: "ascii k" using entry_ascii [OF assms(1)] e by blast
    show ?thesis
      using get_entry_typed [OF assms(1-3) a v, where incl = False] Inr False assms currentRevision [of w] e
      by (auto simp: nats_Get_def get_at wrote_def split: if_splits)
  qed
qed

lemma list_current_steps:
  assumes "fine w" "sq w + int (length es) < 2 ^ 63"
    and "\<forall>e \<in> set es. \<exists>k v kv. plain_path k \<and> ascii k \<and> decode (drv_json d) e = Some (v, None) \<and>
      js_KV v = Some kv \<and> Key kv = k"
  shows "\<exists>r w'. list_current d n c es w = Some (r, w') \<and> fine w' \<and> sq w \<le> sq w' \<and> sq w' \<le> sq w + int (length es)"
  using assms
proof (induction es arbitrary: c w)
  case (Cons e es)
  obtain k v kv where v: "plain_path k" "ascii k" "decode (drv_json d) e = Some (v, None)" "js_KV v = Some kv" "Key kv = k"
    using Cons.prems(3) by auto
  have "sq w + 1 < 2 ^ 63" using Cons.prems(2) by simp
  then obtain b w1 where w1: "isKeyExpired d (e_Created e) v w = Some (b, w1)" "fine w1" "sq w \<le> sq w1" "sq w1 \<le> sq w + 1"
    using isKeyExpired_typed [OF Cons.prems(1) _ v(1,2,4,5), of "e_Created e"] Cons.prems(1) by (auto simp: wrote_def)
  have IH: "\<exists>r w'. list_current d n c es w1 = Some (r, w') \<and> fine w' \<and> sq w1 \<le> sq w' \<and> sq w' \<le> sq w1 + int (length es)" for c
    using Cons.IH [OF w1(2)] Cons.prems(2,3) w1(4) by simp
  show ?case
    using IH [of c] IH [of "c + 1"] v(3) w1 Cons.prems(1) by (cases b) fastforce+
qed simp

lemma List_steps:
  assumes "fine w" "plain_dir p" "0 \<le> n" "sq w + int (card (dir_keys hist p w)) < 2 ^ 63"
  shows "\<exists>r w'. nats_List d p p n rv w = Some (r, w') \<and> fine w' \<and> sq w \<le> sq w' \<and>
     sq w' \<le> sq w + int (card (dir_keys hist p w))"
proof (cases "rv = 0")
  case False
  then show ?thesis using List_at_spec [OF assms(1,2) HasPrefix_self assms(3)] assms(1) by simp
next
  case True
  note ws = watched [OF conjunct1 [OF assms(1)] assms(2)]
  let ?es = "map (\<lambda>k. last (hist w k)) (sorted_list_of_set (dir_keys hist p w))"
  have "\<forall>e \<in> set ?es. \<exists>k v kv. plain_path k \<and> ascii k \<and> decode (drv_json d) e = Some (v, None) \<and>
      js_KV v = Some kv \<and> Key kv = k"
  proof
    fix e assume "e \<in> set ?es"
    then obtain k where k: "live (hist w k)" "e = last (hist w k)" using ws(1) by (auto simp: dir_keys_def)
    then have "last (hist w k) \<in> set (hist w k)" by (simp add: live_def)
    then have "plain_path k" using entries assms(1) by blast
    with k show "\<exists>k v kv. plain_path k \<and> ascii k \<and> decode (drv_json d) e = Some (v, None) \<and> js_KV v = Some kv \<and> Key kv = k"
      using current_live [OF assms(1) k(1)] key_ascii [OF assms(1) k(1)] by auto
  qed
  from list_current_steps [OF assms(1) _ this] assms(4) obtain r w' where
    "list_current d n 0 ?es w = Some (r, w')" "fine w'" "sq w \<le> sq w'" "sq w' \<le> sq w + int (card (dir_keys hist p w))"
    by fastforce
  moreover have "HasSuffix p ''/''" using assms(2) by (simp add: plain_dir_def)
  ultimately show ?thesis using currentRevision [of w] assms(1) True by (simp add: nats_List_def ws)
qed

lemma run_op_steps:
  assumes "fine w" "op_ok opn" "sq w + op_cost hist opn w < 2 ^ 63"
  shows "\<exists>w'. run_op d opn w = Some w' \<and> fine w' \<and> sq w \<le> sq w' \<and> sq w' \<le> sq w + op_cost hist opn w"
proof (cases opn)
  case (OpGet k r)
  then show ?thesis using Get_steps [OF assms(1), of k "[]" 0 r] assms by fastforce
next
  case (OpCreate k val lease)
  then show ?thesis using Create_spec [OF assms(1), of k val lease] assms OpCreate
    by (auto simp: wrote_def split: option.splits)
next
  case (OpDelete k r)
  then show ?thesis using Delete_spec [OF assms(1), of k r] assms
    by (fastforce simp: wrote_def split: option.splits if_splits)
next
  case (OpUpdate k val r lease)
  then show ?thesis using Update_spec [OF assms(1), of k val r lease] assms
    by (fastforce simp: wrote_def split: option.splits if_splits)
next
  case (OpList p n r)
  then show ?thesis using List_steps [OF assms(1), of p n r] assms by fastforce
next
  case (OpCount p)
  then show ?thesis using Count_spec [OF assms(1), of p] assms by simp
qed

text \<open>A read at a revision finds the value of exactly that revision only.\<close>

lemma Get_at_other:
  assumes "fine w" "plain_path k" "0 < r" "\<forall>e \<in> set (hist w k). e_Revision e = r \<longrightarrow> e_Operation e \<noteq> KeyValuePut"
  shows "nats_Get d k rangeEnd limit r w = Some ((sq w, None, None), w)"
proof -
  have "value_at r (hist w k) = Inl ErrKeyNotFound"
    using assms(4) by (auto simp: value_at_def find_Some_iff split: option.split)
  then show ?thesis using assms currentRevision [of w] by (simp add: nats_Get_def get_at)
qed

lemma created_view:
  assumes "current (drv_json d) (hist w k) = Some (created k val lease prev r)" "lease \<le> 0"
  shows "nats_view d hist w k = js_KV (created k val lease prev r)"
  using assms by (simp add: nats_view_def created_def expired_def)

lemma dead_view: "\<not> live (hist w k) \<Longrightarrow> nats_view d hist w k = None"
  by (simp add: nats_view_def current_def)

text \<open>What a watch looks up as the previous value.\<close>

lemma watch_event:
  assumes "fine w" "sq w + 1 < 2 ^ 63" "plain_path k" "nats_view d hist w k = Some kv" "r < ModRevision kv"
    and "current (drv_json d) (hist w k) = Some v" "js_PrevRevision v = 0"
  shows "watch_updates d r [Some (last (hist w k))] w =
     Some ([[\<lparr>Delete = js_Delete v, Create = js_Create v, KV = Some kv, PrevKV = Some kv\<rparr>]], w)"
proof -
  obtain u where g: "nats_get d k 0 False w = Some ((ModRevision kv, Some u, None), w)" "js_KV u = Some kv"
    using get_present [OF assms(1-4)] by blast
  have lv: "live (hist w k)" using assms(6) by (simp add: current_def split: if_splits)
  have l: "last (hist w k) \<in> set (hist w k)" using lv by (simp add: live_def)
  obtain kv' where v: "decode (drv_json d) (last (hist w k)) = Some (v, None)" "js_KV v = Some kv'"
      "ModRevision kv' = e_Revision (last (hist w k))"
    using current_live [OF assms(1) lv] assms(6) by auto
  have "kv' = kv" using assms(4,6) v(2) by (simp add: nats_view_def split: if_splits)
  moreover have "e_Key (last (hist w k)) = k" "i64 (e_Revision (last (hist w k))) = e_Revision (last (hist w k))"
    using entries [OF conjunct1 [OF assms(1)] l] revision_i64 [OF conjunct1 [OF assms(1)] l] by simp_all
  ultimately show ?thesis using g v assms(5,7) by simp
qed

end

text \<open>Keys below one resource share the lock of their folder.\<close>

lemma getTopLevelKey_folder:
  assumes "CHR ''/'' \<notin> set a" "CHR ''/'' \<notin> set b"
  shows "getTopLevelKey (CHR ''/'' # a @ CHR ''/'' # b @ rest) =
     CHR ''/'' # a @ CHR ''/'' # b @ takeWhile (\<lambda>c. c \<noteq> CHR ''/'') rest"
  using assms by (simp add: getTopLevelKey_def Let_def dropWhile_append takeWhile_append)

text \<open>The search for the next revision picks an entry of the histories.\<close>

lemma next_step_mem:
  "snd (fold (next_step r) hs nxt) = Some e \<Longrightarrow> snd nxt = Some e \<or> (\<exists>h \<in> set hs. e \<in> set h)"
proof (induction hs arbitrary: nxt)
  case (Cons h hs)
  have "snd (next_step r h nxt) = snd nxt \<or> (\<exists>e \<in> set h. snd (next_step r h nxt) = Some e)"
    by (auto simp: next_step_def Let_def find_Some_iff split: option.split) (metis nth_mem set_rev length_rev)
  then show ?case using Cons.IH [of "next_step r h nxt"] Cons.prems by auto
qed simp

context nats_store
begin

lemma read_histories_spec:
  "good w \<Longrightarrow> \<forall>k \<in> set ks. hist w k \<noteq> [] \<and> plain_path k \<Longrightarrow>
     read_histories d startKey ks w = (map (hist w) (filter (\<lambda>k. k \<noteq> startKey) ks), w)"
  using history [of w] by (induction ks) auto

lemma list_from_spec:
  assumes "fine w" "plain_dir p" "plain_path startKey" "hist w startKey \<noteq> []"
  shows "\<exists>kvs. list_from d p startKey rv r w = Some ((rv, kvs, None), w) \<and> length kvs \<le> 1"
proof -
  note ws = watched [OF conjunct1 [OF assms(1)] assms(2)]
  let ?ks = "sorted_list_of_set (dir_keys hist p w)"
  have "hist w k \<noteq> [] \<and> plain_path k" if "k \<in> set ?ks" for k
  proof -
    have "hist w k \<noteq> []" using that ws(1) by (simp add: dir_keys_def live_def)
    then show ?thesis using entries [of w "last (hist w k)" k] assms(1) by simp
  qed
  then have rd: "read_histories d startKey ?ks w = (map (hist w) (filter (\<lambda>k. k \<noteq> startKey) ?ks), w)"
    using read_histories_spec assms(1) by blast
  let ?hs = "hist w startKey # map (hist w) (filter (\<lambda>k. k \<noteq> startKey) ?ks)"
  have dec: "\<exists>v. decode (drv_json d) e = Some (v, None)" if "snd (fold (next_step r) ?hs (m, None)) = Some e" for m e
  proof -
    have "\<exists>k. e \<in> set (hist w k)" using next_step_mem [OF that] by auto
    then show ?thesis using decode_stored [OF assms(1)] by blast
  qed
  have h: "kv_History (drv_kv d) startKey w = (Inr (hist w startKey), w)"
    using history [of w startKey] assms(1,3,4) by simp
  define m where "m = (case entry_at r (hist w startKey) of None \<Rightarrow> 0 | Some e \<Rightarrow> i64 (e_Revision e))"
  obtain n e where f: "fold (next_step r) ?hs (m, None) = (n, e)" by fastforce
  have "list_from d p startKey rv r w =
     (case e of None \<Rightarrow> Some ((rv, [], None), w)
      | Some e \<Rightarrow> decode (drv_json d) e \<bind> (\<lambda>(v, err).
          if err \<noteq> None then Some ((0, [], err), w) else Some ((rv, [js_KV v], None), w)))"
    using ws(3) rd f by (cases e) (simp_all add: list_from_def Let_def h m_def [symmetric])
  then show ?thesis using dec [of m] f by (cases e) force+
qed

end

end
