(* ===== verification/NatsProperties.thy ===== *)
theory NatsProperties
  imports NatsList
begin

text \<open>
  The properties of the NATS driver over any store that keeps the contract \<open>nats_store\<close>, with their
  examples on the store in memory.
\<close>

section \<open>The states of the examples\<close>

text \<open>The store in memory after the creation of one key.\<close>

definition mem_ab :: mem where
  "mem_ab = [(''gb.gc'', Some ''+.t.f./a/b.+.+.v.+'')]"

lemma mem_driver_json [simp]: "drv_json mem_driver = field_json"
  by (simp add: mem_driver_def)

lemma mem_ab_path: "plain_path ''/a/b''" "ascii ''/a/b''" "plain_dir ''/a/''"
  by code_simp+

lemma mem_ab_created: "nats_Create mem_driver ''/a/b'' ''v'' 0 [] = Some ((1, None), mem_ab)"
  by code_simp

lemma mem_ab_ok: "mem_store_good mem_ab" "typed field_json mem_paths mem_ab" "mem_sq mem_ab = 1"
proof -
  have "nats_view mem_driver mem_paths [] ''/a/b'' = None" by code_simp
  then show "mem_store_good mem_ab" "typed field_json mem_paths mem_ab" "mem_sq mem_ab = 1"
    using nats_store.Create_spec [OF mem_store _ _ mem_ab_path(1,2), of "[]" "''v''" 0] mem_empty mem_ab_created
    by (simp_all add: wrote_def mem_sq_def mem_ab_def)
qed

lemma mem_ab_view: "nats_view mem_driver mem_paths mem_ab ''/a/b'' =
     Some \<lparr>Key = ''/a/b'', CreateRevision = 0, ModRevision = 1, Value = ''v'', Lease = 0\<rparr>"
  by code_simp

lemma mem_ab_keys: "dir_keys mem_paths ''/a/'' mem_ab = {''/a/b''}"
proof -
  have "getKeys mem_driver ''/a/'' True mem_ab = (Inr [''/a/b''], mem_ab)" by code_simp
  then have "sorted_list_of_set (dir_keys mem_paths ''/a/'' mem_ab) = [''/a/b'']"
    using nats_store.watched(3) [OF mem_store mem_ab_ok(1) mem_ab_path(3)] by simp
  then show ?thesis
    using nats_store.watched(1) [OF mem_store mem_ab_ok(1) mem_ab_path(3)]
    by (metis empty_set list.simps(15) set_sorted_list_of_set)
qed

section \<open>Properties\<close>

text \<open>
  A creation in the NATS driver succeeds exactly when the store shows no value of the key (none,
  a deleted or an expired one). It answers with the revision that the bucket gave the value, changes no
  other key, and a read that follows finds the value, with the create revision 0.
\<close>

lemma nats_create:
  assumes "nats_store d good hist sq" "good w" "typed (drv_json d) hist w" "sq w + 2 < 2 ^ 63"
    "plain_path k" "ascii k" "lease \<le> 0"
  shows "case nats_view d hist w k of
      Some kv \<Rightarrow> nats_Create d k val lease w = Some ((0, Some ErrKeyExists), w)
    | None \<Rightarrow> \<exists>w'. nats_Create d k val lease w = Some ((sq w', None), w') \<and> sq w < sq w' \<and>
        typed (drv_json d) hist w' \<and> (\<forall>l. l \<noteq> k \<longrightarrow> hist w' l = hist w l) \<and>
        (sq w' + 1 < 2 ^ 63 \<longrightarrow> nats_Get d k [] 0 0 w' =
          Some ((sq w', Some \<lparr>Key = k, CreateRevision = 0, ModRevision = sq w', Value = val, Lease = lease\<rparr>, None), w'))"
proof (cases "nats_view d hist w k")
  case None
  obtain w' prev where w': "nats_Create d k val lease w = Some ((sq w', None), w')"
      "wrote (drv_json d) good hist sq k w w'" "sq w < sq w'"
      "current (drv_json d) (hist w' k) = Some (created k val lease prev (sq w'))"
    using nats_store.Create_spec [OF assms(1) conjI [OF assms(2,3)] assms(4-6), of val lease] None by auto
  have "nats_view d hist w' k = js_KV (created k val lease prev (sq w'))"
    by (rule nats_store.created_view [OF assms(1) w'(4) assms(7)])
  then show ?thesis
    using None w' nats_store.Get_spec [OF assms(1) _ _ assms(5), of w' "[]" 0]
    by (auto simp: wrote_def created_def)
qed (use nats_store.Create_spec [OF assms(1) conjI [OF assms(2,3)] assms(4-6), of val lease] in simp)

text \<open>
  An update in the NATS driver is a compare-and-swap: at the revision of the current value it
  writes the next revision and keeps the create revision (that of the first value, when the value was
  created); at any other revision, or without a value, it writes nothing and says so.
\<close>

lemma nats_update:
  assumes "nats_store d good hist sq" "good w" "typed (drv_json d) hist w" "sq w + 2 < 2 ^ 63" "plain_path k"
  shows "case nats_view d hist w k of
      Some kv \<Rightarrow>
        (if ModRevision kv = r
         then \<exists>w'. nats_Update d k val r lease w = Some ((sq w + 1, Some (updated k val lease kv (sq w + 1)), True, None), w') \<and>
           sq w' = sq w + 1 \<and> typed (drv_json d) hist w' \<and> (\<forall>l. l \<noteq> k \<longrightarrow> hist w' l = hist w l) \<and>
           map_option js_KV (current (drv_json d) (hist w' k)) = Some (Some (updated k val lease kv (sq w')))
         else nats_Update d k val r lease w = Some ((ModRevision kv, Some kv, False, None), w))
    | None \<Rightarrow> \<exists>w'. nats_Update d k val r lease w = Some ((0, None, False, None), w') \<and>
        typed (drv_json d) hist w' \<and> (\<forall>l. l \<noteq> k \<longrightarrow> hist w' l = hist w l)"
  using nats_store.Update_spec [OF assms(1) conjI [OF assms(2,3)] assms(4,5), where r = r and val = val and lease = lease]
  by (fastforce simp: wrote_def split: option.splits if_splits)

text \<open>
  A deletion in the NATS driver removes the value of a key when it is asked for no revision or for
  that of the value, and uses two revisions for it; it answers with the first one and the removed value.
  At another revision nothing changes.
\<close>

lemma nats_delete:
  assumes "nats_store d good hist sq" "good w" "typed (drv_json d) hist w" "sq w + 2 < 2 ^ 63" "plain_path k"
    "nats_view d hist w k = Some kv"
  shows "if r = 0 \<or> r = ModRevision kv
     then \<exists>w'. nats_Delete d k r w = Some ((sq w + 1, Some kv, True, None), w') \<and> sq w' = sq w + 2 \<and>
       typed (drv_json d) hist w' \<and> (\<forall>l. l \<noteq> k \<longrightarrow> hist w' l = hist w l) \<and> nats_view d hist w' k = None
     else nats_Delete d k r w = Some ((ModRevision kv, Some kv, False, None), w)"
  using nats_store.Delete_spec [OF assms(1) conjI [OF assms(2,3)] assms(4,5), where r = r] assms(6)
    nats_store.dead_view [OF assms(1)]
  by (fastforce simp: wrote_def split: if_splits)



text \<open>
  C33: a listing of a directory at no revision answers with the current values of the keys below it, in
  the order of the keys and up to the limit, together with the current revision (while no lease can
  expire). A limit only cuts the answer off.
\<close>

theorem nats_list_current:
  assumes "nats_store d good hist sq" "good w" "typed (drv_json d) hist w" "plain_dir p" "HasPrefix p start" "0 \<le> n"
    "\<forall>k \<in> dir_keys hist p w. \<forall>v kv. current (drv_json d) (hist w k) = Some v \<longrightarrow> js_KV v = Some kv \<longrightarrow> Lease kv \<le> 0"
  shows "nats_List d p start n 0 w =
     Some ((sq w, limited n (map (\<lambda>k. js_KV (the (current (drv_json d) (hist w k))))
       (sorted_list_of_set (dir_keys hist p w))), None), w)"
  by (rule nats_store.List_current_spec [OF assms(1) conjI [OF assms(2,3)] assms(4-7)])

theorem nats_list_current_witness:
  "nats_List mem_driver ''/a/'' ''/a/'' 5 0 mem_ab =
     Some ((1, [Some \<lparr>Key = ''/a/b'', CreateRevision = 0, ModRevision = 1, Value = ''v'', Lease = 0\<rparr>], None), mem_ab)"
proof -
  have c: "current field_json (mem_paths mem_ab ''/a/b'') = Some (created ''/a/b'' ''v'' 0 0 1)" by code_simp
  show ?thesis
    using nats_list_current [OF mem_store, of mem_ab "''/a/''" "''/a/''" 5] mem_ab_ok mem_ab_path(3) c
    by (simp add: mem_ab_keys created_def limited_def)
qed

text \<open>
  C34: a listing at a revision shows, of every key that is alive now, the newest entry that is not
  newer than the revision, whatever it is: keys deleted since are missing, the value of a deletion that
  has been written is shown like a live one, and a deletion of the bucket is shown as no value (nil).
\<close>

theorem nats_list_at:
  assumes "nats_store d good hist sq" "good w" "typed (drv_json d) hist w" "plain_dir p" "HasPrefix p start" "0 \<le> n" "r \<noteq> 0"
  shows "nats_List d p start n r w =
     Some ((r, limited n (List.map_filter (\<lambda>k. shown_at (drv_json d) r (hist w k))
       (sorted_list_of_set (dir_keys hist p w))), None), w)"
  by (rule nats_store.List_at_spec [OF assms(1) conjI [OF assms(2,3)] assms(4-7)])

theorem nats_list_at_witness:
  "nats_List mem_driver ''/a/'' ''/a/'' 0 9 mem_ab =
     Some ((9, [Some \<lparr>Key = ''/a/b'', CreateRevision = 0, ModRevision = 1, Value = ''v'', Lease = 0\<rparr>], None), mem_ab)"
proof -
  have c: "shown_at field_json 9 (mem_paths mem_ab ''/a/b'') = Some (js_KV (created ''/a/b'' ''v'' 0 0 1))" by code_simp
  show ?thesis
    using nats_list_at [OF mem_store, of mem_ab "''/a/''" "''/a/''" 0 9] mem_ab_ok mem_ab_path(3) c
    by (simp add: mem_ab_keys created_def limited_def List.map_filter_simps)
qed

text \<open>
  A read at a revision finds a value only if it was written at exactly that revision: at any
  other one, also at a later one at which the value is still current, the answer is that there is none.
\<close>

lemma nats_get_exact_revision:
  assumes "nats_store d good hist sq" "good w" "typed (drv_json d) hist w" "plain_path k" "0 < r"
    "\<forall>e \<in> set (hist w k). e_Revision e = r \<longrightarrow> e_Operation e \<noteq> KeyValuePut"
  shows "nats_Get d k rangeEnd limit r w = Some ((sq w, None, None), w)"
  by (rule nats_store.Get_at_other [OF assms(1) conjI [OF assms(2,3)] assms(4-6)])

text \<open>
  The event that a watch delivers for a created key carries the created value itself as its
  previous value: the previous revision is 0, and a read at revision 0 is a read of the current value.
\<close>

lemma nats_watch_create_event:
  assumes "nats_store d good hist sq" "good w" "typed (drv_json d) hist w" "sq w + 1 < 2 ^ 63" "plain_path k"
    "nats_view d hist w k = Some kv" "r < ModRevision kv"
    "current (drv_json d) (hist w k) = Some v" "js_PrevRevision v = 0"
  shows "watch_updates d r [Some (last (hist w k))] w =
     Some ([[\<lparr>Delete = js_Delete v, Create = js_Create v, KV = Some kv, PrevKV = Some kv\<rparr>]], w)"
  by (rule nats_store.watch_event [OF assms(1) conjI [OF assms(2,3)] assms(4-9)])

text \<open>
  A listing of a directory that continues after a start key returns, and with one key at most,
  whatever its limit is.
\<close>

lemma nats_list_page:
  assumes "nats_store d good hist sq" "good w" "typed (drv_json d) hist w" "plain_dir p" "plain_path startKey"
    "\<not> HasPrefix p startKey" "hist w startKey \<noteq> []"
  shows "\<exists>kvs. nats_List d p startKey limit r w = Some ((sq w, kvs, None), w) \<and> length kvs \<le> 1"
proof -
  have "\<not> (HasSuffix p ''/'' \<and> (p = startKey \<or> HasPrefix p startKey))" "startKey \<noteq> []"
    using assms(5,6) by (auto simp: plain_path_def path_ok_def)
  then have "nats_List d p startKey limit r w = list_from d p startKey (sq w) r w"
    using nats_store.currentRevision [OF assms(1,2)] by (auto simp: nats_List_def Let_def)
  then show ?thesis
    using nats_store.list_from_spec [OF assms(1) conjI [OF assms(2,3)] assms(4,5,7), of "sq w" r] by simp
qed

end
