(* ===== verification/NatsServer.thy ===== *)
theory NatsServer
  imports NatsProperties Client
begin

text \<open>
  The etcd transactions of the server over the NATS driver: what a client sees when the backend that
  \<open>newBackend\<close> returns serves its requests, as lemmas of the contract \<open>nats_store\<close> and as properties of
  every store that keeps it.
\<close>

section \<open>Requests on a single key\<close>

text \<open>The answer to a range request for one key.\<close>

definition kv_response :: "int64 \<Rightarrow> KeyValue option \<Rightarrow> PbRangeResponse" where
  "kv_response rv kv = \<lparr>pr_Header = txnHeader rv, pr_Kvs = toKVs [kv], pr_More = False, pr_Count = 0\<rparr>"

context nats_store
begin

lemma server_get:
  assumes "fine w" "sq w + 1 < 2 ^ 63" "plain_path k"
  shows "case nats_view d hist w k of
      Some kv \<Rightarrow> bridge_Range (nats_backend d) (get_request k) w = Some (Inr (kv_response (ModRevision kv) (Some kv)), w)
    | None \<Rightarrow> \<exists>w'. bridge_Range (nats_backend d) (get_request k) w = Some (Inr (kv_response (sq w) None), w') \<and>
        wrt k w w' \<and> sq w' \<le> sq w + 1"
  using Get_spec [OF assms, of "[]" 0]
  by (fastforce simp: bridge_Range_def limited_Range_def limited_get_def nats_backend_def kv_response_def toKVs_def
      split: option.splits)

lemma server_create:
  assumes "fine w" "sq w + 2 < 2 ^ 63" "plain_path k" "ascii k"
  shows "case nats_view d hist w k of
      Some kv \<Rightarrow> bridge_Txn (nats_backend d) (create_txn k val lease) w =
        Some (Inr \<lparr>txn_Header = txnHeader 0, Succeeded = False, Responses = []\<rparr>, w)
    | None \<Rightarrow> \<exists>w' prev. bridge_Txn (nats_backend d) (create_txn k val lease) w =
          Some (Inr \<lparr>txn_Header = txnHeader (sq w'), Succeeded = True, Responses = put_responses (sq w')\<rparr>, w') \<and>
        wrt k w w' \<and> sq w < sq w' \<and> sq w' \<le> sq w + 2 \<and>
        current (drv_json d) (hist w' k) = Some (created k val lease prev (sq w'))"
  using Create_spec [OF assms, of val lease]
  by (fastforce simp: bridge_Txn_def limited_Txn_def limited_create_def nats_backend_def split: option.splits)

lemma server_update:
  assumes "fine w" "sq w + 2 < 2 ^ 63" "plain_path k" "r \<noteq> 0"
  shows "case nats_view d hist w k of
      Some kv \<Rightarrow>
        (if ModRevision kv = r
         then \<exists>w'. bridge_Txn (nats_backend d) (update_txn k r val lease) w =
             Some (Inr \<lparr>txn_Header = txnHeader (sq w'), Succeeded = True, Responses = put_responses (sq w')\<rparr>, w') \<and>
           wrt k w w' \<and> sq w' = sq w + 1 \<and> current (drv_json d) (hist w' k) =
             Some \<lparr>js_KV = Some (updated k val lease kv (sq w')), js_PrevRevision = r, js_Create = False, js_Delete = False\<rparr>
         else bridge_Txn (nats_backend d) (update_txn k r val lease) w =
             Some (Inr \<lparr>txn_Header = txnHeader (ModRevision kv), Succeeded = False,
                        Responses = range_responses (ModRevision kv) (Some kv)\<rparr>, w))
    | None \<Rightarrow> \<exists>w'. bridge_Txn (nats_backend d) (update_txn k r val lease) w =
          Some (Inr \<lparr>txn_Header = txnHeader 0, Succeeded = False, Responses = range_responses 0 None\<rparr>, w') \<and>
        wrt k w w' \<and> sq w' \<le> sq w + 1"
  using Update_spec [OF assms(1-3), of val r lease] assms(4)
  by (fastforce simp: bridge_Txn_def limited_Txn_def limited_update_def nats_backend_def split: option.splits if_splits)

lemma server_delete:
  assumes "fine w" "sq w + 2 < 2 ^ 63" "plain_path k" "nats_view d hist w k = Some kv"
  shows "if r = 0 \<or> ModRevision kv = r
     then \<exists>w'. bridge_Txn (nats_backend d) (delete_txn k r) w =
         Some (Inr \<lparr>txn_Header = txnHeader (sq w + 1), Succeeded = True,
                    Responses = [ResponseDeleteRange \<lparr>del_Header = txnHeader (sq w + 1), PrevKvs = toKVs [Some kv]\<rparr>]\<rparr>, w') \<and>
       wrt k w w' \<and> sq w' = sq w + 2 \<and> \<not> live (hist w' k)
     else bridge_Txn (nats_backend d) (delete_txn k r) w =
         Some (Inr \<lparr>txn_Header = txnHeader (ModRevision kv), Succeeded = False,
                    Responses = range_responses (ModRevision kv) (Some kv)\<rparr>, w)"
  using Delete_spec [OF assms(1-3), of r] assms(4)
  by (fastforce simp: bridge_Txn_def limited_Txn_def limited_delete_def nats_backend_def split: if_splits)

lemma settled_view:
  assumes "current (drv_json d) (hist w k) = Some v" "\<not> js_Delete v" "js_KV v = Some kv" "Lease kv \<le> 0"
  shows "nats_view d hist w k = Some kv"
  using assms by (simp add: nats_view_def expired_def)

end

section \<open>Properties\<close>

text \<open>
  C30: a creation through the server over the NATS driver. When the store shows a value of the key, the
  transaction is not performed and nothing changes, and its answer has the revision 0 in its header.
  Otherwise it succeeds at the revision that the bucket gave the value and changes no other key, and a
  range request that follows finds the value, with the create revision 0.
\<close>

theorem nats_txn_create:
  assumes "nats_store d good hist sq" "good w" "typed (drv_json d) hist w" "sq w + 2 < 2 ^ 63"
    "plain_path k" "ascii k" "lease \<le> 0"
  shows "case nats_view d hist w k of
      Some kv \<Rightarrow> bridge_Txn (nats_backend d) (create_txn k val lease) w =
        Some (Inr \<lparr>txn_Header = txnHeader 0, Succeeded = False, Responses = []\<rparr>, w)
    | None \<Rightarrow> \<exists>w'. bridge_Txn (nats_backend d) (create_txn k val lease) w =
          Some (Inr \<lparr>txn_Header = txnHeader (sq w'), Succeeded = True, Responses = put_responses (sq w')\<rparr>, w') \<and>
        sq w < sq w' \<and> good w' \<and> typed (drv_json d) hist w' \<and> (\<forall>l. l \<noteq> k \<longrightarrow> hist w' l = hist w l) \<and>
        (sq w' + 1 < 2 ^ 63 \<longrightarrow> bridge_Range (nats_backend d) (get_request k) w' =
          Some (Inr (kv_response (sq w')
            (Some \<lparr>Key = k, CreateRevision = 0, ModRevision = sq w', Value = val, Lease = lease\<rparr>)), w'))"
proof (cases "nats_view d hist w k")
  case None
  obtain w' prev where w': "bridge_Txn (nats_backend d) (create_txn k val lease) w =
        Some (Inr \<lparr>txn_Header = txnHeader (sq w'), Succeeded = True, Responses = put_responses (sq w')\<rparr>, w')"
      "wrote (drv_json d) good hist sq k w w'" "sq w < sq w'"
      "current (drv_json d) (hist w' k) = Some (created k val lease prev (sq w'))"
    using nats_store.server_create [OF assms(1) conjI [OF assms(2,3)] assms(4-6), of val lease] None by auto
  have "nats_view d hist w' k = js_KV (created k val lease prev (sq w'))"
    by (rule nats_store.created_view [OF assms(1) w'(4) assms(7)])
  then show ?thesis
    using None w' nats_store.server_get [OF assms(1) _ _ assms(5), of w']
    by (auto simp: wrote_def created_def)
qed (use nats_store.server_create [OF assms(1) conjI [OF assms(2,3)] assms(4-6), of val lease] in simp)

theorem nats_txn_create_witness:
  "\<exists>w'. bridge_Txn (nats_backend mem_driver) (create_txn ''/a/b'' ''v'' 0) [] =
      Some (Inr \<lparr>txn_Header = txnHeader (mem_sq w'), Succeeded = True, Responses = put_responses (mem_sq w')\<rparr>, w') \<and>
    0 < mem_sq w'"
proof -
  have "nats_view mem_driver mem_paths [] ''/a/b'' = None" by code_simp
  then show ?thesis
    using nats_txn_create [OF mem_store, of "[]" "''/a/b''" 0 "''v''"] mem_empty mem_ab_path by auto
qed

text \<open>
  C31: an update through the server over the NATS driver is a compare-and-swap. At the revision of the
  current value it succeeds at the next revision of the bucket, and a range request that follows finds
  the new value, created at the revision of the first one. At another revision nothing changes and the
  answer holds the current value; without a value no other key changes and the answer has none.
\<close>

theorem nats_txn_update:
  assumes "nats_store d good hist sq" "good w" "typed (drv_json d) hist w" "sq w + 2 < 2 ^ 63"
    "plain_path k" "r \<noteq> 0" "lease \<le> 0"
  shows "case nats_view d hist w k of
      Some kv \<Rightarrow>
        (if ModRevision kv = r
         then \<exists>w'. bridge_Txn (nats_backend d) (update_txn k r val lease) w =
             Some (Inr \<lparr>txn_Header = txnHeader (sq w + 1), Succeeded = True, Responses = put_responses (sq w + 1)\<rparr>, w') \<and>
           sq w' = sq w + 1 \<and> good w' \<and> typed (drv_json d) hist w' \<and> (\<forall>l. l \<noteq> k \<longrightarrow> hist w' l = hist w l) \<and>
           bridge_Range (nats_backend d) (get_request k) w' =
             Some (Inr (kv_response (sq w + 1) (Some (updated k val lease kv (sq w + 1)))), w')
         else bridge_Txn (nats_backend d) (update_txn k r val lease) w =
             Some (Inr \<lparr>txn_Header = txnHeader (ModRevision kv), Succeeded = False,
                        Responses = range_responses (ModRevision kv) (Some kv)\<rparr>, w))
    | None \<Rightarrow> \<exists>w'. bridge_Txn (nats_backend d) (update_txn k r val lease) w =
          Some (Inr \<lparr>txn_Header = txnHeader 0, Succeeded = False, Responses = range_responses 0 None\<rparr>, w') \<and>
        typed (drv_json d) hist w' \<and> (\<forall>l. l \<noteq> k \<longrightarrow> hist w' l = hist w l)"
proof (cases "nats_view d hist w k")
  case (Some kv)
  note step = nats_store.server_update [OF assms(1) conjI [OF assms(2,3)] assms(4-6), of val lease]
  show ?thesis
  proof (cases "ModRevision kv = r")
    case True
    obtain w' where w': "bridge_Txn (nats_backend d) (update_txn k r val lease) w =
          Some (Inr \<lparr>txn_Header = txnHeader (sq w'), Succeeded = True, Responses = put_responses (sq w')\<rparr>, w')"
        "wrote (drv_json d) good hist sq k w w'" "sq w' = sq w + 1"
        "current (drv_json d) (hist w' k) = Some \<lparr>js_KV = Some (updated k val lease kv (sq w')),
           js_PrevRevision = r, js_Create = False, js_Delete = False\<rparr>"
      using step Some True by auto
    have "nats_view d hist w' k = Some (updated k val lease kv (sq w'))"
      by (rule nats_store.settled_view [OF assms(1) w'(4)]) (simp_all add: updated_def assms(7))
    then show ?thesis
      using Some True w' assms(4) nats_store.server_get [OF assms(1) _ _ assms(5), of w']
      by (auto simp: wrote_def updated_def)
  qed (use step Some in simp)
next
  case None
  then show ?thesis
    using nats_store.server_update [OF assms(1) conjI [OF assms(2,3)] assms(4-6), of val lease]
    by (auto simp: wrote_def)
qed

theorem nats_txn_update_witness:
  "\<exists>w'. bridge_Txn (nats_backend mem_driver) (update_txn ''/a/b'' 1 ''w'' 0) mem_ab =
      Some (Inr \<lparr>txn_Header = txnHeader 2, Succeeded = True, Responses = put_responses 2\<rparr>, w') \<and>
    bridge_Range (nats_backend mem_driver) (get_request ''/a/b'') w' =
      Some (Inr (kv_response 2
        (Some \<lparr>Key = ''/a/b'', CreateRevision = 1, ModRevision = 2, Value = ''w'', Lease = 0\<rparr>)), w')"
  using nats_txn_update [OF mem_store, of mem_ab "''/a/b''", where r = 1 and val = "''w''" and lease = 0]
    mem_ab_ok mem_ab_path mem_ab_view
  by (auto simp: updated_def)

text \<open>
  C32: a deletion through the server over the NATS driver removes the value of a key when it is asked
  for no revision or for that of the value. It uses two revisions of the bucket and answers with the
  first one and the removed value, and a range request that follows finds nothing. At another revision
  nothing changes and the answer holds the current value.
\<close>

theorem nats_txn_delete:
  assumes "nats_store d good hist sq" "good w" "typed (drv_json d) hist w" "sq w + 3 < 2 ^ 63"
    "plain_path k" "nats_view d hist w k = Some kv"
  shows "if r = 0 \<or> r = ModRevision kv
     then \<exists>w1 w2. bridge_Txn (nats_backend d) (delete_txn k r) w =
         Some (Inr \<lparr>txn_Header = txnHeader (sq w + 1), Succeeded = True,
                    Responses = [ResponseDeleteRange \<lparr>del_Header = txnHeader (sq w + 1), PrevKvs = toKVs [Some kv]\<rparr>]\<rparr>, w1) \<and>
       sq w1 = sq w + 2 \<and> good w1 \<and> typed (drv_json d) hist w1 \<and> (\<forall>l. l \<noteq> k \<longrightarrow> hist w1 l = hist w l) \<and>
       bridge_Range (nats_backend d) (get_request k) w1 = Some (Inr (kv_response (sq w + 2) None), w2)
     else bridge_Txn (nats_backend d) (delete_txn k r) w =
         Some (Inr \<lparr>txn_Header = txnHeader (ModRevision kv), Succeeded = False,
                    Responses = range_responses (ModRevision kv) (Some kv)\<rparr>, w)"
proof -
  have sq: "sq w + 2 < 2 ^ 63" using assms(4) by simp
  note step = nats_store.server_delete [OF assms(1) conjI [OF assms(2,3)] sq assms(5,6), of r]
  show ?thesis
  proof (cases "r = 0 \<or> r = ModRevision kv")
    case True
    then obtain w1 where w1: "bridge_Txn (nats_backend d) (delete_txn k r) w =
         Some (Inr \<lparr>txn_Header = txnHeader (sq w + 1), Succeeded = True,
                    Responses = [ResponseDeleteRange \<lparr>del_Header = txnHeader (sq w + 1), PrevKvs = toKVs [Some kv]\<rparr>]\<rparr>, w1)"
        "wrote (drv_json d) good hist sq k w w1" "sq w1 = sq w + 2" "\<not> live (hist w1 k)"
      using step by (auto split: if_splits)
    have "nats_view d hist w1 k = None" by (rule nats_store.dead_view [OF assms(1) w1(4)])
    then show ?thesis
      using True w1 assms(4) nats_store.server_get [OF assms(1) _ _ assms(5), of w1]
      by (auto simp: wrote_def)
  qed (use step in auto)
qed

theorem nats_txn_delete_witness:
  "\<exists>w1 w2. bridge_Txn (nats_backend mem_driver) (delete_txn ''/a/b'' 1) mem_ab =
      Some (Inr \<lparr>txn_Header = txnHeader 2, Succeeded = True, Responses = [ResponseDeleteRange
        \<lparr>del_Header = txnHeader 2, PrevKvs = toKVs [Some \<lparr>Key = ''/a/b'', CreateRevision = 0, ModRevision = 1,
           Value = ''v'', Lease = 0\<rparr>]\<rparr>]\<rparr>, w1) \<and>
    bridge_Range (nats_backend mem_driver) (get_request ''/a/b'') w1 = Some (Inr (kv_response 3 None), w2)"
  using nats_txn_delete [OF mem_store, of mem_ab "''/a/b''" _ 1, OF _ _ _ _ mem_ab_view] mem_ab_ok mem_ab_path
  by auto

end
