(* ===== verification/Url.thy ===== *)
theory Url
  imports Codec "HOL-Library.List_Lexorder" "HOL-Library.Char_ord"
begin

text \<open>
  What the drivers use of Go's package \<open>net/url\<close>: escaping, query strings and the parts of a URL. A
  query that has been encoded is parsed back (\<open>ParseQuery_Encode\<close>).
\<close>

section \<open>Escaping\<close>

datatype encoding =
    encodePath
  | encodeHost
  | encodeZone
  | encodeUserPassword
  | encodeQueryComponent
  | encodeFragment

definition is_letter :: "char \<Rightarrow> bool" where
  "is_letter c \<longleftrightarrow> (let n = of_char c :: nat in 65 \<le> n \<and> n \<le> 90 \<or> 97 \<le> n \<and> n \<le> 122)"

text \<open>The characters of the general delimiters that each mode leaves alone.\<close>

definition delimiter_kept :: "char \<Rightarrow> encoding \<Rightarrow> bool" where
  "delimiter_kept c mode =
     (case mode of
        encodePath \<Rightarrow> c \<noteq> CHR ''?''
      | encodeUserPassword \<Rightarrow> c \<notin> set ''@/?:''
      | encodeFragment \<Rightarrow> True
      | _ \<Rightarrow> False)"

definition shouldEscape :: "char \<Rightarrow> encoding \<Rightarrow> bool" where
  "shouldEscape c mode =
     (if is_letter c \<or> is_digit c then False
      else if (mode = encodeHost \<or> mode = encodeZone) \<and> c \<in> set (CHR 0x22 # CHR 0x27 # ''!$&()*+,;=:[]<>'') then False
      else if c \<in> set ''-_.~'' then False
      else if c \<in> set ''$&+,/:;=?@'' \<and> delimiter_kept c mode then False
      else \<not> (mode = encodeFragment \<and> c \<in> set ''!()*''))"

definition ishex :: "char \<Rightarrow> bool" where
  "ishex c \<longleftrightarrow> (let n = of_char c :: nat
     in 48 \<le> n \<and> n \<le> 57 \<or> 65 \<le> n \<and> n \<le> 70 \<or> 97 \<le> n \<and> n \<le> 102)"

definition unhex :: "char \<Rightarrow> nat" where
  "unhex c = (let n = of_char c :: nat in if n \<le> 57 then n - 48 else if n \<le> 70 then n - 55 else n - 87)"

definition upperhex :: "nat \<Rightarrow> char" where
  "upperhex n = (if n < 10 then char_of (48 + n) else char_of (55 + n))"

fun url_escape :: "encoding \<Rightarrow> string \<Rightarrow> string" where
  "url_escape mode [] = []"
| "url_escape mode (c # s) =
     (if c = CHR '' '' \<and> mode = encodeQueryComponent then CHR ''+'' # url_escape mode s
      else if shouldEscape c mode
      then CHR ''%'' # upperhex (of_char c div 16) # upperhex (of_char c mod 16) # url_escape mode s
      else c # url_escape mode s)"

text \<open>An escape that a host may have: a percent sign, or a byte that is not ASCII.\<close>

definition escape_allowed :: "encoding \<Rightarrow> char \<Rightarrow> char \<Rightarrow> bool" where
  "escape_allowed mode a b =
     (let v = 16 * unhex a + unhex b
      in case mode of
           encodeHost \<Rightarrow> \<not> (unhex a < 8 \<and> v \<noteq> 37)
         | encodeZone \<Rightarrow> \<not> (v \<noteq> 37 \<and> v \<noteq> 32 \<and> shouldEscape (char_of v) encodeHost)
         | _ \<Rightarrow> True)"

fun url_unescape :: "encoding \<Rightarrow> string \<Rightarrow> go_error + string" where
  "url_unescape mode [] = Inr []"
| "url_unescape mode (c # s) =
     (if c = CHR ''%'' then
        (case s of
           a # b # t \<Rightarrow>
             (if ishex a \<and> ishex b \<and> escape_allowed mode a b
              then map_sum id (Cons (char_of (16 * unhex a + unhex b))) (url_unescape mode t)
              else Inl (Errorf (''invalid URL escape '' @ [c, a, b])))
         | _ \<Rightarrow> Inl (Errorf (''invalid URL escape '' @ c # s)))
      else if c = CHR ''+'' \<and> mode = encodeQueryComponent
      then map_sum id (Cons (CHR '' '')) (url_unescape mode s)
      else if (mode = encodeHost \<or> mode = encodeZone) \<and> (of_char c :: nat) < 128 \<and> shouldEscape c mode
      then Inl (Errorf (''invalid character in host name '' @ [c]))
      else map_sum id (Cons c) (url_unescape mode s))"

section \<open>Query strings\<close>

text \<open>\<open>strings.Cut\<close> at a byte: the text before it and after it, and whether it was found.\<close>

definition Cut :: "string \<Rightarrow> char \<Rightarrow> string \<times> string \<times> bool" where
  "Cut s sep = (takeWhile (\<lambda>c. c \<noteq> sep) s, tl (dropWhile (\<lambda>c. c \<noteq> sep) s), sep \<in> set s)"

text \<open>\<open>url.Values\<close>: the values of every key. A map of Go has no order; here it is that of insertion.\<close>

type_synonym url_Values = "(string \<times> string list) list"

fun Values_Add :: "url_Values \<Rightarrow> string \<Rightarrow> string \<Rightarrow> url_Values" where
  "Values_Add [] k v = [(k, [v])]"
| "Values_Add ((l, vs) # m) k v = (if l = k then (l, vs @ [v]) # m else (l, vs) # Values_Add m k v)"

definition Values_has :: "url_Values \<Rightarrow> string \<Rightarrow> bool" where
  "Values_has m k \<longleftrightarrow> k \<in> fst ` set m"

text \<open>One part of a query; the first error is kept and the part is left out.\<close>

definition query_part :: "string \<Rightarrow> url_Values \<times> go_error option \<Rightarrow> url_Values \<times> go_error option" where
  "query_part part acc =
     (case acc of (m, err) \<Rightarrow>
        if CHR '';'' \<in> set part then (m, Some (Errorf ''invalid semicolon separator in query''))
        else if part = [] then (m, err)
        else (case Cut part (CHR ''='') of (k, v, _) \<Rightarrow>
          (case url_unescape encodeQueryComponent k of
             Inl e \<Rightarrow> (m, Some (case err of None \<Rightarrow> e | Some e \<Rightarrow> e))
           | Inr k \<Rightarrow>
               (case url_unescape encodeQueryComponent v of
                  Inl e \<Rightarrow> (m, Some (case err of None \<Rightarrow> e | Some e \<Rightarrow> e))
                | Inr v \<Rightarrow> (Values_Add m k v, err)))))"

definition ParseQuery :: "string \<Rightarrow> url_Values \<times> go_error option" where
  "ParseQuery query = (if query = [] then ([], None) else fold query_part (Split query (CHR ''&'')) ([], None))"

text \<open>\<open>Values.Encode\<close> sorts the keys.\<close>

definition encode_pair :: "string \<Rightarrow> string \<Rightarrow> string" where
  "encode_pair k v = url_escape encodeQueryComponent k @ CHR ''='' # url_escape encodeQueryComponent v"

definition Values_Encode :: "url_Values \<Rightarrow> string" where
  "Values_Encode m =
     Join (concat (map (\<lambda>(k, vs). map (encode_pair k) vs) (sort_key fst m))) (CHR ''&'')"

section \<open>Facts on queries\<close>

lemma upperhex_ok:
  "n < 16 \<Longrightarrow> ishex (upperhex n) \<and> unhex (upperhex n) = n \<and> (is_letter (upperhex n) \<or> is_digit (upperhex n))"
  by (auto simp: upperhex_def ishex_def unhex_def is_letter_def is_digit_def)

lemma of_char_halves: "of_char c div 16 < (16 :: nat)" "of_char c mod 16 < (16 :: nat)"
  using nat_of_char_less_256 [of c] by linarith+

lemma url_unescape_escape: "url_unescape encodeQueryComponent (url_escape encodeQueryComponent s) = Inr s"
proof (induction s)
  case (Cons c s)
  have "char_of (16 * unhex (upperhex (of_char c div 16)) + unhex (upperhex (of_char c mod 16))) = c"
    using upperhex_ok [OF of_char_halves(1) [of c]] upperhex_ok [OF of_char_halves(2) [of c]] by simp
  moreover have "shouldEscape (CHR ''%'') encodeQueryComponent" "shouldEscape (CHR ''+'') encodeQueryComponent"
    by code_simp+
  ultimately show ?case
    using Cons upperhex_ok [OF of_char_halves(1) [of c]] upperhex_ok [OF of_char_halves(2) [of c]]
    by (auto simp: escape_allowed_def Let_def)
qed simp

lemma url_escape_chars:
  "c \<in> set (url_escape encodeQueryComponent s) \<Longrightarrow> is_letter c \<or> is_digit c \<or> c \<in> set ''-_.~+%''"
proof (induction s)
  case (Cons d s)
  have "is_letter d \<or> is_digit d \<or> d \<in> set ''-_.~''" if "\<not> shouldEscape d encodeQueryComponent"
    using that by (auto simp: shouldEscape_def delimiter_kept_def split: if_splits)
  then show ?case
    using Cons upperhex_ok [OF of_char_halves(1) [of d]] upperhex_ok [OF of_char_halves(2) [of d]]
    by (auto split: if_splits)
qed simp

lemma url_escape_plain:
  "CHR ''&'' \<notin> set (url_escape encodeQueryComponent s)" "CHR ''='' \<notin> set (url_escape encodeQueryComponent s)"
  "CHR '';'' \<notin> set (url_escape encodeQueryComponent s)"
  using url_escape_chars [of _ s] by (auto simp: is_letter_def is_digit_def dest!: url_escape_chars)

lemma query_part_pair:
  "query_part (encode_pair k v) (m, err) = (Values_Add m k v, err)"
proof -
  have "Cut (encode_pair k v) (CHR ''='') =
      (url_escape encodeQueryComponent k, url_escape encodeQueryComponent v, True)"
    using url_escape_plain(2) [of k] by (auto simp: Cut_def encode_pair_def takeWhile_append dropWhile_append)
  moreover have "CHR '';'' \<notin> set (encode_pair k v)"
    using url_escape_plain(3) by (simp add: encode_pair_def)
  moreover have "encode_pair k v \<noteq> []" by (simp add: encode_pair_def)
  ultimately show ?thesis by (simp add: query_part_def url_unescape_escape)
qed

lemma Values_Add_new: "k \<notin> fst ` set m \<Longrightarrow> Values_Add m k v = m @ [(k, [v])]"
  by (induction m) auto

lemma Values_Add_last: "k \<notin> fst ` set m \<Longrightarrow> Values_Add (m @ [(k, vs)]) k v = m @ [(k, vs @ [v])]"
  by (induction m) auto

lemma fold_pairs_last:
  "k \<notin> fst ` set m \<Longrightarrow> fold query_part (map (encode_pair k) ws) (m @ [(k, vs)], err) = (m @ [(k, vs @ ws)], err)"
  by (induction ws arbitrary: vs) (simp_all add: query_part_pair Values_Add_last)

lemma fold_pairs:
  "k \<notin> fst ` set m \<Longrightarrow> vs \<noteq> [] \<Longrightarrow> fold query_part (map (encode_pair k) vs) (m, err) = (m @ [(k, vs)], err)"
  by (cases vs) (simp_all add: query_part_pair Values_Add_new fold_pairs_last)

lemma fold_values:
  "distinct (map fst (m @ ms)) \<Longrightarrow> \<forall>(k, vs) \<in> set ms. vs \<noteq> [] \<Longrightarrow>
     fold query_part (concat (map (\<lambda>(k, vs). map (encode_pair k) vs) ms)) (m, err) = (m @ ms, err)"
proof (induction ms arbitrary: m)
  case (Cons x ms)
  obtain k vs where x: "x = (k, vs)" by fastforce
  have "fold query_part (map (encode_pair k) vs) (m, err) = (m @ [(k, vs)], err)"
    using Cons.prems by (intro fold_pairs) (auto simp: x)
  then show ?case using Cons.IH [of "m @ [(k, vs)]"] Cons.prems by (simp add: x)
qed simp

text \<open>Every key once, and with a value.\<close>

definition Values_ok :: "url_Values \<Rightarrow> bool" where
  "Values_ok m \<longleftrightarrow> distinct (map fst m) \<and> [] \<notin> snd ` set m"

lemma Values_Add_keys [simp]: "fst ` set (Values_Add m k v) = insert k (fst ` set m)"
proof (induction m)
  case (Cons x m)
  then show ?case by (cases x) (simp add: insert_commute)
qed simp

lemma Values_Add_ok: "Values_ok m \<Longrightarrow> Values_ok (Values_Add m k v)"
proof -
  have "distinct (map fst m) \<Longrightarrow> distinct (map fst (Values_Add m k v))" by (induction m) auto
  moreover have "[] \<notin> snd ` set m \<Longrightarrow> [] \<notin> snd ` set (Values_Add m k v)"
  proof (induction m)
    case (Cons x m)
    then show ?case by (cases x) simp
  qed simp
  ultimately show "Values_ok m \<Longrightarrow> Values_ok (Values_Add m k v)" by (simp add: Values_ok_def)
qed

lemma Values_Add_map_of:
  "map_of (Values_Add m k v) l =
     (if l = k then Some (case map_of m k of None \<Rightarrow> [v] | Some vs \<Rightarrow> vs @ [v]) else map_of m l)"
  by (induction m) auto

lemma Values_has_iff: "Values_has m k \<longleftrightarrow> map_of m k \<noteq> None"
  by (simp add: Values_has_def map_of_eq_None_iff)

lemma query_part_ok: "Values_ok (fst acc) \<Longrightarrow> Values_ok (fst (query_part p acc))"
  using Values_Add_ok by (auto simp: query_part_def Let_def split: prod.splits sum.splits)

lemma ParseQuery_ok:
  assumes "ParseQuery qs = (m, err)"
  shows "Values_ok m"
proof -
  have "Values_ok (fst (fold query_part ps acc))" if "Values_ok (fst acc)" for ps acc
    using that by (induction ps arbitrary: acc) (simp_all add: query_part_ok)
  from this [of "([], None)" "Split qs (CHR ''&'')"] assms show ?thesis
    by (auto simp: ParseQuery_def Values_ok_def split: if_splits)
qed

text \<open>An encoded query has the values that it was made from, by ascending keys.\<close>

lemma ParseQuery_Encode:
  assumes "Values_ok m"
  shows "ParseQuery (Values_Encode m) = (sort_key fst m, None)"
proof (cases "m = []")
  case True
  then show ?thesis by (simp add: ParseQuery_def Values_Encode_def)
next
  case False
  let ?ps = "concat (map (\<lambda>(k, vs). map (encode_pair k) vs) (sort_key fst m))"
  obtain k vs where "(k, vs) \<in> set m" "vs \<noteq> []" using False assms by (cases m) (force simp: Values_ok_def)+
  then have "(k, vs) \<in> set (sort_key fst m)" "vs \<noteq> []" by simp_all
  then have ne: "?ps \<noteq> []" by fastforce
  have amp: "\<forall>p \<in> set ?ps. CHR ''&'' \<notin> set p"
    using url_escape_plain(1) by (auto simp: encode_pair_def)
  have "Split (Join ?ps (CHR ''&'')) (CHR ''&'') = ?ps" by (rule Split_Join [OF ne amp])
  moreover have "[] \<notin> set ?ps" by (auto simp: encode_pair_def)
  then have "Join ?ps (CHR ''&'') \<noteq> []" using calculation by (metis Split.simps(1) list.set_intros(1))
  moreover have "fold query_part ?ps ([], None) = ([] @ sort_key fst m, None)"
    using assms by (intro fold_values) (force simp: Values_ok_def distinct_map distinct_sort)+
  ultimately show ?thesis by (simp add: ParseQuery_def Values_Encode_def)
qed

section \<open>The parts of a URL\<close>

text \<open>
  \<open>User\<close> is the name and, if one was given, the password. A raw path or fragment is kept when it
  differs from the default encoding of the decoded one.
\<close>

record URL =
  Scheme :: string
  Opaque :: string
  User :: "(string \<times> string option) option"
  url_Host :: string
  url_Path :: string
  RawPath :: string
  ForceQuery :: bool
  RawQuery :: string
  Fragment :: string
  RawFragment :: string

definition URL_zero :: URL where
  "URL_zero =
     \<lparr>Scheme = [], Opaque = [], User = None, url_Host = [], url_Path = [], RawPath = [],
      ForceQuery = False, RawQuery = [], Fragment = [], RawFragment = []\<rparr>"

text \<open>The scheme and the rest; without a valid scheme all of it is the rest.\<close>

definition getScheme :: "string \<Rightarrow> go_error + string \<times> string" where
  "getScheme s =
     (let sch = takeWhile (\<lambda>c. is_letter c \<or> is_digit c \<or> c \<in> set ''+-.'') s;
          rest = drop (length sch) s
      in if rest = [] \<or> hd rest \<noteq> CHR '':'' then Inr ([], s)
         else if sch = [] then Inl (Errorf ''missing protocol scheme'')
         else if \<not> is_letter (hd sch) then Inr ([], s)
         else Inr (sch, tl rest))"

definition ToLower :: "string \<Rightarrow> string" where
  "ToLower s = map (\<lambda>c. let n = of_char c :: nat in if 65 \<le> n \<and> n \<le> 90 then char_of (n + 32) else c) s"

definition validOptionalPort :: "string \<Rightarrow> bool" where
  "validOptionalPort port \<longleftrightarrow> port = [] \<or> hd port = CHR '':'' \<and> list_all is_digit (tl port)"

text \<open>The text up to the last occurrence of a character, and from it on.\<close>

definition before_last :: "char \<Rightarrow> string \<Rightarrow> string" where
  "before_last c s = take (length s - length (takeWhile (\<lambda>d. d \<noteq> c) (rev s)) - 1) s"

definition from_last :: "char \<Rightarrow> string \<Rightarrow> string" where
  "from_last c s = drop (length s - length (takeWhile (\<lambda>d. d \<noteq> c) (rev s)) - 1) s"

definition unescape_all :: "(encoding \<times> string) list \<Rightarrow> go_error + string" where
  "unescape_all parts =
     fold (\<lambda>(mode, p) acc. case acc of Inl e \<Rightarrow> Inl e
       | Inr s \<Rightarrow> map_sum id (\<lambda>t. s @ t) (url_unescape mode p)) parts (Inr [])"

fun before_zone :: "string \<Rightarrow> string" where
  "before_zone [] = []"
| "before_zone (c # s) = (if HasPrefix (c # s) ''%25'' then [] else c # before_zone s)"

definition parseHost :: "string \<Rightarrow> go_error + string" where
  "parseHost host =
     (if HasPrefix host ''['' then
        (if CHR '']'' \<notin> set host then Inl (Errorf (''missing ] in host''))
         else
           (let inner = before_last (CHR '']'') host;
                tail = from_last (CHR '']'') host;
                zone = before_zone inner
            in if \<not> validOptionalPort (tl tail) then Inl (Errorf ''invalid port after host'')
               else if zone = inner then url_unescape encodeHost host
               else unescape_all [(encodeHost, zone), (encodeZone, drop (length zone) inner), (encodeHost, tail)]))
      else if CHR '':'' \<in> set host \<and> \<not> validOptionalPort (from_last (CHR '':'') host)
      then Inl (Errorf ''invalid port after host'')
      else url_unescape encodeHost host)"

definition validUserinfo :: "string \<Rightarrow> bool" where
  "validUserinfo s \<longleftrightarrow>
     list_all (\<lambda>c. is_letter c \<or> is_digit c \<or> c \<in> set (CHR 0x27 # ''-._:~!$&()*+,;=%@'')) s"

definition parseAuthority :: "string \<Rightarrow> go_error + (string \<times> string option) option \<times> string" where
  "parseAuthority authority =
     (let at = CHR ''@'';
          has = at \<in> set authority;
          host = (if has then tl (from_last at authority) else authority);
          userinfo = (if has then before_last at authority else [])
      in case parseHost host of
           Inl e \<Rightarrow> Inl e
         | Inr h \<Rightarrow>
             (if \<not> has then Inr (None, h)
              else if \<not> validUserinfo userinfo then Inl (Errorf ''net/url: invalid userinfo'')
              else (case Cut userinfo (CHR '':'') of (name, password, found) \<Rightarrow>
                (case url_unescape encodeUserPassword name of
                   Inl e \<Rightarrow> Inl e
                 | Inr name \<Rightarrow>
                     (if \<not> found then Inr (Some (name, None), h)
                      else (case url_unescape encodeUserPassword password of
                              Inl e \<Rightarrow> Inl e
                            | Inr password \<Rightarrow> Inr (Some (name, Some password), h)))))))"

definition setPath :: "URL \<Rightarrow> string \<Rightarrow> go_error + URL" where
  "setPath u p =
     (case url_unescape encodePath p of
        Inl e \<Rightarrow> Inl e
      | Inr path \<Rightarrow>
          Inr (u\<lparr>url_Path := path, RawPath := (if p = url_escape encodePath path then [] else p)\<rparr>))"

definition setFragment :: "URL \<Rightarrow> string \<Rightarrow> go_error + URL" where
  "setFragment u f =
     (case url_unescape encodeFragment f of
        Inl e \<Rightarrow> Inl e
      | Inr frag \<Rightarrow>
          Inr (u\<lparr>Fragment := frag, RawFragment := (if f = url_escape encodeFragment frag then [] else f)\<rparr>))"

text \<open>The part after the scheme and before the query: an authority, if there is one, and the path.\<close>

definition parse_rest :: "URL \<Rightarrow> string \<Rightarrow> go_error + URL" where
  "parse_rest u rest =
     (if HasPrefix rest ''//'' \<and> (Scheme u \<noteq> [] \<or> \<not> HasPrefix rest ''///'')
      then
        (let authority = takeWhile (\<lambda>c. c \<noteq> CHR ''/'') (drop 2 rest)
         in case parseAuthority authority of
              Inl e \<Rightarrow> Inl e
            | Inr (user, host) \<Rightarrow>
                setPath (u\<lparr>User := user, url_Host := host\<rparr>) (drop (2 + length authority) rest))
      else setPath u rest)"

definition parse_url :: "string \<Rightarrow> go_error + URL" where
  "parse_url s =
     (if list_ex (\<lambda>c. (of_char c :: nat) < 32 \<or> of_char c = (127 :: nat)) s
      then Inl (Errorf ''net/url: invalid control character in URL'')
      else if s = ''*'' then Inr (URL_zero\<lparr>url_Path := ''*''\<rparr>)
      else (case getScheme s of
        Inl e \<Rightarrow> Inl e
      | Inr (scheme, rest) \<Rightarrow>
          (let force = HasSuffix rest ''?'' \<and> CHR ''?'' \<notin> set (butlast rest);
               (rest, query, _) = (if force then (butlast rest, [], False) else Cut rest (CHR ''?''));
               u = URL_zero\<lparr>Scheme := ToLower scheme, ForceQuery := force, RawQuery := query\<rparr>
           in if \<not> HasPrefix rest ''/'' \<and> scheme \<noteq> [] then Inr (u\<lparr>Opaque := rest\<rparr>)
              else if \<not> HasPrefix rest ''/'' \<and> CHR '':'' \<in> set (takeWhile (\<lambda>c. c \<noteq> CHR ''/'') rest)
              then Inl (Errorf ''first path segment in URL cannot contain colon'')
              else parse_rest u rest)))"

definition url_Parse :: "string \<Rightarrow> go_error + URL" where
  "url_Parse rawURL =
     (case Cut rawURL (CHR ''#'') of (s, frag, _) \<Rightarrow>
        (case parse_url s of
           Inl e \<Rightarrow> Inl (Wrapped ''parse'' e)
         | Inr u \<Rightarrow>
             (if frag = [] then Inr u
              else (case setFragment u frag of Inl e \<Rightarrow> Inl (Wrapped ''parse'' e) | Inr u \<Rightarrow> Inr u))))"

text \<open>\<open>URL.String\<close>\<close>

definition validEncoded :: "string \<Rightarrow> encoding \<Rightarrow> bool" where
  "validEncoded s mode \<longleftrightarrow>
     list_all (\<lambda>c. c \<in> set (CHR 0x27 # ''!$&()*+,;=:@[]%'') \<or> \<not> shouldEscape c mode) s"

definition escaped_part :: "encoding \<Rightarrow> string \<Rightarrow> string \<Rightarrow> string" where
  "escaped_part mode raw s =
     (if raw \<noteq> [] \<and> validEncoded raw mode \<and> url_unescape mode raw = Inr s then raw
      else if s = ''*'' \<and> mode = encodePath then ''*''
      else url_escape mode s)"

definition userinfo_String :: "string \<times> string option \<Rightarrow> string" where
  "userinfo_String ui =
     (case ui of (name, password) \<Rightarrow>
        if name = [] \<and> (password = None \<or> password = Some []) then []
        else url_escape encodeUserPassword name @
          (case password of None \<Rightarrow> [] | Some p \<Rightarrow> CHR '':'' # url_escape encodeUserPassword p))"

definition URL_String :: "URL \<Rightarrow> string" where
  "URL_String u =
     (if Scheme u \<noteq> [] then Scheme u @ '':'' else []) @
     (if Opaque u \<noteq> [] then Opaque u
      else
        (let path = escaped_part encodePath (RawPath u) (url_Path u);
             authority =
               (if Scheme u \<noteq> [] \<or> url_Host u \<noteq> [] \<or> User u \<noteq> None
                then (if url_Host u \<noteq> [] \<or> url_Path u \<noteq> [] \<or> User u \<noteq> None then ''//'' else []) @
                  (case User u of None \<Rightarrow> [] | Some ui \<Rightarrow> userinfo_String ui @ ''@'') @
                  url_escape encodeHost (url_Host u)
                else [])
         in authority @
            (if path \<noteq> [] \<and> hd path \<noteq> CHR ''/'' \<and> url_Host u \<noteq> [] then ''/''
             else if Scheme u = [] \<and> authority = [] \<and> CHR '':'' \<in> set (takeWhile (\<lambda>c. c \<noteq> CHR ''/'') path) then ''./''
             else []) @ path)) @
     (if ForceQuery u \<or> RawQuery u \<noteq> [] then CHR ''?'' # RawQuery u else []) @
     (if Fragment u \<noteq> [] then CHR ''#'' # escaped_part encodeFragment (RawFragment u) (Fragment u) else [])"

section \<open>Numbers\<close>

text \<open>\<open>strconv.ParseUint(s, 10, bits)\<close>\<close>

definition ParseUint :: "nat \<Rightarrow> string \<Rightarrow> go_error + int" where
  "ParseUint bits s =
     (if s = [] \<or> \<not> list_all is_digit s then Inl (Errorf ''invalid syntax'')
      else if digits_value 0 s \<ge> 2 ^ bits then Inl (Errorf ''value out of range'')
      else Inr (int (digits_value 0 s)))"

text \<open>\<open>strconv.Atoi\<close> of digits, whose error is ignored: a number out of range is the greatest one.\<close>

definition Atoi_digits :: "string \<Rightarrow> int" where
  "Atoi_digits s = min (int (digits_value 0 s)) (2 ^ 63 - 1)"

section \<open>Hosts\<close>

text \<open>\<open>URL.Hostname\<close> and \<open>URL.Port\<close>\<close>

definition splitHostPort :: "string \<Rightarrow> string \<times> string" where
  "splitHostPort s =
     (let colon = CHR '':'';
          (host, port) =
            (if colon \<in> set s \<and> validOptionalPort (from_last colon s)
             then (before_last colon s, tl (from_last colon s)) else (s, []))
      in (if HasPrefix host ''['' \<and> HasSuffix host '']'' then butlast (tl host) else host, port))"

definition Values_Get :: "url_Values \<Rightarrow> string \<Rightarrow> string" where
  "Values_Get m k = (case map_of m k of Some (v # _) \<Rightarrow> v | _ \<Rightarrow> [])"

end
