(* ===== verification/SqlProperties.thy ===== *)
theory SqlProperties
  imports SqlDrivers
begin

text \<open>
  What the constructors of the SQL drivers promise: which of them can serve, what they make of a data
  source name, the nodes of a cluster, and the migration to dqlite.
\<close>

section \<open>Backends without stubs\<close>

lemma new_result_backend:
  "new_result pkg feed m s = Some ((b, None), s1) \<Longrightarrow> b = kine_backend pkg feed"
  by (auto simp: new_result_def bind_Some_iff split: sum.splits) (metis sum.exhaust)

lemma kine_backend_panics: "b_Start (kine_backend None feed) s = None"
  by (simp add: kine_backend_def package_dialect_def LogStructured_Start_def SQLLog_Start_def compactStart_def)

text \<open>The constructors as \<open>endpoint\<close> knows them; those of NATS are parameters.\<close>

definition sql_drivers ::
  "'w sql_env \<Rightarrow> 'w mysql_lib \<Rightarrow> (tls_Config \<Rightarrow> go_error + tls_client) \<Rightarrow> 'w dqlite_lib \<Rightarrow> (sql_DB \<Rightarrow> ('w, 'r) migration) \<Rightarrow>
   'w DatabaseCommunicationClient \<Rightarrow> ('w SQLLog, Event list list) go \<Rightarrow> ('w, unit) go option \<Rightarrow>
   (string \<Rightarrow> Config \<Rightarrow> ('w SQLLog, 'w SQLLog Backend \<times> go_error option) go) \<Rightarrow> 'w SQLLog drivers" where
  "sql_drivers env mlib load dlib mg conn feed register nats =
     \<lparr>sqlite_New = \<lambda>d cfg. sqlite_Constructor env None feed d (cfg_ConnectionPoolConfig cfg) register,
      dqlite_New = \<lambda>d cfg. dqlite_Constructor env dlib mg None feed d (cfg_ConnectionPoolConfig cfg) register,
      pgsql_New = \<lambda>d cfg. pgsql_Constructor env conn feed d (BackendTLSConfig cfg) (cfg_ConnectionPoolConfig cfg) register,
      mysql_New = \<lambda>d cfg. mysql_Constructor env mlib load None feed d (BackendTLSConfig cfg) (cfg_ConnectionPoolConfig cfg) register,
      nats_NewLegacy = nats, nats_New = nats\<rparr>"

lemma sql_backend:
  assumes "getKineStorageBackend (sql_drivers env mlib load dlib mg conn feed register nats) driver d cfg s =
      Some (Inr (le, b), s1)" "driver \<in> {''sqlite'', ''dqlite'', ''mysql''}"
  shows "b = kine_backend None feed"
  using assms
  by (auto simp: getKineStorageBackend_def sql_drivers_def sqlite_Constructor_def dqlite_Constructor_def
      mysql_Constructor_def bind_Some_iff split: option.splits dest: new_result_backend)

section \<open>Parameters of a data source\<close>

text \<open>What the TLS configuration adds for a key that the query leaves out.\<close>

definition tls_param :: "url_Values \<Rightarrow> tls_Config \<Rightarrow> string \<Rightarrow> string list option" where
  "tls_param m c k =
     (let files = [(''sslcert'', CertFile c), (''sslkey'', KeyFile c), (''sslrootcert'', CAFile c)];
          added = filter (\<lambda>(key, f). f \<noteq> [] \<and> \<not> Values_has m key) files
      in if k = ''sslmode'' then (if added \<noteq> [] \<and> map_of m k = None then Some [''verify-full''] else None)
         else map_option (\<lambda>f. [f]) (map_of added k))"

lemma fold_Values_Add:
  "distinct (map fst m) \<Longrightarrow> \<forall>k \<in> fst ` set m. map_of ps k = None \<Longrightarrow>
     map_of (fold (\<lambda>(k, v) ps. Values_Add ps k (hd v)) m ps) l =
     (case map_of m l of Some v \<Rightarrow> Some [hd v] | None \<Rightarrow> map_of ps l)"
proof (induction m arbitrary: ps)
  case (Cons x m)
  obtain k v where x: "x = (k, v)" by fastforce
  have "map_of (fold (\<lambda>(k, v) ps. Values_Add ps k (hd v)) m (Values_Add ps k (hd v))) l =
      (case map_of m l of Some v \<Rightarrow> Some [hd v] | None \<Rightarrow> map_of (Values_Add ps k (hd v)) l)"
    using Cons.prems by (intro Cons.IH) (auto simp: x Values_Add_map_of)
  moreover have "map_of m k = None" using Cons.prems by (simp add: x map_of_eq_None_iff)
  ultimately show ?case using Cons.prems by (auto simp: x Values_Add_map_of split: option.split)
qed simp

lemma fold_Values_Add_ok:
  "Values_ok ps \<Longrightarrow> Values_ok (fold (\<lambda>(k, v) ps. Values_Add ps k (hd v)) m ps)"
  by (induction m arbitrary: ps) (auto simp: Values_Add_ok)

lemma fold_Values_Add_one:
  "distinct (map fst ms) \<Longrightarrow> map_of (fold (\<lambda>(k, f) ps. Values_Add ps k f) ms ps) l =
     (case map_of ms l of
        Some f \<Rightarrow> Some (case map_of ps l of None \<Rightarrow> [f] | Some vs \<Rightarrow> vs @ [f])
      | None \<Rightarrow> map_of ps l)"
proof (induction ms arbitrary: ps)
  case (Cons x ms)
  obtain k f where x: "x = (k, f)" by fastforce
  have "map_of ms k = None" using Cons.prems by (simp add: x map_of_eq_None_iff)
  then show ?case using Cons.IH [of "Values_Add ps k f"] Cons.prems
    by (auto simp: x Values_Add_map_of split: option.split)
qed simp

lemma fold_Values_Add_one_ok: "Values_ok ps \<Longrightarrow> Values_ok (fold (\<lambda>(k, f) ps. Values_Add ps k f) ms ps)"
  by (induction ms arbitrary: ps) (auto simp: Values_Add_ok)

lemma pgsql_tls_params_ok: "Values_ok (pgsql_tls_params m c)"
  by (simp add: pgsql_tls_params_def Let_def Values_Add_ok fold_Values_Add_one_ok Values_ok_def [of "[]"]
      del: filter.simps)

lemma pgsql_tls_params_map_of: "map_of (pgsql_tls_params m c) k = tls_param m c k"
proof -
  let ?files = "[(''sslcert'', CertFile c), (''sslkey'', KeyFile c), (''sslrootcert'', CAFile c)]"
  define added where "added = filter (\<lambda>(key, f). f \<noteq> [] \<and> \<not> Values_has m key) ?files"
  have keys: "fst ` set added \<subseteq> {''sslcert'', ''sslkey'', ''sslrootcert''}" by (auto simp: added_def)
  then have "map_of added ''sslmode'' = None" by (auto simp: map_of_eq_None_iff)
  moreover have "distinct (map fst added)"
    using distinct_map_filter [of fst ?files] by (simp add: added_def del: filter.simps)
  ultimately show ?thesis
    unfolding pgsql_tls_params_def tls_param_def Let_def added_def [symmetric]
    by (auto simp: fold_Values_Add_one Values_Add_map_of Values_has_iff split: option.split)
qed

lemma tls_param_new: "k \<in> fst ` set m \<Longrightarrow> tls_param m c k = None"
proof -
  assume k: "k \<in> fst ` set m"
  then have has: "Values_has m k" "map_of m k \<noteq> None" by (simp_all add: Values_has_def map_of_eq_None_iff)
  have "map_of (filter (\<lambda>(key, f). f \<noteq> [] \<and> \<not> Values_has m key) files) k = None" for files :: "(string \<times> string) list"
    using has(1) by (auto simp: map_of_eq_None_iff)
  then show ?thesis
    unfolding tls_param_def Let_def using has(2) by (simp only: option.map simp_thms if_False if_cancel)
qed

lemma pgsql_params_map_of:
  assumes "Values_ok m"
  shows "Values_ok (pgsql_params m c)"
    "map_of (pgsql_params m c) k = (case map_of m k of Some v \<Rightarrow> Some [hd v] | None \<Rightarrow> tls_param m c k)"
  using fold_Values_Add_ok [OF pgsql_tls_params_ok] fold_Values_Add [of m "pgsql_tls_params m c" k] assms
    tls_param_new [of _ m c] pgsql_tls_params_map_of [of m c]
  by (simp_all add: pgsql_params_def Values_ok_def cong: option.case_cong)

section \<open>Nodes of a cluster\<close>

text \<open>A store of nodes that reads what was written.\<close>

definition store_ok :: "'w nodeStore \<Rightarrow> ('w \<Rightarrow> NodeInfo list) \<Rightarrow> bool" where
  "store_ok store content \<longleftrightarrow>
     (\<forall>w. ns_Get store w = (Inr (content w), w)) \<and>
     (\<forall>l w. \<exists>w'. ns_Set store l w = (None, w') \<and> content w' = l)"

text \<open>
  Adding peers keeps the known nodes, makes every address known, and does nothing when it is repeated.
\<close>

lemma AddPeers_adds:
  assumes "store_ok store content"
  shows "\<exists>w' new. AddPeers store ps w = (None, w') \<and> content w' = content w @ new \<and>
     Address ` set (content w') = Address ` set (content w) \<union> Address ` set ps \<and>
     AddPeers store ps w' = (None, w')"
proof -
  let ?new = "filter (\<lambda>p. Address p \<notin> Address ` set (content w)) ps"
  obtain w' where w': "ns_Set store (content w @ ?new) w = (None, w')" "content w' = content w @ ?new"
    using assms unfolding store_ok_def by meson
  have get: "ns_Get store u = (Inr (content u), u)" for u using assms by (simp add: store_ok_def)
  show ?thesis
  proof (cases "?new = []")
    case True
    then have "Address ` set ps \<subseteq> Address ` set (content w)" by (auto simp: filter_empty_conv)
    with True show ?thesis by (intro exI [of _ w] exI [of _ "[]"]) (auto simp: AddPeers_def get)
  next
    case False
    have "filter (\<lambda>p. Address p \<notin> Address ` set (content w')) ps = []"
      by (auto simp: w'(2) filter_empty_conv)
    moreover have "Address ` set (content w') = Address ` set (content w) \<union> Address ` set ps"
      by (auto simp: w'(2))
    ultimately show ?thesis using False w' by (intro exI [of _ w'] exI [of _ ?new]) (simp add: AddPeers_def get)
  qed
qed

text \<open>A peer as the data source name has it: \<open>ID:IP:PORT\<close>.\<close>

definition format_peer :: "NodeInfo \<Rightarrow> string" where
  "format_peer n = FormatInt (ID n) @ CHR '':'' # Address n"

definition node_ok :: "NodeInfo \<Rightarrow> bool" where
  "node_ok n \<longleftrightarrow> 0 \<le> ID n \<and> ID n < 2 ^ 64 \<and> CHR '':'' \<in> set (Address n)"

lemma SplitN2_char: "c \<notin> set a \<Longrightarrow> SplitN2 (a @ c # b) [c] = [a, b]"
  by (induction a) (auto simp: HasPrefix_def)

lemma ParseUint_FormatInt: "0 \<le> n \<Longrightarrow> n < 2 ^ 64 \<Longrightarrow> ParseUint 64 (FormatInt n) = Inr n"
  using nat_digits_digits [of "nat n"] by (simp add: ParseUint_def FormatInt_def nat_digits_value nat_less_iff not_le)

lemma FormatInt_no_colon: "0 \<le> n \<Longrightarrow> CHR '':'' \<notin> set (FormatInt n)"
  using nat_digits_digits [of "nat n"] by (auto simp: FormatInt_def list_all_iff is_digit_def)

lemma parse_peer_format: "node_ok n \<Longrightarrow> parse_peer (format_peer n) = Inr n"
proof -
  assume n: "node_ok n"
  then obtain b c where a: "Address n = b @ CHR '':'' # c" "CHR '':'' \<notin> set b"
    by (auto simp: node_ok_def dest: split_list_first)
  have "SplitN3 (format_peer n) = [FormatInt (ID n), b, c]"
    using n a FormatInt_no_colon [of "ID n"]
    by (simp add: SplitN3_def format_peer_def SplitN2_char node_ok_def)
  then show ?thesis
    using n a ParseUint_FormatInt [of "ID n"] by (cases n) (simp add: parse_peer_def node_ok_def)
qed

lemma parse_peers_format: "\<forall>n \<in> set ns. node_ok n \<Longrightarrow> parse_peers (map format_peer ns) = Inr ns"
  by (induction ns) (simp_all add: parse_peer_format)

text \<open>The parameters that stay in the data source name.\<close>

definition other_params :: "url_Values \<Rightarrow> url_Values" where
  "other_params m = filter (\<lambda>(k, vs). k \<noteq> ''peer'' \<and> k \<noteq> ''peer-file'') m"

lemma parse_values_format:
  assumes "\<forall>n \<in> set ns. node_ok n"
  shows "Values_ok m \<Longrightarrow> (case map_of m ''peer'' of None \<Rightarrow> ns = [] | Some vs \<Rightarrow> vs = map format_peer ns) \<Longrightarrow>
    parse_values m o1 = Inr (o1\<lparr>peers := peers o1 @ ns,
      peerFile := (case map_of m ''peer-file'' of Some vs \<Rightarrow> hd vs | None \<Rightarrow> peerFile o1)\<rparr>, other_params m)"
  using assms
proof (induction m arbitrary: o1 ns)
  case (Cons x m)
  obtain k vs where x: "x = (k, vs)" by fastforce
  have ok: "Values_ok m" "vs \<noteq> []" "map_of m k = None"
    using Cons.prems(1) by (auto simp: x Values_ok_def map_of_eq_None_iff)
  consider "k = ''peer''" | "k = ''peer-file''" | "k \<noteq> ''peer''" "k \<noteq> ''peer-file''" by blast
  then show ?case
  proof cases
    case 1
    then have "vs = map format_peer ns" using Cons.prems(2) by (simp add: x)
    then show ?thesis
      using Cons.IH [OF ok(1), of "[]" "o1\<lparr>peers := peers o1 @ ns\<rparr>"] Cons.prems(3) ok 1
      by (simp add: x other_params_def parse_peers_format cong: option.case_cong)
  next
    case 2
    then show ?thesis
      using Cons.IH [OF ok(1), of ns "o1\<lparr>peerFile := hd vs\<rparr>"] Cons.prems ok
      by (simp add: x other_params_def)
  next
    case 3
    then show ?thesis
      using Cons.IH [OF ok(1), of ns o1] Cons.prems ok by (simp add: x other_params_def)
  qed
qed (simp add: other_params_def)

section \<open>Migration\<close>

text \<open>
  A database under migration: its count is the number of its rows, an insertion that works appends a
  row, and the transaction, in which nothing is done, changes no row at its end.
\<close>

definition migration_ok ::
  "('w, 'r) migration \<Rightarrow> ('w \<Rightarrow> 'r list) \<Rightarrow> ('r \<Rightarrow> go_error option) \<Rightarrow> 'r list \<Rightarrow> bool" where
  "migration_ok g rows refuse old \<longleftrightarrow>
     (\<forall>w. mg_Count g w = (Inr (int (length (rows w))), w) \<and> mg_Stat g w = (None, w) \<and> mg_Open g w = (None, w) \<and>
       mg_Query g w = (Inr (map Inr old, None), w) \<and> mg_BeginTx g w = (None, w) \<and>
       fst (mg_Commit g w) = None \<and> rows (snd (mg_Commit g w)) = rows w \<and> rows (mg_Rollback g w) = rows w) \<and>
     (\<forall>r w. fst (mg_Insert g r w) = refuse r \<and>
       rows (snd (mg_Insert g r w)) = (if refuse r = None then rows w @ [r] else rows w))"

lemma migrate_rows_prefix:
  assumes "migration_ok g rows refuse old" "\<forall>r \<in> set pre. refuse r = None"
  shows "\<exists>w'. migrate_rows g (map Inr (pre @ rest)) w = migrate_rows g (map Inr rest) w' \<and> rows w' = rows w @ pre"
  using assms(2)
proof (induction pre arbitrary: w)
  case (Cons r rs)
  obtain e w1 where i: "mg_Insert g r w = (e, w1)" by fastforce
  then have "e = None" "rows w1 = rows w @ [r]"
    using assms(1) Cons.prems unfolding migration_ok_def by (metis fst_conv list.set_intros(1), metis snd_conv list.set_intros(1))
  moreover obtain w' where "migrate_rows g (map Inr (rs @ rest)) w1 = migrate_rows g (map Inr rest) w'" "rows w' = rows w1 @ rs"
    using Cons by fastforce
  ultimately show ?case using i by auto
qed auto

lemma migration_okD:
  assumes "migration_ok g rows refuse old"
  shows "mg_Count g w = (Inr (int (length (rows w))), w)" "mg_Stat g w = (None, w)" "mg_Open g w = (None, w)"
    "mg_Query g w = (Inr (map Inr old, None), w)" "mg_BeginTx g w = (None, w)"
    "fst (mg_Commit g w) = None" "rows (snd (mg_Commit g w)) = rows w" "rows (mg_Rollback g w) = rows w"
    "fst (mg_Insert g r w) = refuse r"
    "rows (snd (mg_Insert g r w)) = (if refuse r = None then rows w @ [r] else rows w)"
  using assms unfolding migration_ok_def by blast+

text \<open>The error of the first row that is refused.\<close>

definition first_refused :: "('r \<Rightarrow> go_error option) \<Rightarrow> 'r list \<Rightarrow> go_error option" where
  "first_refused refuse rs = (case dropWhile (\<lambda>r. refuse r = None) rs of [] \<Rightarrow> None | r # _ \<Rightarrow> refuse r)"

lemma migrate_rows_result:
  assumes "migration_ok g rows refuse old"
  shows "\<exists>w'. migrate_rows g (map Inr rs) w = (first_refused refuse rs, w') \<and>
     rows w' = rows w @ takeWhile (\<lambda>r. refuse r = None) rs"
proof (induction rs arbitrary: w)
  case (Cons r rs)
  obtain e w1 where i: "mg_Insert g r w = (e, w1)" by fastforce
  then have e: "e = refuse r" "rows w1 = (if refuse r = None then rows w @ [r] else rows w)"
    using migration_okD(9,10) [OF assms, of r w] by simp_all
  show ?case using Cons [of w1] i e by (auto simp: first_refused_def split: option.split)
qed (simp add: first_refused_def)

section \<open>Endpoints without stubs\<close>

text \<open>
  The constructors of sqlite, dqlite and mysql do not connect the package \<open>commsdb\<close>, so an endpoint
  of these drivers is never served: \<open>Listen\<close> ends with the error of the constructor, or it panics when
  the backend is started.
\<close>

lemma sql_endpoints_never_serve:
  assumes "fst (ParseStorageEndpoint (cfg_Endpoint cfg)) \<in> {''sqlite'', ''dqlite'', ''mysql''}"
    and "ParseStorageEndpoint (cfg_Endpoint cfg) = (driver, source)"
  shows "Listen (sql_drivers env mlib load dlib mg conn feed register nats) h cfg s =
     (case getKineStorageBackend (sql_drivers env mlib load dlib mg conn feed register nats) driver source cfg s of
        Some (Inl e, s') \<Rightarrow> Some (Inl (Wrapped ''building kine'' e), s')
      | _ \<Rightarrow> None)"
proof -
  let ?ds = "sql_drivers env mlib load dlib mg conn feed register nats"
  have d: "driver \<in> {''sqlite'', ''dqlite'', ''mysql''}" using assms by simp
  show ?thesis
  proof (cases "getKineStorageBackend ?ds driver source cfg s")
    case None
    with assms(2) d show ?thesis by (auto simp: Listen_def)
  next
    case (Some rs)
    obtain r s1 where rs: "rs = (r, s1)" by fastforce
    show ?thesis
    proof (cases r)
      case (Inl e)
      with Some rs assms(2) d show ?thesis by (auto simp: Listen_def)
    next
      case (Inr lb)
      obtain le b where lb: "lb = (le, b)" by fastforce
      have "b = kine_backend None feed"
        using sql_backend [OF _ d] Some rs Inr lb by metis
      then have "b_Start b s2 = None" for s2 by (simp add: kine_backend_panics)
      with Some rs Inr lb assms(2) d show ?thesis by (auto simp: Listen_def bind_eq_None_conv)
    qed
  qed
qed

text \<open>
  An environment in which every call succeeds, except that the directory of the default database cannot
  be made where \<open>mkdir\<close> says so.
\<close>

definition calm_env :: "go_error option \<Rightarrow> 'w sql_env" where
  "calm_env mkdir =
     \<lparr>env_driver = \<lambda>_. \<lparr>sql_Open = \<lambda>w. (None, w), sql_Ping = \<lambda>w. (None, w), sql_Close = \<lambda>w. w\<rparr>,
      env_Exec = \<lambda>_ _ w. (None, w), env_MkdirAll = \<lambda>_ w. (mkdir, w), env_wait = \<lambda>w. (None, w),
      env_Error = \<lambda>_. [], env_sqlite_code = \<lambda>_. None, env_mysql_Number = \<lambda>_. None, env_dqlite_Code = \<lambda>_. None\<rparr>"

definition no_migration :: "('w, unit) migration" where
  "no_migration =
     \<lparr>mg_Count = \<lambda>w. (Inl (Errorf []), w), mg_Stat = \<lambda>w. (None, w), mg_Open = \<lambda>w. (None, w),
      mg_Query = \<lambda>w. (Inl (Errorf []), w), mg_BeginTx = \<lambda>w. (None, w), mg_Insert = \<lambda>_ w. (None, w),
      mg_Commit = \<lambda>w. (None, w), mg_Rollback = \<lambda>w. w\<rparr>"

definition sqlite_only ::
  "go_error option \<Rightarrow> 'w DatabaseCommunicationClient \<Rightarrow> 'w SQLLog drivers" where
  "sqlite_only mkdir conn =
     sql_drivers (calm_env mkdir) \<lparr>ParseDSN = \<lambda>_. Inl (Errorf []), FormatDSN = \<lambda>_. [], RegisterTLSConfig = \<lambda>_ _ w. (None, w)\<rparr>
       (\<lambda>_. Inl (Errorf []))
       \<lparr>DefaultNodeStore = \<lambda>_ w. (Inl (Errorf []), w), NewInmemNodeStore = \<lparr>ns_Get = \<lambda>w. (Inl (Errorf []), w), ns_Set = \<lambda>_ w. (None, w)\<rparr>,
        driver_New = \<lambda>_ w. (None, w)\<rparr>
       (\<lambda>_. no_migration) conn (\<lambda>s. Some ([], s)) None
       (\<lambda>_ _ s. Some ((nil_backend, Some (Errorf [])), s))"

lemma sqlite_default_listen:
  "\<forall>conn s. Listen (sqlite_only None conn) (calm_host []) (plain_config [] []) s = None \<and>
   Listen (sqlite_only (Some (Errorf ''permission denied'')) conn) (calm_host []) (plain_config [] []) s =
     Some (Inl (Wrapped ''building kine'' (Errorf ''permission denied'')), s)"
proof -
  have p: "ParseStorageEndpoint (cfg_Endpoint (plain_config [] [])) = (''sqlite'', [])" by code_simp
  have e: "exec_all (\<lambda>_ w. (None, w)) ig stmts w = (None, w)" for ig stmts and w :: 'a
    by (induction stmts) simp_all
  have "openAndTest (env_driver (calm_env m) db) w = (None, w)" for m db and w :: 'a
    by (simp add: openAndTest_def calm_env_def numeral_3_eq_3)
  moreover have "sqlite_attempts 300 (calm_env m) db None w = (Inr None, w)" for m db and w :: 'a
    by (simp add: eval_nat_numeral sqlite_setup_def calm_env_def e)
  ultimately have "getKineStorageBackend (sqlite_only None conn) ''sqlite'' [] (plain_config [] []) s =
      Some (Inr (False, kine_backend None (\<lambda>s. Some ([], s))), sqllog_New s)"
    "getKineStorageBackend (sqlite_only (Some err) conn) ''sqlite'' [] (plain_config [] []) s = Some (Inl err, s)"
    for err and conn :: "'a DatabaseCommunicationClient" and s
    by (simp_all add: getKineStorageBackend_def sqlite_only_def sql_drivers_def sqlite_Constructor_def
        new_result_def sqlite_NewVariant_def lift_d_def generic_Open_def calm_env_def)
  then show ?thesis
    using p unfolding sqlite_only_def by (intro allI) (simp add: sql_endpoints_never_serve [OF _ p])
qed

section \<open>Properties\<close>



text \<open>
  The data source name that the postgres driver makes is that of the given one with the database
  \<open>kubernetes\<close> unless it names one, and its query gives every parameter of the given query its first
  value, and the others what the TLS configuration says.
\<close>

lemma pgsql_dsn_parameters:
  assumes "pgsql_prepareDSN source tlsInfo = Inr parsed"
  shows "\<exists>u m m' query.
     url_Parse (if source = [] then pgsql_defaultDSN else ''postgres://'' @ source) = Inr u \<and>
     ParseQuery (RawQuery u) = (m, None) \<and> ParseQuery query = (m', None) \<and>
     parsed = URL_String (u\<lparr>url_Path := (if url_Path u \<in> {[], ''/''} then ''/kubernetes'' else url_Path u),
                            RawQuery := query\<rparr>) \<and>
     (\<forall>k. map_of m' k = (case map_of m k of Some v \<Rightarrow> Some [hd v] | None \<Rightarrow> tls_param m tlsInfo k))"
proof -
  obtain u where u: "url_Parse (if source = [] then pgsql_defaultDSN else ''postgres://'' @ source) = Inr u"
    using assms by (auto simp: pgsql_prepareDSN_def split: sum.splits)
  let ?u = "u\<lparr>url_Path := (if url_Path u \<in> {[], ''/''} then ''/kubernetes'' else url_Path u)\<rparr>"
  have u': "(if url_Path u = [] \<or> url_Path u = ''/'' then u\<lparr>url_Path := ''/kubernetes''\<rparr> else u) = ?u"
    by simp
  obtain m err where "ParseQuery (RawQuery u) = (m, err)" by fastforce
  then have m: "ParseQuery (RawQuery u) = (m, None)"
    and p: "parsed = URL_String (?u\<lparr>RawQuery := Values_Encode (pgsql_params m tlsInfo)\<rparr>)"
    using assms u u' by (auto simp: pgsql_prepareDSN_def Let_def split: option.splits)
  note ok = pgsql_params_map_of [OF ParseQuery_ok [OF m]]
  have "map_of (sort_key fst (pgsql_params m tlsInfo)) = map_of (pgsql_params m tlsInfo)"
    using ok(1) by (subst map_of_inject_set) (auto simp: Values_ok_def distinct_map distinct_sort)
  then show ?thesis using u m p ParseQuery_Encode [OF ok(1)] ok(2)
    by (intro exI [of _ u] exI [of _ m] exI [of _ "sort_key fst (pgsql_params m tlsInfo)"]
        exI [of _ "Values_Encode (pgsql_params m tlsInfo)"]) auto
qed

text \<open>
  C40: the migration to dqlite is not atomic: its insertions are not part of the transaction that it
  opens. Into an empty database it copies the rows up to the first one that is refused, whose error it
  returns, and these rows stay; when there are any, later migrations end at once without an error and
  never copy the others.
\<close>

theorem migrate_prefix:
  assumes "migration_ok g rows refuse old" "rows w = []"
  shows "\<exists>w'. migrate g w = (first_refused refuse old, w') \<and>
     rows w' = takeWhile (\<lambda>r. refuse r = None) old \<and>
     (rows w' \<noteq> [] \<longrightarrow> migrate g w' = (None, w'))"
proof -
  note ok = migration_okD [OF assms(1)]
  obtain w1 where w1: "migrate_rows g (map Inr old) w = (first_refused refuse old, w1)"
    "rows w1 = takeWhile (\<lambda>r. refuse r = None) old"
    using migrate_rows_result [OF assms(1), of old w] assms(2) by auto
  have again: "migrate g w' = (None, w')" if ne: "rows w' \<noteq> []" for w'
    using ne by (simp add: migrate_def ok)
  obtain e w2 where c: "mg_Commit g w1 = (e, w2)" by fastforce
  then have "e = None" "rows w2 = rows w1" using ok(6,7) [of w1] by simp_all
  with c w1 assms(2) again show ?thesis
    by (cases "first_refused refuse old") (simp_all add: migrate_def ok)
qed

text \<open>A database of numbers that refuses three.\<close>

definition number_migration :: "int list \<Rightarrow> (int list, int) migration" where
  "number_migration old =
     \<lparr>mg_Count = \<lambda>w. (Inr (int (length w)), w), mg_Stat = \<lambda>w. (None, w), mg_Open = \<lambda>w. (None, w),
      mg_Query = \<lambda>w. (Inr (map Inr old, None), w), mg_BeginTx = \<lambda>w. (None, w),
      mg_Insert = \<lambda>r w. if r = 3 then (Some ErrKeyExists, w) else (None, w @ [r]),
      mg_Commit = \<lambda>w. (None, w), mg_Rollback = \<lambda>w. w\<rparr>"

theorem migrate_prefix_witness:
  "migrate (number_migration [1, 2, 3, 4]) [] = (Some ErrKeyExists, [1, 2]) \<and>
   migrate (number_migration [1, 2, 3, 4]) [1, 2] = (None, [1, 2])"
proof -
  have "migration_ok (number_migration old) id (\<lambda>r. if r = 3 then Some ErrKeyExists else None) old" for old
    by (simp add: migration_ok_def number_migration_def)
  from migrate_prefix [OF this, of "[]" "[1, 2, 3, 4]"] show ?thesis by (auto simp: first_refused_def)
qed

text \<open>
  C39: the parameters of a dqlite data source name are read back: the peers are the nodes that were
  written, in their order, the peer file is the first one given, and the name that goes to sqlite keeps
  exactly the other parameters, in the order of their keys.
\<close>

theorem dqlite_opts_roundtrip:
  assumes "Values_ok m" "CHR ''?'' \<notin> set base" "\<forall>n \<in> set nodes. node_ok n"
    and "case map_of m ''peer'' of None \<Rightarrow> nodes = [] | Some vs \<Rightarrow> vs = map format_peer nodes"
  shows "parseOpts (base @ CHR ''?'' # Values_Encode m) =
     Inr \<lparr>peers = nodes, peerFile = (case map_of m ''peer-file'' of Some vs \<Rightarrow> hd vs | None \<Rightarrow> []),
       dsn = (if other_params m = [] then base else base @ CHR ''?'' # Values_Encode (other_params m))\<rparr>"
proof -
  let ?m = "sort_key fst m"
  have "map_of ?m = map_of m" "Values_ok ?m"
    using assms(1) by (auto simp: Values_ok_def distinct_map distinct_sort map_of_inject_set)
  then have "parse_values ?m o1 = Inr (o1\<lparr>peers := peers o1 @ nodes,
      peerFile := (case map_of m ''peer-file'' of Some vs \<Rightarrow> hd vs | None \<Rightarrow> peerFile o1)\<rparr>, other_params ?m)" for o1
    using parse_values_format [OF assms(3), of ?m o1] assms(4) by simp
  moreover have o: "other_params ?m = sort_key fst (other_params m)" by (simp add: other_params_def filter_sort)
  have "Values_Encode (other_params ?m) = Values_Encode (other_params m)"
    unfolding o Values_Encode_def by (simp add: sort_key_id_if_sorted)
  moreover have "other_params ?m = [] \<longleftrightarrow> other_params m = []"
    unfolding o by (metis length_0_conv length_sort)
  moreover have "ParseQuery (Values_Encode m) = (?m, None)" by (rule ParseQuery_Encode [OF assms(1)])
  moreover have "SplitN2 (base @ CHR ''?'' # Values_Encode m) ''?'' = [base, Values_Encode m]"
    by (rule SplitN2_char [OF assms(2)])
  ultimately show ?thesis by (simp only: parseOpts_def) (simp cong: option.case_cong)
qed

theorem dqlite_opts_roundtrip_witness:
  "parseOpts (''kine.db'' @ CHR ''?'' # Values_Encode
       [(''peer'', [''1:10.0.0.1:9001'', ''2:10.0.0.2:9001'']), (''mode'', [''rw'']), (''peer-file'', [''/p''])]) =
     Inr \<lparr>peers = [\<lparr>ID = 1, Address = ''10.0.0.1:9001''\<rparr>, \<lparr>ID = 2, Address = ''10.0.0.2:9001''\<rparr>],
       peerFile = ''/p'', dsn = ''kine.db?mode=rw''\<rparr>"
proof -
  let ?nodes = "[\<lparr>ID = 1, Address = ''10.0.0.1:9001''\<rparr>, \<lparr>ID = 2, Address = ''10.0.0.2:9001''\<rparr>]"
  let ?m = "[(''peer'', [''1:10.0.0.1:9001'', ''2:10.0.0.2:9001'']), (''mode'', [''rw'']), (''peer-file'', [''/p''])]"
  have v: "Values_ok ?m" by (simp add: Values_ok_def)
  have n: "\<forall>n \<in> set ?nodes. node_ok n" by (simp add: node_ok_def)
  have "map format_peer ?nodes = [''1:10.0.0.1:9001'', ''2:10.0.0.2:9001'']" by code_simp
  then have p: "case map_of ?m ''peer'' of None \<Rightarrow> ?nodes = [] | Some vs \<Rightarrow> vs = map format_peer ?nodes" by simp
  have f: "(case map_of ?m ''peer-file'' of Some vs \<Rightarrow> hd vs | None \<Rightarrow> []) = ''/p''" by simp
  have d: "(if other_params ?m = [] then ''kine.db'' else ''kine.db'' @ CHR ''?'' # Values_Encode (other_params ?m)) =
      ''kine.db?mode=rw''" by code_simp
  have b: "CHR ''?'' \<notin> set ''kine.db''" by simp
  show ?thesis unfolding dqlite_opts_roundtrip [OF v b n p] f d ..
qed

end
