(* ===== verification/SqlTexts.thy ===== *)
theory SqlTexts
  imports Generic
begin

text \<open>
  The SQL texts that \<open>Open\<close> keeps in a dialect (\<open>generic.go\<close>) and how they are shown in the log
  (\<open>pkg/util/string.go\<close>). They are not executed against the DDS database, whose numbered queries answer
  for them: \<open>parameters_of_queries\<close> says that both take the same parameters. The methods of the dialect that
  nothing calls any more are here too.
\<close>

section \<open>Texts\<close>

text \<open>A line feed and the tabulators that indent the next line.\<close>

definition nl :: "nat \<Rightarrow> string" where
  "nl n = CHR 0x0A # replicate n (CHR 0x09)"

definition columns :: string where
  "columns =
     ''kv.id AS theid, kv.name, kv.created, kv.deleted, kv.create_revision, kv.prev_revision, kv.lease, kv.value, kv.old_value''"

definition revSQL :: string where
  "revSQL =
     nl 2 @ ''SELECT MAX(rkv.id) AS id'' @ nl 2 @ ''FROM kine AS rkv''"

definition compactRevSQL :: string where
  "compactRevSQL =
     nl 2 @ ''SELECT MAX(crkv.prev_revision) AS prev_revision'' @ nl 2 @ ''FROM kine AS crkv'' @ nl 2 @
     ''WHERE crkv.name = 'compact_rev_key'' @ [CHR 0x27]"

definition idOfKey :: string where
  "idOfKey =
     nl 2 @ ''AND'' @ nl 2 @ ''mkv.id <= ? AND'' @ nl 2 @ ''mkv.id > ('' @ nl 3 @ ''SELECT MAX(ikv.id) AS id'' @
     nl 3 @ ''FROM kine AS ikv'' @ nl 3 @ ''WHERE'' @ nl 4 @ ''ikv.name = ? AND'' @ nl 4 @ ''ikv.id <= ?)''"


definition listSQL :: "string \<Rightarrow> string" where
  "listSQL cond =
     nl 2 @ ''SELECT *'' @ nl 2 @ ''FROM ('' @ nl 3 @ ''SELECT ('' @ revSQL @ ''), ('' @ compactRevSQL @ ''), '' @
     columns @ nl 3 @ ''FROM kine AS kv'' @ nl 3 @ ''JOIN ('' @ nl 4 @ ''SELECT MAX(mkv.id) AS id'' @ nl 4 @
     ''FROM kine AS mkv'' @ nl 4 @ ''WHERE'' @ nl 5 @ ''mkv.name LIKE ?'' @ nl 5 @ cond @ nl 4 @
     ''GROUP BY mkv.name) AS maxkv'' @ nl 4 @ ''ON maxkv.id = kv.id'' @ nl 3 @ ''WHERE'' @ nl 4 @
     ''kv.deleted = 0 OR'' @ nl 4 @ ''?'' @ nl 2 @ '') AS lkv'' @ nl 2 @ ''ORDER BY lkv.theid ASC'' @ nl 2"

definition text_GetRevisionSQL :: string where
  "text_GetRevisionSQL =
     nl 3 @ ''SELECT'' @ nl 3 @ ''0, 0, '' @ columns @ nl 3 @ ''FROM kine AS kv'' @ nl 3 @ ''WHERE kv.id = ?''"

definition text_GetCurrentSQL :: string where
  "text_GetCurrentSQL = listSQL []"

definition text_ListRevisionStartSQL :: string where
  "text_ListRevisionStartSQL = listSQL ''AND mkv.id <= ?''"

definition text_GetRevisionAfterSQL :: string where
  "text_GetRevisionAfterSQL = listSQL idOfKey"

definition text_CountSQL :: string where
  "text_CountSQL =
     nl 3 @ ''SELECT ('' @ revSQL @ ''), COUNT(c.theid)'' @ nl 3 @ ''FROM ('' @ nl 4 @ listSQL [] @ nl 3 @ '') c''"

definition text_AfterSQL :: string where
  "text_AfterSQL =
     nl 3 @ ''SELECT ('' @ revSQL @ ''), ('' @ compactRevSQL @ ''), '' @ columns @ nl 3 @ ''FROM kine AS kv'' @
     nl 3 @ ''WHERE'' @ nl 4 @ ''kv.name LIKE ? AND'' @ nl 4 @ ''kv.id > ?'' @ nl 3 @ ''ORDER BY kv.id ASC''"

definition text_DeleteSQL :: string where
  "text_DeleteSQL =
     nl 3 @ ''DELETE FROM kine AS kv'' @ nl 3 @ ''WHERE kv.id = ?''"

definition text_UpdateCompactSQL :: string where
  "text_UpdateCompactSQL =
     nl 3 @ ''UPDATE kine'' @ nl 3 @ ''SET prev_revision = ?'' @ nl 3 @ ''WHERE name = 'compact_rev_key'' @
     [CHR 0x27]"

definition text_InsertLastInsertIDSQL :: string where
  "text_InsertLastInsertIDSQL =
     ''INSERT INTO kine(name, created, deleted, create_revision, prev_revision, lease, value, old_value)'' @ nl 3 @
     ''values(?, ?, ?, ?, ?, ?, ?, ?)''"

definition text_InsertSQL :: string where
  "text_InsertSQL =
     ''INSERT INTO kine(name, created, deleted, create_revision, prev_revision, lease, value, old_value)'' @ nl 3 @
     ''values(?, ?, ?, ?, ?, ?, ?, ?) RETURNING id''"

definition text_FillSQL :: string where
  "text_FillSQL =
     ''INSERT INTO kine(id, name, created, deleted, create_revision, prev_revision, lease, value, old_value)'' @
     nl 3 @ ''values(?, ?, ?, ?, ?, ?, ?, ?, ?)''"

text \<open>The fields of the dialect, with the placeholders of the driver.\<close>

record open_sql =
  os_GetRevisionSQL :: string
  os_GetCurrentSQL :: string
  os_ListRevisionStartSQL :: string
  os_GetRevisionAfterSQL :: string
  os_CountSQL :: string
  os_AfterSQL :: string
  os_DeleteSQL :: string
  os_UpdateCompactSQL :: string
  os_InsertLastInsertIDSQL :: string
  os_InsertSQL :: string
  os_FillSQL :: string

definition open_texts :: "string \<Rightarrow> bool \<Rightarrow> open_sql" where
  "open_texts paramCharacter numbered =
     (let f = (\<lambda>sql. q sql paramCharacter numbered)
      in \<lparr>os_GetRevisionSQL = f text_GetRevisionSQL,
          os_GetCurrentSQL = f text_GetCurrentSQL,
          os_ListRevisionStartSQL = f text_ListRevisionStartSQL,
          os_GetRevisionAfterSQL = f text_GetRevisionAfterSQL,
          os_CountSQL = f text_CountSQL,
          os_AfterSQL = f text_AfterSQL,
          os_DeleteSQL = f text_DeleteSQL,
          os_UpdateCompactSQL = f text_UpdateCompactSQL,
          os_InsertLastInsertIDSQL = f text_InsertLastInsertIDSQL,
          os_InsertSQL = f text_InsertSQL,
          os_FillSQL = f text_FillSQL\<rparr>)"

text \<open>
  The methods that still query the SQL database, none of which has a caller: \<open>r\<close> is the handle of the
  database, or of a transaction, with cursors as its results.
\<close>

record ('w, 'r) sql_reader =
  QueryContext :: "string \<Rightarrow> int64 list \<Rightarrow> 'w \<Rightarrow> (go_error + 'r) \<times> 'w"
  QueryRowContext :: "string \<Rightarrow> int64 list \<Rightarrow> 'w \<Rightarrow> 'r \<times> 'w"

definition Generic_query :: "('w, 'r) sql_reader \<Rightarrow> string \<Rightarrow> int64 list \<Rightarrow> 'w \<Rightarrow> (go_error + 'r) \<times> 'w" where
  "Generic_query r sql args w = QueryContext r sql args w"

definition Generic_queryRow :: "('w, 'r) sql_reader \<Rightarrow> string \<Rightarrow> int64 list \<Rightarrow> 'w \<Rightarrow> 'r \<times> 'w" where
  "Generic_queryRow r sql args w = QueryRowContext r sql args w"

definition Generic_GetRevision :: "('w, 'r) sql_reader \<Rightarrow> open_sql \<Rightarrow> int64 \<Rightarrow> 'w \<Rightarrow> (go_error + 'r) \<times> 'w" where
  "Generic_GetRevision r d revision w = Generic_query r (os_GetRevisionSQL d) [revision] w"

definition Tx_query :: "('w, 'r) sql_reader \<Rightarrow> string \<Rightarrow> int64 list \<Rightarrow> 'w \<Rightarrow> (go_error + 'r) \<times> 'w" where
  "Tx_query x sql args w = QueryContext x sql args w"

definition Tx_queryRow :: "('w, 'r) sql_reader \<Rightarrow> string \<Rightarrow> int64 list \<Rightarrow> 'w \<Rightarrow> 'r \<times> 'w" where
  "Tx_queryRow x sql args w = QueryRowContext x sql args w"

definition Tx_GetRevision :: "('w, 'r) sql_reader \<Rightarrow> open_sql \<Rightarrow> int64 \<Rightarrow> 'w \<Rightarrow> (go_error + 'r) \<times> 'w" where
  "Tx_GetRevision x d revision w = Tx_query x (os_GetRevisionSQL d) [revision] w"

text \<open>
  \<open>TestConnection\<close> sends the package variable \<open>counter\<close> and counts the answers; nothing calls it.
\<close>

record KineTest =
  Testid :: int64
  test_Content :: string

definition TestConnection ::
  "(KineTest \<Rightarrow> 'w \<Rightarrow> (go_error + 'r) \<times> 'w) \<Rightarrow> string \<Rightarrow> int64 \<Rightarrow> 'w \<Rightarrow> int64 \<times> 'w" where
  "TestConnection RequestTest msg counter w =
     (case RequestTest \<lparr>Testid = counter, test_Content = ''Message: '' @ msg\<rparr> w of
        (Inl err, w) \<Rightarrow> (counter, w)
      | (Inr response, w) \<Rightarrow> (i64 (counter + 1), w))"

text \<open>\<open>Stripped\<close>: line feeds are dropped, and other white space becomes one space.\<close>

fun squeeze :: "string \<Rightarrow> string" where
  "squeeze [] = []"
| "squeeze (c # s) =
     (if c = CHR 0x09 \<or> c = CHR '' '' then
        (case squeeze s of
           d # t \<Rightarrow> if d = CHR '' '' then d # t else CHR '' '' # d # t
         | [] \<Rightarrow> [CHR '' ''])
      else c # squeeze s)"

definition Stripped :: "string \<Rightarrow> string" where
  "Stripped s = squeeze (filter (\<lambda>c. c \<noteq> CHR 0x0A) s)"

section \<open>Facts\<close>

lemma squeeze_chars: "set (squeeze s) \<subseteq> insert (CHR '' '') (set s)" "CHR 0x09 \<notin> set (squeeze s)"
  by (induction s) (auto split: list.splits)

lemma Stripped_line: "CHR 0x0A \<notin> set (Stripped s)" "CHR 0x09 \<notin> set (Stripped s)"
  using squeeze_chars [of "filter (\<lambda>c. c \<noteq> CHR 0x0A) s"] by (auto simp: Stripped_def)

lemma squeeze_idem: "squeeze (squeeze s) = squeeze s"
  by (induction s) (auto split: list.splits)

text \<open>A text that has been stripped is shown as it is.\<close>

lemma Stripped_idem: "Stripped (Stripped s) = Stripped s"
proof -
  have "filter (\<lambda>c. c \<noteq> CHR 0x0A) (Stripped s) = Stripped s"
    using Stripped_line(1) [of s] by (auto intro: filter_True)
  then show ?thesis by (simp add: Stripped_def squeeze_idem)
qed

text \<open>A line feed that is not followed by white space joins two words.\<close>

lemma Stripped_joins_words: "Stripped (''SELECT'' @ nl 0 @ ''1'') = ''SELECT1''"
  by code_simp

definition placeholders :: "string \<Rightarrow> nat" where
  "placeholders sql = length (filter (\<lambda>c. c = CHR ''?'') sql)"

text \<open>\<open>q\<close> leaves no placeholder when the parameter text has none.\<close>

lemma q_replace_placeholders:
  "CHR ''?'' \<notin> set param \<Longrightarrow> CHR ''?'' \<notin> set (q_replace param numbered n sql)"
proof (induction sql arbitrary: n)
  case (Cons c sql)
  have "\<not> is_digit (CHR ''?'')" by code_simp
  then have "CHR ''?'' \<notin> set (FormatInt k)" for k
    using nat_digits_digits by (auto simp: FormatInt_def list_all_iff)
  with Cons show ?case by auto
qed simp

text \<open>
  The statements that the DDS queries stand for have as many parameters as the queries: pattern and
  flag (query 4), and a revision (query 11), a start key and a revision (query 9), pattern and flag
  (query 3), pattern and revision (query 1), the eight fields of an insertion.
\<close>

lemma parameters_of_queries:
  "placeholders text_GetCurrentSQL = 2" "placeholders text_ListRevisionStartSQL = 3"
  "placeholders text_GetRevisionAfterSQL = 5" "placeholders text_CountSQL = 2" "placeholders text_AfterSQL = 2"
  "placeholders text_InsertSQL = 8" "placeholders text_FillSQL = 9" "placeholders text_UpdateCompactSQL = 1"
  by code_simp+

text \<open>The first query of postgres as the log shows it.\<close>

lemma after_of_postgres:
  "Stripped (os_AfterSQL (open_texts ''$'' True)) =
     '' SELECT ( SELECT MAX(rkv.id) AS id FROM kine AS rkv), ( SELECT MAX(crkv.prev_revision) AS prev_revision FROM kine AS crkv WHERE crkv.name = 'compact_rev_key'), '' @
     columns @ '' FROM kine AS kv WHERE kv.name LIKE $1 AND kv.id > $2 ORDER BY kv.id ASC''"
  by code_simp

end
