(* ===== verification/Program.thy ===== *)
theory Program
  imports SqlProperties NatsConfig SqlTexts
begin

text \<open>
  The program around the server: the command line (\<open>main.go\<close>), the metrics (\<open>pkg/metrics\<close>) and the
  drivers of builds that lack one (\<open>sqlite_nocgo.go\<close>, \<open>no_dqlite.go\<close>). The parser of the command line, the
  metrics library and the operating system are parameters.
\<close>

section \<open>Metrics\<close>

text \<open>
  The counters of SQL statements by the code of their error, their times, and the lines of the log on
  slow ones. \<open>SlowSQLThreshold\<close> and the times are in nanoseconds.
\<close>

record sql_metrics =
  SQLTotal :: "string \<Rightarrow> nat"
  SQLTime :: "string \<Rightarrow> int list"
  slow_log :: "(int \<times> string) list"

definition ObserveSQL :: "int \<Rightarrow> int \<Rightarrow> int \<Rightarrow> string \<Rightarrow> string \<Rightarrow> sql_metrics \<Rightarrow> sql_metrics" where
  "ObserveSQL SlowSQLThreshold now start errCode sql m =
     (let duration = now - start;
          m = m\<lparr>SQLTotal := (SQLTotal m)(errCode := SQLTotal m errCode + 1),
                SQLTime := (SQLTime m)(errCode := SQLTime m errCode @ [duration])\<rparr>
      in if SlowSQLThreshold > 0 \<and> duration \<ge> SlowSQLThreshold
         then m\<lparr>slow_log := slow_log m @ [(duration, Stripped sql)]\<rparr> else m)"

record metrics_Config =
  ServerAddress :: string
  mc_ServerTLSConfig :: tls_Config
  EnableProfiling :: bool

definition defaultBindAddress :: string where
  "defaultBindAddress = '':8080''"

definition metricsPath :: string where
  "metricsPath = ''/metrics''"

text \<open>
  The handlers of the metrics server, by the path of a request: a pattern that ends in a slash stands
  for everything below it.
\<close>

datatype metrics_handler =
    Metrics_handler
  | Pprof_Index
  | Pprof_Cmdline
  | Pprof_Profile
  | Pprof_Symbol
  | Pprof_Trace
  | Not_found

definition metrics_mux :: "metrics_Config \<Rightarrow> string \<Rightarrow> metrics_handler" where
  "metrics_mux config path =
     (if path = metricsPath then Metrics_handler
      else if \<not> EnableProfiling config then Not_found
      else if path = ''/debug/pprof/cmdline'' then Pprof_Cmdline
      else if path = ''/debug/pprof/profile'' then Pprof_Profile
      else if path = ''/debug/pprof/symbol'' then Pprof_Symbol
      else if path = ''/debug/pprof/trace'' then Pprof_Trace
      else if HasPrefix path ''/debug/pprof/'' then Pprof_Index
      else Not_found)"

text \<open>
  \<open>Serve\<close>: nothing when metrics are disabled; otherwise the listener, and the server with or without TLS.
  \<open>Fatal\<close> ends the process.
\<close>

datatype metrics_result =
    Disabled
  | Fatal string
  | Serving string bool

definition metrics_Serve :: "(string \<Rightarrow> 'w \<Rightarrow> go_error option \<times> 'w) \<Rightarrow> metrics_Config \<Rightarrow> 'w \<Rightarrow> metrics_result \<times> 'w" where
  "metrics_Serve listen config w =
     (let address = (if ServerAddress config = [] then defaultBindAddress else ServerAddress config)
      in if address = ''0'' then (Disabled, w)
         else (case listen address w of
             (Some e, w) \<Rightarrow> (Fatal ''error creating the metrics listener'', w)
           | (None, w) \<Rightarrow> (Serving address (has_tls (mc_ServerTLSConfig config)), w)))"

section \<open>The command line\<close>

text \<open>The flags by their names; \<open>default_flags\<close> are their values when they are not given.\<close>

record flags =
  listen_address :: string
  endpoint :: string
  ca_file :: string
  cert_file :: string
  server_cert_file :: string
  server_key_file :: string
  datastore_max_idle_connections :: int
  datastore_max_open_connections :: int
  datastore_connection_max_lifetime :: int64
  key_file :: string
  metrics_bind_address :: string
  slow_sql_threshold :: int
  metrics_enable_profiling :: bool
  debug :: bool

definition default_flags :: flags where
  "default_flags =
     \<lparr>listen_address = ''0.0.0.0:2379'', endpoint = [], ca_file = [], cert_file = [], server_cert_file = [],
      server_key_file = [], datastore_max_idle_connections = 0, datastore_max_open_connections = 0,
      datastore_connection_max_lifetime = 0, key_file = [], metrics_bind_address = '':8080'',
      slow_sql_threshold = 1000000000, metrics_enable_profiling = False, debug = False\<rparr>"

text \<open>What the destinations of the flags and \<open>run\<close> make of them.\<close>

definition main_config :: "flags \<Rightarrow> Config" where
  "main_config f =
     \<lparr>cfg_GRPCServer = False, cfg_Listener = listen_address f, cfg_Endpoint = endpoint f,
      cfg_ConnectionPoolConfig = \<lparr>MaxIdle = datastore_max_idle_connections f,
        MaxOpen = datastore_max_open_connections f, MaxLifetime = datastore_connection_max_lifetime f\<rparr>,
      ServerTLSConfig = \<lparr>CAFile = [], CertFile = server_cert_file f, KeyFile = server_key_file f\<rparr>,
      BackendTLSConfig = \<lparr>CAFile = ca_file f, CertFile = cert_file f, KeyFile = key_file f\<rparr>,
      cfg_MetricsRegisterer = True\<rparr>"

definition main_metricsConfig :: "flags \<Rightarrow> metrics_Config" where
  "main_metricsConfig f =
     \<lparr>ServerAddress = metrics_bind_address f, mc_ServerTLSConfig = ServerTLSConfig (main_config f),
      EnableProfiling = metrics_enable_profiling f\<rparr>"

text \<open>
  \<open>run\<close> and how \<open>main\<close> ends: with the error of \<open>Listen\<close>, which is fatal, or when a signal cancels the
  context, whose error is not. The result of a run that serves has the backend, if there is one. The
  goroutine of the metrics takes its steps before those of \<open>Listen\<close> here.
\<close>

datatype 'w outcome =
    Fatal_error go_error
  | Served_until_signal ETCDConfig "'w Backend option"

definition main_run ::
  "'w drivers \<Rightarrow> 'w host \<Rightarrow> (string \<Rightarrow> 'w \<Rightarrow> go_error option \<times> 'w) \<Rightarrow> flags \<Rightarrow> ('w, 'w outcome) go" where
  "main_run ds h metrics_listen f w =
     (case metrics_Serve metrics_listen (main_metricsConfig f) w of
        (Fatal text, w) \<Rightarrow> Some (Fatal_error (Errorf text), w)
      | (_, w) \<Rightarrow> do {
          (r, w) \<leftarrow> Listen ds h (main_config f) w;
          Some (case r of
            Inl e \<Rightarrow> Fatal_error e
          | Inr (ec, b) \<Rightarrow> Served_until_signal ec b, w)
        })"

section \<open>Builds without a driver\<close>

definition errNoCgo :: go_error where
  "errNoCgo = Errorf ''this binary is built without CGO, sqlite is disabled''"

definition sqlite_nocgo_New :: "string \<Rightarrow> Config \<Rightarrow> ('w, 'w Backend \<times> go_error option) go" where
  "sqlite_nocgo_New d cfg w = Some ((nil_backend, Some errNoCgo), w)"

definition no_dqlite_New :: "string \<Rightarrow> Config \<Rightarrow> ('w, 'w Backend \<times> go_error option) go" where
  "no_dqlite_New d cfg w =
     Some ((nil_backend, Some (Errorf (''this binary is built without dqlite support, compile with '' @
       [CHR 0x22] @ ''-tags dqlite'' @ [CHR 0x22]))), w)"

section \<open>The services of the server, and its client (server.go, client.go)\<close>

text \<open>The backend and the scheme are those of the limited server inside.\<close>

record 'w KVServerBridge =
  bridge_backend :: "'w Backend"
  bridge_scheme :: string

definition bridge_New :: "'w Backend \<Rightarrow> string \<Rightarrow> 'w KVServerBridge" where
  "bridge_New backend scheme = \<lparr>bridge_backend = backend, bridge_scheme = scheme\<rparr>"

text \<open>The services that are registered with a gRPC server, and the states its health service reports.\<close>

datatype 'w service =
    LeaseServer "'w KVServerBridge"
  | WatchServer "'w KVServerBridge"
  | KVServer "'w KVServerBridge"
  | ClusterServer "'w KVServerBridge"
  | MaintenanceServer "'w KVServerBridge"
  | HealthServer "(string \<times> bool) list"

definition Register :: "'w KVServerBridge \<Rightarrow> 'w service list \<Rightarrow> 'w service list" where
  "Register k services =
     (let hsrv = [([], True)]
      in services @ [LeaseServer k, WatchServer k, KVServer k, ClusterServer k, MaintenanceServer k, HealthServer hsrv])"

text \<open>\<open>members\<close> of the bridge: the scheme is the one that the bridge was made with.\<close>

definition bridge_members :: "'w KVServerBridge \<Rightarrow> string list option \<Rightarrow> Member list" where
  "bridge_members k authList = MemberList authList (bridge_scheme k)"

record clientv3_Config =
  v3_Endpoints :: "string list"
  DialTimeout :: int
  v3_TLS :: "tls_client option"

text \<open>\<open>load\<close> reads certificates, \<open>connect\<close> is the constructor of the etcd client.\<close>

definition client_New ::
  "(tls_Config \<Rightarrow> go_error + tls_client) \<Rightarrow> (clientv3_Config \<Rightarrow> 'w \<Rightarrow> (go_error + 'c) \<times> 'w) \<Rightarrow> ETCDConfig \<Rightarrow>
   'w \<Rightarrow> (go_error + 'c) \<times> 'w" where
  "client_New load connect config w =
     (case ClientConfig load (etcd_TLSConfig config) of
        Inl e \<Rightarrow> (Inl e, w)
      | Inr tlsConfig \<Rightarrow>
          connect \<lparr>v3_Endpoints = Endpoints config, DialTimeout = 5 * 1000000000, v3_TLS = tlsConfig\<rparr> w)"

section \<open>Facts\<close>

text \<open>
  A client of a backend that \<open>Listen\<close> has started connects to the one address it returns, without a TLS
  configuration of its own, also when the server has certificates.
\<close>

lemma client_of_listen:
  assumes "Listen ds h config w = Some (Inr (ec, Some b), w')"
  shows "\<exists>addr. Endpoints ec = [endpointURL config addr] \<and>
    client_New load connect ec v =
      connect \<lparr>v3_Endpoints = [endpointURL config addr], DialTimeout = 5000000000, v3_TLS = None\<rparr> v"
proof -
  obtain addr where "Endpoints ec = [endpointURL config addr]" "etcd_TLSConfig ec = no_tls"
    by (rule Listen_backend [OF assms]) simp
  then show ?thesis by (auto simp: client_New_def ClientConfig_def no_tls_def)
qed

text \<open>Slow statements are logged in one line, and every statement is counted.\<close>

lemma ObserveSQL_log:
  "slow_log (ObserveSQL t now start code sql m) =
     slow_log m @ (if t > 0 \<and> now - start \<ge> t then [(now - start, Stripped sql)] else [])"
  "SQLTotal (ObserveSQL t now start code sql m) c = SQLTotal m c + (if c = code then 1 else 0)"
  by (simp_all add: ObserveSQL_def Let_def)

text \<open>Without profiling the metrics are the only thing that is served.\<close>

lemma metrics_only: "\<not> EnableProfiling config \<Longrightarrow> metrics_mux config path = (if path = ''/metrics'' then Metrics_handler else Not_found)"
  by (simp add: metrics_mux_def metricsPath_def)

lemma main_config_simps [simp]: "cfg_Endpoint (main_config f) = endpoint f"
  by (simp add: main_config_def)

section \<open>Properties\<close>

text \<open>
  C37: only the constructor of postgres connects the package \<open>commsdb\<close>. Started for sqlite, which is the
  default, for dqlite or for mysql, the program never serves: it ends with an error, or it panics when it
  starts the backend, whatever the databases do.
\<close>

theorem sql_programs_never_serve:
  assumes "fst (ParseStorageEndpoint (endpoint f)) \<in> {''sqlite'', ''dqlite'', ''mysql''}"
  shows "main_run (sql_drivers env mlib load dlib mg conn feed register nats) h metrics_listen f s \<noteq>
    Some (Served_until_signal ec b, s')"
proof -
  obtain driver source where p: "ParseStorageEndpoint (endpoint f) = (driver, source)" by fastforce
  have "Listen (sql_drivers env mlib load dlib mg conn feed register nats) h (main_config f) s1 \<noteq> Some (Inr x, s2)" for s1 s2 x
  proof -
    have "fst (ParseStorageEndpoint (cfg_Endpoint (main_config f))) \<in> {''sqlite'', ''dqlite'', ''mysql''}"
      "ParseStorageEndpoint (cfg_Endpoint (main_config f)) = (driver, source)"
      using assms p by simp_all
    then show ?thesis by (subst sql_endpoints_never_serve) (auto split: option.splits sum.splits prod.splits)
  qed
  then show ?thesis
    by (auto simp: main_run_def bind_eq_Some_conv split: prod.splits metrics_result.splits sum.splits)
qed

theorem sql_programs_never_serve_witness:
  "\<forall>conn s ec b s'. main_run (sqlite_only None conn) (calm_host []) (\<lambda>_ w. (None, w)) default_flags s \<noteq>
     Some (Served_until_signal ec b, s')"
proof -
  have "fst (ParseStorageEndpoint (endpoint default_flags)) \<in> {''sqlite'', ''dqlite'', ''mysql''}" by code_simp
  then show ?thesis unfolding sqlite_only_def by (intro allI sql_programs_never_serve)
qed

end
