(* ===== verification/Spec2Isabelle.thy ===== *)
theory Spec2Isabelle
  imports Stack Listing Cluster Delivery WatchService Broadcaster Endpoint NatsProperties NatsServer Program
begin

text \<open>
  This library models the storage path of the repository: Kine (\<open>kine/pkg\<close>, Go), which serves the
  etcd API to Kubernetes, and the DDS database (\<open>DdsDatabase/src\<close>, C++), which took the place of
  the SQL database behind it. Kine has a second backend, the NATS driver (\<open>drivers/nats\<close>), which keeps
  the keys in a bucket of JetStream. Paths below are relative to \<open>src/kine/pkg\<close> unless they name the
  database.

  A request goes through these layers, from the outside: the gRPC bridge (\<open>server/kv.go\<close> and
  others), the limited server that understands four kinds of transactions (\<open>server/limited.go\<close>,
  \<open>create.go\<close>, \<open>update.go\<close>, \<open>delete.go\<close>, \<open>list.go\<close>), the structured log that gives keys their
  versions (\<open>logstructured/logstructured.go\<close>), the SQL log (\<open>logstructured/sqllog/sql.go\<close>) that
  appends rows, turns rows into events and polls for new ones, the dialect
  (\<open>drivers/generic/generic.go\<close>, \<open>tx.go\<close>) whose operations are remote calls, the messages of those
  calls (\<open>drivers/messagestructures\<close>), and the database, which keeps one sample for each row in a
  DDS topic. Changes come back through the poller and the broadcaster (\<open>broadcaster\<close>) to the watches
  (\<open>server/watch.go\<close>). The program reads its flags (\<open>kine/main.go\<close>), and the endpoint string chooses the
  driver (\<open>endpoint\<close>), whose constructor opens the backend. Each layer is a theory; the interfaces between them are the records of
  \<open>Interfaces\<close> and the locales named below.

  \<^item> \<open>Prelude\<close>: the type \<open>go\<close> of a call with effects, 64 and 32 bit integers with their wrap-around,
    the string and decimal functions of the Go library, non-blocking sends, generic lemmas.
  \<^item> \<open>Messages\<close>: protocol buffer messages, the client stub, \<open>commsdb\<close>. \<open>Interfaces\<close>: \<open>Backend\<close>,
    \<open>Dialect\<close>, \<open>Transaction\<close>, \<open>Log\<close>, \<open>KeyValue\<close>, \<open>Event\<close>. \<open>Etcd\<close>: the etcd messages, data only.
  \<^item> \<open>Generic\<close>: the dialect and its transactions over the stub; \<open>execute\<close> with its 20 attempts.
  \<^item> \<open>Sqllog\<close>: the state \<open>SQLLog\<close> (the world of the dialect and the \<open>notify\<close> channel, with room for
    1024 revisions), reads, \<open>Append\<close>, \<open>compactStart\<close>. \<open>Compactor\<close>: the transaction, batches and ticks
    of the compaction. \<open>Poller\<close>: one round of \<open>poll\<close> with its treatment of gaps, runs of rounds, the
    filter and \<open>Watch\<close>.
  \<^item> \<open>LogStructured\<close>: the backend's operations, the lease goroutines and \<open>Watch\<close>, over any \<open>Log\<close>.
  \<^item> \<open>Server\<close>, \<open>Bridge\<close>, \<open>Client\<close>: ranges, transactions, cluster and maintenance calls, and the client
    wrapper of \<open>client/client.go\<close>. \<open>Watch\<close>: the goroutine of one watch with its responses.
    \<open>WatchService\<close>: a whole watch call as a transition system of the receiving goroutine and those of
    its watches, with cancellation and \<open>Close\<close>.
  \<^item> \<open>Broadcaster\<close>: a transition system whose steps are subscriptions, items, receives, cancellations
    and the goroutines that remove slow subscribers, in any order.
  \<^item> \<open>Endpoint\<close>: endpoint strings, the choice of the driver, \<open>Listen\<close>, the version handler and the
    connection part of \<open>generic.Open\<close>. \<open>Url\<close>: the parser of \<open>net/url\<close>, as far as the drivers use it.
  \<^item> \<open>SqlDrivers\<close>, \<open>SqlTexts\<close>, \<open>SqlProperties\<close>: the constructors of the drivers sqlite, mysql, postgres and
    dqlite with their data source names, schemas, error translations and the migration to dqlite; the
    texts of the queries and their parameters, with the methods that still query the SQL database;
    which endpoints can serve.
  \<^item> \<open>Program\<close>: the flags, the configurations made of them, \<open>run\<close> and its end, the metrics server, the
    services that the bridge registers, and the client that dials the returned endpoint.
  \<^item> \<open>Codec\<close>, \<open>NatsKv\<close>, \<open>EncodedBucket\<close>: the codecs of the NATS driver's keys and values
    (\<open>drivers/nats/kv\<close>), the store \<open>EncodedKV\<close> over a bucket, and its contract. \<open>Nats\<close>: the operations of
    \<open>drivers/nats/nats.go\<close>. \<open>NatsStore\<close>, \<open>NatsSpec\<close>, \<open>NatsList\<close>, \<open>NatsProperties\<close>: the typing of the
    stored values, the abstract content of the store, and what each operation does to it. \<open>NatsServer\<close>:
    the etcd transactions over this backend. \<open>NatsConfig\<close>: connection strings, \<open>newBackend\<close> and the
    embedded server (\<open>drivers/nats/server\<close>).
  \<^item> \<open>Dds\<close>: the database. Its state is the samples of its two topics and the matched readers; its
    operations are the queries 1, 3, 4, 9 and 11 with their filters, the publication with and without
    an identifier, the disposal and the remote service. \<open>Cluster\<close>: several such nodes with their listeners,
    the republishing after a writer has died, and a transition system of the nodes and the network, in
    which samples arrive late and in any order and nodes join.
  \<^item> \<open>KeyLog\<close>, \<open>KeyStore\<close>, \<open>Stack\<close>: the contracts between the layers and their proofs for the code.
    \<open>Listing\<close>: the pages of a listing through all layers. \<open>Delivery\<close>: the way of a row through the poller, the
    log and the backend to the responses of a watch.

  Contracts. The locale \<open>key_log\<close> says what the structured log needs of a log for one key: reading a
  key gives its newest version, appending adds a version at the next revision and leaves other keys
  alone. \<open>key_store\<close> is the same promise for a backend, and every log of the first kind gives a store
  of the second (a sublocale): creation, update, deletion and get refine a map from keys to versions.
  \<open>poll_source\<close> says what the poller needs of a dialect: rows after a revision in increasing order, and
  writes that keep it so. \<open>dds_middleware\<close> assumes only the documented behaviour of a keyed DDS topic
  (\<open>dds_keyed\<close>: one sample for each key, the last one written; a disposal removes it; no order) and
  yields the other three for the stack of the sources. It is interpreted on the middleware
  \<open>in_order\<close>, which appends samples at the end; the properties of this theory hold for every
  middleware with \<open>dds_keyed\<close>, and their witnesses use that one. \<open>Cluster\<close> rests on the same law.

  For the NATS driver, \<open>js_bucket\<close> states the documented behaviour of a JetStream bucket: entries of a
  key in the order of their revisions, a limited history, conditional writes, watchers.
  \<open>encoded_bucket\<close> adds the laws of the codecs (\<open>base58_full\<close>, \<open>values_ok\<close>) and yields the same contract for
  paths (a sublocale), \<open>nats_store\<close> is what the driver relies on, and \<open>nats_bucket\<close>, which every such
  bucket is, yields it for the driver as the sources open it. They are interpreted on a bucket in
  memory (\<open>mem_bucket\<close>) with the code's wrapper and driver over it.

  What the lemmas show. \<open>Dds\<close>: a grouped query is the newest row of each name, a row's number survives
  its journey as a text exactly when it has 32 bits, identifiers are fresh. \<open>Sqllog\<close>, \<open>Poller\<close>: rows
  and events agree; every branch of a gap; order over all runs. \<open>Cluster\<close>: rows appended at nodes that have received
  everything make the cluster a refinement of one database, by a simulation; without that, two nodes
  take the same identifier, and a node that joins starts again at 1. \<open>Delivery\<close>: while rows are appended
  without a gap, every one of them reaches a watch exactly once. \<open>LogStructured\<close> to \<open>Bridge\<close>: every
  branch of the operations, as lemmas that the contracts use. \<open>Broadcaster\<close>, \<open>WatchService\<close>: invariants
  by rule induction, and the independence of each watch from the others. The NATS theories: every
  operation as a function of the abstract content. The drivers and the program: what is refused and
  what is served. Where the code does something else than its comments or callers expect, the
  statement says what it does (\<open>count_exchanged\<close>, \<open>compact_revision_lost\<close>,
  \<open>visibility_by_first_sample\<close>, \<open>jetstream_endpoints_refused\<close>, \<open>sql_programs_never_serve\<close> and others).

  Bounds. Rows keep 32 bit numbers, so the properties about writes assume room below \<open>2 ^ 31\<close> and at
  most 10000 samples (\<open>maximum_messages\<close>, the constant of \<open>Controller.cpp\<close>): beyond them the code
  behaves differently (\<open>large_revision_fails\<close>). The revisions of a bucket stay below \<open>2 ^ 63\<close>. A key is
  plain when it has no percent sign and no slash at its end; for the NATS driver, when it starts with
  a slash and has no wildcards. The result \<open>None\<close> of a call is a panic or a recursion that does not
  end; recursions that may not end are partial functions, so that returning is a statement. Runs of
  the poller and the compactor are functions of the list of their ticks, so they need no fuel.

  Parameters. The DDS middleware; the bucket, the client library, the server and the context files of
  NATS; JSON, Base58 and the compression S2; the clock; the SQL databases with their drivers; the
  floating-point product in \<open>time.ParseDuration\<close>; certificates and sockets; Prometheus; the parser of
  the command line.

  Not modelled. The discovery of the nodes, disposals between nodes and the interleaving of threads
  inside one; the mass dispose beyond its first query, which the source leaves unfinished, and the
  interactive tests of the database; the blocking of the NATS driver's folder locks and its shutdown
  on a signal; the Prometheus collectors; the \<open>init\<close> function of the dqlite driver; the generated code of
  the protocol buffers beyond the messages and the client; the cycle counter, which is written in
  assembly and only called in comments; logging. Contexts appear only as the errors and steps they
  cause. Goroutines that read a channel are functions of the batches they read; interleavings are steps
  where the code's behaviour depends on them (the broadcaster, the watch call, the writes between two
  rounds of the poller, two concurrent creations, the nodes of a cluster).
\<close>

section \<open>Keys through the whole stack\<close>

text \<open>
  C1: a key that does not exist is created by one transaction, at the revision after the current
  one, and a range request that follows answers with the value that was written, its lease, and
  that revision as create and modification revision.
\<close>

theorem create_then_get:
  assumes "dds_keyed D" "dds_good s" "dds_space s" "plain_key k" "fits32 lease"
    and "dds_versions s k = []"
  shows "\<exists>s1 s2. bridge_Txn (logstructured_backend (dds_log D feed)) (create_txn k val lease) s =
      Some (Inr \<lparr>txn_Header = txnHeader (dds_cur s + 1), Succeeded = True,
                 Responses = put_responses (dds_cur s + 1)\<rparr>, s1) \<and>
    bridge_Range (logstructured_backend (dds_log D feed)) (get_request k) s1 =
      Some (Inr \<lparr>pr_Header = txnHeader (dds_cur s + 1),
                 pr_Kvs = [\<lparr>mv_Key = k, mv_CreateRevision = dds_cur s + 1,
                            mv_ModRevision = dds_cur s + 1, mv_Version = 0, mv_Value = val, mv_Lease = lease\<rparr>],
                 pr_More = False, pr_Count = 0\<rparr>, s2)"
proof -
  let ?B = "logstructured_backend (dds_log D feed)"
  note store = dds_is_store [OF assms(1), of feed]
  obtain s1 e where t: "bridge_Txn ?B (create_txn k val lease) s =
      Some (Inr \<lparr>txn_Header = txnHeader (dds_cur s + 1), Succeeded = True,
                 Responses = put_responses (dds_cur s + 1)\<rparr>, s1)"
    and s1: "dds_good s1" "dds_cur s1 = dds_cur s + 1" "dds_versions s1 k = [e]" "\<not> Delete e"
      "KV e = Some \<lparr>Key = k, CreateRevision = dds_cur s + 1, ModRevision = dds_cur s + 1,
                    Value = val, Lease = lease\<rparr>"
    using key_store.txn_create_new [OF store isCreate_create_txn, where w = s] assms
    by (fastforce simp: fun_upd_def)
  obtain s2 where "bridge_Range ?B (get_request k) s1 =
      Some (Inr \<lparr>pr_Header = txnHeader (dds_cur s1), pr_Kvs = toKVs [KV e], pr_More = False, pr_Count = 0\<rparr>, s2)"
    using key_store.range_get [OF store, where w = s1 and r = "get_request k"] s1 assms(4) by auto
  with t s1 show ?thesis by (auto simp: toKVs_def toKV_def map_filter_def)
qed

theorem create_then_get_witness:
  "\<exists>s1 s2. bridge_Txn (logstructured_backend (dds_log in_order no_feed)) (create_txn ''/b'' ''x'' 60) one_key =
      Some (Inr \<lparr>txn_Header = txnHeader 2, Succeeded = True, Responses = put_responses 2\<rparr>, s1) \<and>
    bridge_Range (logstructured_backend (dds_log in_order no_feed)) (get_request ''/b'') s1 =
      Some (Inr \<lparr>pr_Header = txnHeader 2,
                 pr_Kvs = [\<lparr>mv_Key = ''/b'', mv_CreateRevision = 2, mv_ModRevision = 2, mv_Version = 0,
                            mv_Value = ''x'', mv_Lease = 60\<rparr>],
                 pr_More = False, pr_Count = 0\<rparr>, s2)"
  using create_then_get [OF in_order_keyed one_key_good(1,2) plain_examples(2), of 60 no_feed "''x''"]
  by (simp add: one_key_versions one_key_good fits32_def)

text \<open>
  C4: creating a key whose newest version is not a deletion fails without an error: the transaction
  is answered as not succeeded at the current revision, and no version of any key changes.
\<close>

theorem create_existing:
  assumes "dds_keyed D" "dds_good s" "plain_key k"
    and "dds_versions s k \<noteq> []" "\<not> Delete (last (dds_versions s k))"
  shows "\<exists>s'. bridge_Txn (logstructured_backend (dds_log D feed)) (create_txn k val lease) s =
      Some (Inr \<lparr>txn_Header = txnHeader (dds_cur s), Succeeded = False, Responses = []\<rparr>, s') \<and>
    dds_versions s' = dds_versions s \<and> dds_cur s' = dds_cur s"
  using key_store.txn_create_exists [OF dds_is_store [OF assms(1)] isCreate_create_txn, where w = s] assms
  by (fastforce simp: undisturbed_def)

theorem create_existing_witness:
  "\<exists>s'. bridge_Txn (logstructured_backend (dds_log in_order no_feed)) (create_txn ''/a'' ''x'' 0) one_key =
      Some (Inr \<lparr>txn_Header = txnHeader 1, Succeeded = False, Responses = []\<rparr>, s') \<and>
    dds_versions s' = dds_versions one_key \<and> dds_cur s' = 1"
  using create_existing [OF in_order_keyed one_key_good(1) plain_examples(1), of no_feed "''x''" 0]
  by (simp add: one_key_versions one_key_good)





text \<open>
  C5: a deletion of a live key at the revision of its newest version, or without one, appends a
  deletion to the versions of the key and answers with the version it deleted; at any other revision
  it changes nothing.
\<close>

theorem delete_compares_revision:
  assumes "dds_keyed D" "dds_good s" "dds_space s" "plain_key k"
    and "dds_versions s k \<noteq> []" "\<not> Delete (last (dds_versions s k))"
  shows "\<exists>resp s'. bridge_Txn (logstructured_backend (dds_log D feed)) (delete_txn k rv) s = Some (Inr resp, s') \<and>
    (if rv = 0 \<or> rv = ModRevision (the_kv (KV (last (dds_versions s k))))
     then Succeeded resp \<and> Responses resp = [ResponseDeleteRange \<lparr>del_Header = txnHeader (dds_cur s + 1),
            PrevKvs = toKVs [KV (last (dds_versions s k))]\<rparr>] \<and>
          (\<exists>e. Delete e \<and> dds_versions s' = (dds_versions s)(k := dds_versions s k @ [e]))
     else \<not> Succeeded resp \<and> dds_versions s' = dds_versions s \<and> dds_cur s' = dds_cur s)"
proof (cases "rv = 0 \<or> rv = ModRevision (the_kv (KV (last (dds_versions s k))))")
  case True
  with key_store.txn_delete_ok [OF dds_is_store [OF assms(1)] txn_recognised(4,5), where w = s] assms(2-6)
  show ?thesis by fastforce
next
  case False
  then have ne: "rv \<noteq> 0" "rv \<noteq> ModRevision (the_kv (KV (last (dds_versions s k))))" by simp_all
  obtain s' where "bridge_Txn (logstructured_backend (dds_log D feed)) (delete_txn k rv) s =
      Some (Inr \<lparr>txn_Header = txnHeader (dds_cur s), Succeeded = False,
                 Responses = range_responses (dds_cur s) (KV (last (dds_versions s k)))\<rparr>, s')"
    and "undisturbed dds_good dds_versions dds_cur dds_space s s'"
    using key_store.txn_delete_stale [OF dds_is_store [OF assms(1), of feed] txn_recognised(4,5) assms(2,4-6) ne]
    by blast
  with False show ?thesis by (auto simp: undisturbed_def)
qed

theorem delete_compares_revision_witness:
  "\<exists>resp s'. bridge_Txn (logstructured_backend (dds_log in_order no_feed)) (delete_txn ''/a'' 1) one_key =
       Some (Inr resp, s') \<and> Succeeded resp \<and>
     (\<exists>e. Delete e \<and> dds_versions s' ''/a'' = [event_of_msg (row_msg 1 ''/a'' 0), e])"
proof -
  have v: "dds_versions one_key ''/a'' \<noteq> []" "\<not> Delete (last (dds_versions one_key ''/a''))"
    and r: "1 = ModRevision (the_kv (KV (last (dds_versions one_key ''/a''))))"
    by (simp_all add: one_key_versions event_of_row_msg)
  have "\<exists>resp s'. bridge_Txn (logstructured_backend (dds_log in_order no_feed)) (delete_txn ''/a'' 1) one_key =
       Some (Inr resp, s') \<and> Succeeded resp \<and>
     (\<exists>e. Delete e \<and> dds_versions s' = (dds_versions one_key)(''/a'' := dds_versions one_key ''/a'' @ [e]))"
    using delete_compares_revision [OF in_order_keyed one_key_good(1,2) plain_examples(1) v, of no_feed 1]
    unfolding r [symmetric] by auto
  then show ?thesis by (auto simp: one_key_versions)
qed

text \<open>
  C11: whether a key is seen depends on the first of its rows that the middleware returns, not on its
  newest one: the answer is the newest version if that first row is not a deletion, even when the
  newest version is one, and empty otherwise, even when the key has been created again.
\<close>

theorem visibility_by_first_sample:
  assumes "dds_good s" "plain_key k" "samples_of k s = r # rs"
  shows "\<exists>s'. bridge_Range (logstructured_backend (dds_log D feed)) (get_request k) s =
    Some (Inr \<lparr>pr_Header = txnHeader (dds_cur s),
               pr_Kvs = (if msg_deleted r = 0 then toKVs [KV (last (dds_versions s k))] else []),
               pr_More = False, pr_Count = 0\<rparr>, s')"
proof -
  obtain s' where "LogStructured_Get (dds_log D feed) k [] 0 0 s =
      Some ((dds_cur s, if msg_deleted r = 0 then KV (last (dds_versions s k)) else None, None), s')"
    using Get_by_first_sample [OF assms] by blast
  then show ?thesis
    by (cases "msg_deleted r = 0"; cases "KV (last (dds_versions s k))")
       (auto simp: bridge_Range_def limited_Range_def limited_get_def toKVs_def)
qed

theorem visibility_by_first_sample_witness:
  "\<exists>s'. bridge_Range (logstructured_backend (dds_log in_order no_feed)) (get_request ''/a'')
      (log_of [row_msg 1 ''/a'' 0, row_msg 2 ''/a'' 1] 2) =
    Some (Inr \<lparr>pr_Header = txnHeader 2,
               pr_Kvs = [\<lparr>mv_Key = ''/a'', mv_CreateRevision = 0, mv_ModRevision = 2, mv_Version = 0,
                          mv_Value = ''v'', mv_Lease = 0\<rparr>],
               pr_More = False, pr_Count = 0\<rparr>, s')"
proof -
  let ?s = "log_of [row_msg 1 ''/a'' 0, row_msg 2 ''/a'' 1] 2"
  have "dds_good ?s" "samples_of ''/a'' ?s = [row_msg 1 ''/a'' 0, row_msg 2 ''/a'' 1]" "dds_cur ?s = 2"
    by (simp_all add: dds_good_def dds_ok_def maximum_messages_def fits32_def samples_of_def dds_cur_def)
  moreover have "dds_versions ?s ''/a'' = [event_of_msg (row_msg 1 ''/a'' 0), event_of_msg (row_msg 2 ''/a'' 1)]"
    by (simp add: dds_versions_def rows_of_def)
  ultimately show ?thesis
    using visibility_by_first_sample [of ?s "''/a''" "row_msg 1 ''/a'' 0" "[row_msg 2 ''/a'' 1]" in_order no_feed]
    by (simp add: plain_examples event_of_row_msg toKVs_def toKV_def map_filter_def)
qed



text \<open>
  A count of a directory comes back with its two numbers exchanged: the header's revision is the
  number of names, and the count is the current revision. Deleted names are counted as well.
\<close>

lemma count_exchanged:
  assumes "dds_good s" "0 < dds_cur s" "range_unsupported r = None" "RangeEnd r \<noteq> []" "CountOnly r"
  shows "bridge_Range (logstructured_backend (dds_log D feed)) r s =
    Some (Inr \<lparr>pr_Header = txnHeader (int (card (msg_name ` {m \<in> set (reader (d_world s)).
                   name_matches (list_prefix (RangeEnd r) @ ''%'') m}))),
               pr_Kvs = [], pr_More = False, pr_Count = dds_cur s\<rparr>, s)"
proof -
  have "HasSuffix (list_prefix (RangeEnd r)) ''/''"
    by (simp add: list_prefix_def Let_def HasSuffix_single)
  from Count_dds [OF assms(1) this, of D] show ?thesis
    using assms(2-5)
    by (simp add: bridge_Range_def limited_Range_def limited_list_def LogStructured_Count_def dds_log_def
        toKVs_def)
qed

section \<open>The poller and compaction on the database\<close>



text \<open>
  The compactor never compacts: over any number of ticks it ends every tick, changes nothing,
  and after the first its target is 0. It takes the identifier of the compaction row for the compact
  revision.
\<close>

lemma compactor_never_compacts:
  assumes "dds_good s"
  shows "compactor (generic_dialect (comms D)) n s =
    Some ((msg_id (query_compaction (d_world s)), if n = 0 then dds_cur s else 0), s)"
  using assms by (rule compactor_dds)

text \<open>
  C21: starting the log depends on the number of compaction rows: without one it writes one, with one
  it does nothing, and with two or more it panics, because the dialect answers the request for a
  transaction with neither a transaction nor an error.
\<close>

theorem start_by_compaction_rows:
  assumes "dds_keyed D" "dds_good s" "dds_space s"
  shows "case compact_rows (d_world s) of
      [] \<Rightarrow> \<exists>s' e. SQLLog_Start (generic_dialect (comms D)) s = Some (None, s') \<and> dds_good s' \<and>
             dds_versions s' = (dds_versions s)(''compact_rev_key'' := [e])
    | [c] \<Rightarrow> SQLLog_Start (generic_dialect (comms D)) s = Some (None, s)
    | _ \<Rightarrow> SQLLog_Start (generic_dialect (comms D)) s = None"
proof -
  let ?d = "generic_dialect (comms D)" and ?db = "d_world s"
  have ok: "dds_ok ?db" using assms(2) by (simp add: dds_good_def)
  note start = SQLLog_Start_def compactStart_def lift_d_def start_rows [OF ok]
  show ?thesis
  proof (cases "compact_rows ?db")
    case Nil
    let ?e = "\<lparr>Delete = False, Create = True,
      KV = Some (KeyValue_zero\<lparr>Key := ''compact_rev_key'', Value := []\<rparr>), PrevKV = None\<rparr>"
    have none: "dds_versions s ''compact_rev_key'' = []"
      using Nil by (simp add: dds_versions_def rows_of_def compact_rows_def)
    obtain s' where "SQLLog_Append ?d ?e s = Some ((dds_cur s + 1, None), s')" "dds_good s'"
      "dds_versions s' = (dds_versions s)(''compact_rev_key'' := [stored (dds_cur s + 1) ?e])"
      using dds_append [OF assms(1-3), of ?e] none by (auto simp: storable_def fits32_def)
    with Nil show ?thesis by (auto simp: start)
  next
    case (Cons c cs)
    have len: "length (sort_key msg_id (compact_rows ?db)) = length (compact_rows ?db)" by simp
    show ?thesis
    proof (cases cs)
      case Nil
      with Cons show ?thesis by (simp add: start RowsToEventsDds_def)
    next
      case (Cons c' cs')
      with \<open>compact_rows ?db = c # cs\<close> len
      have "2 \<le> length (sort_key msg_id (compact_rows ?db))" by simp
      then obtain a b rest where "sort_key msg_id (compact_rows ?db) = a # b # rest"
        by (metis One_nat_def Suc_1 Suc_le_length_iff)
      with Cons \<open>compact_rows ?db = c # cs\<close> show ?thesis
        by (simp add: start RowsToEventsDds_def Generic_BeginTx_def)
    qed
  qed
qed

theorem start_by_compaction_rows_witness:
  "SQLLog_Start (generic_dialect (comms in_order))
     (log_of [row_msg 1 ''compact_rev_key'' 0, row_msg 2 ''compact_rev_key'' 0] 2) = None"
proof -
  let ?s = "log_of [row_msg 1 ''compact_rev_key'' 0, row_msg 2 ''compact_rev_key'' 0] 2"
  have "dds_good ?s" "dds_space ?s"
    by (simp_all add: dds_good_def dds_space_def dds_ok_def dds_room_def maximum_messages_def fits32_def)
  from start_by_compaction_rows [OF in_order_keyed this] show ?thesis by (simp add: compact_rows_def)
qed

text \<open>
  A compact revision that has been recorded cannot be read back: reading it gives the identifier
  of the compaction row. The rows of a query carry the recorded revision.
\<close>

lemma compact_revision_lost:
  assumes "dds_keyed D" "dds_ok db" "compact_rows db = [c]" "fits32 rv"
  shows "\<exists>db'. Generic_SetCompactRevision (comms D) rv db = Some (None, db') \<and>
    Generic_GetCompactRevision (comms D) db' = Some ((msg_id c, None), db') \<and>
    snd (query_find_common_values db') = rv"
proof -
  obtain db' where "Generic_SetCompactRevision (comms D) rv db = Some (None, db')" "dds_ok db'"
    "msg_id (query_compaction db') = msg_id c" "msg_prev_revision (query_compaction db') = rv"
    using set_compact_revision [OF assms] by blast
  then show ?thesis
    using compaction_id(1) [of db']
    by (auto simp: Generic_GetCompactRevision_def remote_defs comms_def dds_client_def query_find_common_values_def)
qed

text \<open>
  C22: the expiry of a lease deletes a key only if it still is at the revision that carried the lease:
  when the key has a newer version, nothing changes.
\<close>

theorem expired_lease_spares_newer:
  assumes "dds_keyed D" "dds_good s" "KV e = Some kv" "plain_key (Key kv)" "ModRevision kv \<noteq> 0"
    and "dds_versions s (Key kv) \<noteq> []"
    and "ModRevision (the_kv (KV (last (dds_versions s (Key kv))))) \<noteq> ModRevision kv"
  shows "\<exists>s'. ttl_expire (dds_log D feed) e s = Some ((), s') \<and> dds_versions s' = dds_versions s \<and>
    dds_cur s' = dds_cur s"
proof (cases "Delete (last (dds_versions s (Key kv)))")
  case True
  obtain s' where "LogStructured_Delete (dds_log D feed) (Key kv) (ModRevision kv) s =
      Some ((dds_cur s, KV (last (dds_versions s (Key kv))), True, None), s')"
    and "undisturbed dds_good dds_versions dds_cur dds_space s s'"
    using key_log.Delete_gone [OF dds_is_log [OF assms(1), of feed] assms(2,4), of "ModRevision kv"] True assms(6) by auto
  with assms(3) show ?thesis by (auto simp: ttl_expire_def undisturbed_def)
next
  case False
  obtain s' where "LogStructured_Delete (dds_log D feed) (Key kv) (ModRevision kv) s =
      Some ((dds_cur s, KV (last (dds_versions s (Key kv))), False, None), s')"
    and "undisturbed dds_good dds_versions dds_cur dds_space s s'"
    using key_log.Delete_stale [OF dds_is_log [OF assms(1), of feed] assms(2,4,6) False assms(5)] assms(7) by auto
  with assms(3) show ?thesis by (auto simp: ttl_expire_def undisturbed_def)
qed

theorem expired_lease_spares_newer_witness:
  "\<exists>s'. ttl_expire (dds_log in_order no_feed) (plain_event ''/a'' 1 60)
      (log_of [row_msg 1 ''/a'' 0, row_msg 2 ''/a'' 0] 2) = Some ((), s') \<and> dds_cur s' = 2"
proof -
  let ?s = "log_of [row_msg 1 ''/a'' 0, row_msg 2 ''/a'' 0] 2"
  have g: "dds_good ?s" "dds_cur ?s = 2"
    by (simp_all add: dds_good_def dds_ok_def maximum_messages_def fits32_def dds_cur_def)
  have v: "dds_versions ?s ''/a'' = [event_of_msg (row_msg 1 ''/a'' 0), event_of_msg (row_msg 2 ''/a'' 0)]"
    by (simp add: dds_versions_def rows_of_def)
  show ?thesis
    using expired_lease_spares_newer [OF in_order_keyed g(1), of "plain_event ''/a'' 1 60"
      "\<lparr>Key = ''/a'', CreateRevision = 1, ModRevision = 1, Value = ''v'', Lease = 60\<rparr>" no_feed] v g(2)
    by (auto simp: plain_event_def plain_examples event_of_row_msg)
qed

text \<open>
  Revisions beyond 32 bits stop every reader: the request of the rows after such a revision is
  answered with an error as soon as one row of the pattern exists.
\<close>

lemma large_revision_fails:
  assumes "2 ^ 31 \<le> rv" "m \<in> set (reader db)" "name_matches pre m"
  shows "Generic_After (comms D) pre rv limit db = Some (([], Some handler_error), db)"
proof -
  have "stoi (FormatInt rv) = None" using assms(1) by (simp add: stoi_FormatInt)
  then have "filter_query01 pre (FormatInt rv) m = None"
    using assms(3) by (simp add: filter_query01_def and_then_def)
  then have "query_01 l pre (FormatInt rv) db = None" for l
    using assms(2) by (auto simp: query_01_def dds_read_def split: prod.split)
  then show ?thesis by (simp add: After_dds)
qed

text \<open>
  Deleting a row that does not exist is reported as a success: the dialect returns no error for
  a dispose that the database refused.
\<close>

lemma delete_of_absent_row_succeeds:
  assumes "dds_ok db" "- (2 ^ 31) \<le> rv" "rv < 2 ^ 31" "\<forall>m \<in> set (reader db). msg_id m \<noteq> rv"
  shows "ConnectDdsRequestDispose (comms D) rv db = Some ((False, None), db) \<and>
    Generic_DeleteRevision (comms D) rv db = Some (None, db)"
proof -
  have "dds_read (filter_query_find_message_by_id rv) (reader db) = Some (filter (\<lambda>m. msg_id m = rv) (reader db))"
    by (intro dds_ok_read [OF assms(1)]) (simp add: filter_query_find_message_by_id_def)
  moreover have "filter (\<lambda>m. msg_id m = rv) (reader db) = []" using assms(4) by (simp add: filter_empty_conv)
  ultimately have "query_find_message_by_id rv db = empty_msg" by (simp add: query_find_message_by_id_def)
  then show ?thesis
    using assms(2,3)
    by (simp add: Generic_DeleteRevision_def remote_defs comms_def dds_client_def expose_dispose_def
        empty_msg_def wrap_simps)
qed

text \<open>
  \<open>Put\<close> of the client writes only keys that exist: for a key without a version it returns the
  error of the read and writes nothing, although it has a branch that creates the key; for a key
  that was never deleted it writes a version, at the next revision.
\<close>

lemma client_put:
  assumes "dds_keyed D" "dds_good s" "dds_space s" "plain_key k"
    and "\<forall>e \<in> set (dds_versions s k). \<not> Delete e"
  shows "\<exists>err s'. client_Put (client_of (logstructured_backend (dds_log D feed))) k val s = Some (err, s') \<and>
    (if dds_versions s k = [] then err = Some ErrNotFound \<and> dds_versions s' = dds_versions s
     else err = None \<and> (\<exists>e. dds_versions s' = (dds_versions s)(k := dds_versions s k @ [e]) \<and>
            map_option Value (KV e) = Some val \<and> map_option ModRevision (KV e) = Some (dds_cur s + 1)))"
proof -
  let ?B = "logstructured_backend (dds_log D feed)"
  note store = dds_is_store [OF assms(1), of feed]
  obtain s1 where g: "bridge_Range ?B (get_request k) s = Some (Inr \<lparr>pr_Header = txnHeader (dds_cur s),
      pr_Kvs = (if dds_versions s k = [] then [] else toKVs [KV (last (dds_versions s k))]),
      pr_More = False, pr_Count = 0\<rparr>, s1)" and same: "undisturbed dds_good dds_versions dds_cur dds_space s s1"
    using key_store.range_get [OF store, where w = s and r = "get_request k"] assms(2,4,5) by auto
  show ?thesis
  proof (cases "dds_versions s k = []")
    case True
    with g same show ?thesis by (simp add: client_Put_def client_Get_def undisturbed_def)
  next
    case False
    then have "last (dds_versions s k) \<in> set (dds_versions s k)" by simp
    then obtain kv where kv: "KV (last (dds_versions s k)) = Some kv" "0 < ModRevision kv"
      using key_store.version_some [OF store assms(2)] by blast
    have s1: "dds_good s1" "dds_space s1" "dds_versions s1 = dds_versions s" "dds_cur s1 = dds_cur s"
      using same assms(3) by (auto simp: undisturbed_def)
    obtain s2 e where "bridge_Txn ?B (update_txn k (ModRevision kv) val 0) s1 =
        Some (Inr \<lparr>txn_Header = txnHeader (dds_cur s1 + 1), Succeeded = True,
                   Responses = put_responses (dds_cur s1 + 1)\<rparr>, s2)"
      and "dds_versions s2 = (dds_versions s1)(k := dds_versions s1 k @ [e])"
      and "KV e = Some \<lparr>Key = k, CreateRevision = CreateRevision kv, ModRevision = dds_cur s1 + 1,
                       Value = val, Lease = 0\<rparr>"
      using key_store.txn_update_ok [OF store txn_recognised(1-3), where w = s1 and k = k and lease = 0
          and prev = kv and rv = "ModRevision kv" and val = val] s1 assms(4,5) False kv
      by (auto simp: fits32_def)
    then show ?thesis
      using g False kv s1
      by (auto simp: client_Put_def client_Get_def client_Update_def txn_error_def toKVs_def toKV_def
          map_filter_def value_of_def)
  qed
qed

end
